(* ===== verification/Prelude.thy ===== *)
theory Prelude
  imports Main "HOL-Library.Word" "HOL-Library.Code_Target_Nat"
begin

text \<open>
  Shared vocabulary of the development: the outcome type of Go functions, the errors of
  the \<^verbatim>\<open>ovs\<close> package and of the standard library functions it calls, the sequencing of
  fallible steps, and the two interface contracts that most components meet: a text codec
  (encoding followed by decoding is the identity on the values the type allows) and a
  marshaler (\<^verbatim>\<open>encoding.TextMarshaler\<close>).
\<close>

section \<open>Outcomes\<close>

named_theorems go_defs \<open>definitions of the modelled library functions, unfolded on demand\<close>
named_theorems codec_simps \<open>round trips of printers and parsers\<close>
named_theorems clean_text \<open>which bytes a printed text can hold\<close>

text \<open>
  A Go \<^verbatim>\<open>error\<close> value. One constructor per error the code distinguishes; the wording of a
  message is kept only where the code stores it as data.
\<close>

datatype error =
    ErrSyntax                      \<comment> \<open>strconv.ErrSyntax\<close>
  | ErrRange                       \<comment> \<open>strconv.ErrRange\<close>
  | ErrScan                        \<comment> \<open>any error of fmt.Sscanf\<close>
  | ErrMAC                         \<comment> \<open>net.ParseMAC: invalid MAC address\<close>
  | ErrEOF                         \<comment> \<open>io.EOF\<close>
  | ErrUnexpectedEOF               \<comment> \<open>io.ErrUnexpectedEOF\<close>
  | ErrTokenTooLong                \<comment> \<open>bufio.ErrTooLong\<close>
  | ErrHardwareAddrLen nat         \<comment> \<open>hardware address must be 6 octets, but got n\<close>
  | ErrWildcardLen nat             \<comment> \<open>wildcard mask must be 6 octets, but got n\<close>
  | ErrInvalidIPv4 string          \<comment> \<open>not a valid IPv4 address or IPv4 CIDR block\<close>
  | ErrInvalidIPv6 string          \<comment> \<open>not a valid IPv6 address or IPv6 CIDR block\<close>
  | ErrNoMatchParser string string \<comment> \<open>no match parser found for key=value\<close>
  | ErrIntTooLarge int int         \<comment> \<open>integer t too large; t > max\<close>
  | ErrInvalidValue string string  \<comment> \<open>invalid value, no action matched for key=value\<close>
  | ErrNoMatched string string     \<comment> \<open>no action matched for key=value\<close>
  | ErrFlagLength                  \<comment> \<open>ct_state / tcp_flags length must be divisible by 4\<close>
  | ErrTooManyParts string         \<comment> \<open>invalid vlan_tci / ct_mark / tun_id match\<close>
  | ErrCTNoArguments
  | ErrInvalidVLANVID
  | ErrOutputNegativePort
  | ErrResubmitPortTableZero
  | ErrLoadSetFieldZero
  | ErrResubmitPortInvalid
  | ErrDimensionTooLarge
  | ErrModNetworkInvalid           \<comment> \<open>invalid IPv4 address for ModNetwork action\<close>
  | ErrActionIPv4                  \<comment> \<open>invalid IPv4 address in a mod_nw_ action text\<close>
  | ErrUnbalanced string           \<comment> \<open>invalid action: unmatched parentheses\<close>
  | ErrNoActionMatched string      \<comment> \<open>no action matched for the text\<close>
  | ErrInvalidPortRange
  | ErrActionsWithDrop
  | ErrInvalidActions
  | ErrNoActions
  | ErrEmptyMatchFlow
  | ErrInvalidFlowStats
  | ErrInvalidPortStats
  | ErrInvalidTable
  | ErrMultipleValues
  | ErrNotCommitted
  | FlowError string error         \<comment> \<open>FlowError{Str, Err}\<close>
  | MatchFlowError string error    \<comment> \<open>MatchFlowError{Str, Err}\<close>
  | DiscardError error             \<comment> \<open>discarding add flow transaction: err\<close>
  | ExecError "string option" error \<comment> \<open>Error{Out, Err}; a nil Out is \<open>None\<close>\<close>
  | PipeError "string option" error \<comment> \<open>pipeError{out, err}\<close>
  | ErrJSONSyntax                  \<comment> \<open>json.SyntaxError\<close>
  | ErrJSONType                    \<comment> \<open>json.UnmarshalTypeError\<close>
  | ErrRequestID                   \<comment> \<open>JSON-RPC request ID must not be empty\<close>
  | ErrEncode error                \<comment> \<open>failed to encode JSON-RPC request: err\<close>
  | ErrDecode error                \<comment> \<open>failed to decode JSON-RPC response: err\<close>
  | ErrRPC string                  \<comment> \<open>received JSON-RPC error, with the text of the error member\<close>
  | OvsdbError string string string \<comment> \<open>ovsdb Error{Err, Details, Syntax}\<close>
  | ErrInvalidEcho string          \<comment> \<open>invalid echo response\<close>
  | ErrCanceled                    \<comment> \<open>ctx.Err() of a cancelled or timed out context\<close>
  | ErrNotExist                    \<comment> \<open>os.ErrNotExist\<close>
  | ErrFamilyCount nat             \<comment> \<open>expected 4 OVS generic netlink families, but found n\<close>
  | ErrUnknownFamily string        \<comment> \<open>unrecognized OVS generic netlink family\<close>
  | ErrHeaderSize nat              \<comment> \<open>not enough data for OVS message header\<close>
  | ErrDPStatsSize nat             \<comment> \<open>unexpected datapath stats structure size\<close>
  | ErrMegaflowStatsSize nat       \<comment> \<open>unexpected datapath megaflow stats structure size\<close>
  | ErrExternal string             \<comment> \<open>an error of code outside the repository, by its text\<close>

text \<open>
  What a Go call does: return normally, return a non-nil error, or panic. The values that
  accompany a non-nil error are modelled only where a caller can use them.
\<close>

datatype 'a result = Ok 'a | Err error | Panic

fun and_then :: "'a result \<Rightarrow> ('a \<Rightarrow> 'b result) \<Rightarrow> 'b result" where
  "and_then (Ok x) f = f x"
| "and_then (Err e) f = Err e"
| "and_then Panic f = Panic"

definition is_ok :: "'a result \<Rightarrow> bool" where
  "is_ok r \<longleftrightarrow> (case r of Ok _ \<Rightarrow> True | _ \<Rightarrow> False)"

text \<open>A Go loop that appends one result per element and returns at the first error.\<close>

fun each :: "('a \<Rightarrow> 'b result) \<Rightarrow> 'a list \<Rightarrow> 'b list result" where
  "each f [] = Ok []"
| "each f (x # xs) = and_then (f x) (\<lambda>y. and_then (each f xs) (\<lambda>ys. Ok (y # ys)))"

lemma and_then_eq_Ok [simp]:
  "and_then r f = Ok y \<longleftrightarrow> (\<exists>x. r = Ok x \<and> f x = Ok y)"
  by (cases r) auto

lemma and_then_eq_Panic:
  "and_then r f = Panic \<longleftrightarrow> r = Panic \<or> (\<exists>x. r = Ok x \<and> f x = Panic)"
  by (cases r) auto

lemma and_then_eq_Err:
  "and_then r f = Err e \<longleftrightarrow> r = Err e \<or> (\<exists>x. r = Ok x \<and> f x = Err e)"
  by (cases r) auto

lemma and_then_assoc: "and_then (and_then r f) g = and_then r (\<lambda>x. and_then (f x) g)"
  by (cases r) auto

lemma and_then_Ok [simp]: "and_then r Ok = r"
  by (cases r) auto

lemma map_result_eq_Ok: "map_result f r = Ok y \<longleftrightarrow> (\<exists>x. r = Ok x \<and> y = f x)"
  by (cases r) auto

lemma is_ok_simps [simp]: "is_ok (Ok x)" "\<not> is_ok (Err e)" "\<not> is_ok Panic"
  by (simp_all add: is_ok_def)

lemma is_ok_iff: "is_ok r \<longleftrightarrow> (\<exists>x. r = Ok x)"
  by (cases r) auto

lemma is_ok_and_then: "is_ok (and_then r f) \<longleftrightarrow> (\<exists>x. r = Ok x \<and> is_ok (f x))"
  by (cases r) auto

lemma each_append:
  "each f (xs @ ys) = and_then (each f xs) (\<lambda>as. and_then (each f ys) (\<lambda>bs. Ok (as @ bs)))"
  by (induction xs) (simp_all add: and_then_assoc)

lemma each_cong [fundef_cong]:
  "xs = ys \<Longrightarrow> (\<And>x. x \<in> set ys \<Longrightarrow> f x = g x) \<Longrightarrow> each f xs = each g ys"
  by (induction xs arbitrary: ys) auto

lemma each_map: "each f (map g xs) = each (\<lambda>x. f (g x)) xs"
  by (induction xs) auto

lemma each_Ok_iff: "each f xs = Ok ys \<longleftrightarrow> list_all2 (\<lambda>x y. f x = Ok y) xs ys"
  by (induction xs arbitrary: ys) (auto simp: list_all2_Cons1)

lemma each_is_ok: "is_ok (each f xs) \<longleftrightarrow> (\<forall>x \<in> set xs. is_ok (f x))"
  by (induction xs) (auto simp: is_ok_and_then is_ok_iff)

lemma each_length: "each f xs = Ok ys \<Longrightarrow> length ys = length xs"
  by (auto simp: each_Ok_iff dest: list_all2_lengthD)

lemma each_nth: "each f xs = Ok ys \<Longrightarrow> i < length xs \<Longrightarrow> f (xs ! i) = Ok (ys ! i)"
  by (auto simp: each_Ok_iff dest: list_all2_nthD)

lemma each_all_Ok: "(\<And>x. x \<in> set xs \<Longrightarrow> f x = Ok (g x)) \<Longrightarrow> each f xs = Ok (map g xs)"
  by (induction xs) auto

lemma each_no_panic: "(\<And>x. x \<in> set xs \<Longrightarrow> f x \<noteq> Panic) \<Longrightarrow> each f xs \<noteq> Panic"
  by (induction xs) (auto simp: and_then_eq_Panic)

lemma each_ErrD:
  "each f xs = Err e \<Longrightarrow> \<exists>as x bs. xs = as @ x # bs \<and> is_ok (each f as) \<and> f x = Err e"
proof (induction xs)
  case (Cons x xs)
  show ?case
  proof (cases "f x")
    case (Ok y)
    with Cons.prems have "each f xs = Err e" by (auto simp: and_then_eq_Err)
    then obtain as z bs where "xs = as @ z # bs" "is_ok (each f as)" "f z = Err e"
      using Cons.IH by blast
    then have "x # xs = (x # as) @ z # bs" "is_ok (each f (x # as))" "f z = Err e"
      using Ok by (auto simp: is_ok_iff)
    then show ?thesis by blast
  next
    case (Err e')
    with Cons.prems have "x # xs = [] @ x # xs \<and> is_ok (each f []) \<and> f x = Err e" by simp
    then show ?thesis by blast
  qed (use Cons.prems in simp)
qed simp

lemma each_ErrI: "is_ok (each f as) \<Longrightarrow> f x = Err e \<Longrightarrow> each f (as @ x # bs) = Err e"
  by (auto simp: each_append is_ok_iff)

section \<open>Interfaces\<close>

text \<open>
  A text codec: what every pair of a printer and a parser in the package promises. The
  clients are the parsers of compound texts, which split a text and decode its pieces.
\<close>

locale text_codec =
  fixes enc :: "'a \<Rightarrow> string"
    and dec :: "string \<Rightarrow> 'a result"
    and valid :: "'a \<Rightarrow> bool"
  assumes dec_enc: "valid x \<Longrightarrow> dec (enc x) = Ok x"
begin

lemma enc_eq_iff: "valid x \<Longrightarrow> valid y \<Longrightarrow> enc x = enc y \<longleftrightarrow> x = y"
  using dec_enc [of x] dec_enc [of y] by (metis result.inject(1))

lemma enc_inj_on: "inj_on enc {x. valid x}"
  by (auto intro: inj_onI simp: enc_eq_iff)

lemma dec_enc_each: "list_all valid xs \<Longrightarrow> each dec (map enc xs) = Ok xs"
  by (induction xs) (auto simp: dec_enc)

end

text \<open>
  A codec whose texts never hold a separator byte, so that a joined list of them can be
  split again without ambiguity.
\<close>

locale separated_codec = text_codec +
  fixes sep :: char
  assumes sep_notin: "valid x \<Longrightarrow> sep \<notin> set (enc x)"

text \<open>
  \<^verbatim>\<open>encoding.TextMarshaler\<close>: marshaling returns a text or an error. The clients are the
  loops of \<^verbatim>\<open>marshalFunctions\<close> and of \<^verbatim>\<open>FlowTransaction.push\<close>.
\<close>

locale text_marshaler =
  fixes marshal :: "'a \<Rightarrow> string result"
  assumes marshal_no_panic: "marshal x \<noteq> Panic"
begin

lemma marshal_each_no_panic: "each marshal xs \<noteq> Panic"
  by (rule each_no_panic) (rule marshal_no_panic)

lemma marshal_each_cases:
  obtains (texts) ts where "each marshal xs = Ok ts" "length ts = length xs"
        | (fails) e where "each marshal xs = Err e"
  using marshal_each_no_panic [of xs] by (cases "each marshal xs") (auto dest: each_length)

end

end
