(* ===== verification/Go_Strings.thy ===== *)
theory Go_Strings
  imports Prelude
begin

text \<open>
  The functions of Go's \<^verbatim>\<open>strings\<close>, \<^verbatim>\<open>bytes\<close> and \<^verbatim>\<open>unicode/utf8\<close> packages that the
  repository calls, on byte strings: a Go string is a sequence of bytes and \<open>char\<close> is a
  byte. Where the library decodes UTF-8 (\<open>TrimSpace\<close>, \<open>Fields\<close>, \<open>ToLower\<close>, ranging over a
  string, reading runes) so does the model. The lemmas say how splitting undoes joining and
  that trimming leaves clean texts alone.
\<close>

section \<open>Prefixes, suffixes, searching\<close>

definition HasPrefix :: "string \<Rightarrow> string \<Rightarrow> bool" where
  [go_defs]: "HasPrefix s p \<longleftrightarrow> take (length p) s = p"

definition HasSuffix :: "string \<Rightarrow> string \<Rightarrow> bool" where
  [go_defs]: "HasSuffix s p \<longleftrightarrow> length p \<le> length s \<and> drop (length s - length p) s = p"

definition TrimPrefix :: "string \<Rightarrow> string \<Rightarrow> string" where
  [go_defs]: "TrimPrefix s p = (if HasPrefix s p then drop (length p) s else s)"

definition TrimSuffix :: "string \<Rightarrow> string \<Rightarrow> string" where
  [go_defs]: "TrimSuffix s p = (if HasSuffix s p then take (length s - length p) s else s)"

fun Index :: "string \<Rightarrow> string \<Rightarrow> nat option" where
  "Index [] sub = (if sub = [] then Some 0 else None)"
| "Index (c # s) sub = (if HasPrefix (c # s) sub then Some 0 else map_option Suc (Index s sub))"

definition Contains :: "string \<Rightarrow> string \<Rightarrow> bool" where
  [go_defs]: "Contains s sub \<longleftrightarrow> Index s sub \<noteq> None"

lemma HasPrefix_append [simp]: "HasPrefix (p @ s) p"
  by (simp add: HasPrefix_def)

lemma HasPrefix_Nil [simp]: "HasPrefix s []" "HasPrefix [] p \<longleftrightarrow> p = []"
  by (auto simp: HasPrefix_def)

lemma HasPrefix_Cons [simp]: "HasPrefix (c # s) (d # p) \<longleftrightarrow> c = d \<and> HasPrefix s p"
  by (auto simp: HasPrefix_def)

lemma HasPrefix_iff: "HasPrefix s p \<longleftrightarrow> (\<exists>t. s = p @ t)"
  by (auto simp: HasPrefix_def) (metis append_take_drop_id)

lemma HasSuffix_iff: "HasSuffix s p \<longleftrightarrow> (\<exists>t. s = t @ p)"
  by (auto simp: HasSuffix_def) (metis append_take_drop_id)

lemma TrimPrefix_append [simp]: "TrimPrefix (p @ s) p = s"
  by (simp add: TrimPrefix_def)

lemma TrimSuffix_append [simp]: "TrimSuffix (s @ p) p = s"
  by (simp add: TrimSuffix_def HasSuffix_def)

lemma TrimSuffix_id: "s = [] \<or> last s \<noteq> c \<Longrightarrow> TrimSuffix s [c] = s"
  by (auto simp: TrimSuffix_def HasSuffix_iff)

lemma Index_bound: "Index s sub = Some i \<Longrightarrow> i + length sub \<le> length s"
proof (induction s arbitrary: i)
  case (Cons c s)
  then show ?case
    by (auto simp: HasPrefix_iff split: if_splits) (metis length_Cons length_append le_add1)
qed (auto split: if_splits)

lemma Index_chr_None [simp]: "Index s [c] = None \<longleftrightarrow> c \<notin> set s"
  by (induction s) auto

lemma Index_chr_notin [simp]: "c \<notin> set s \<Longrightarrow> Index s [c] = None"
  by simp

lemma Index_chr_append: "c \<notin> set s \<Longrightarrow> Index (s @ c # t) [c] = Some (length s)"
  by (induction s) auto

lemma Contains_chr [simp]: "Contains s [c] \<longleftrightarrow> c \<in> set s"
  using Index_chr_None [of s c] by (auto simp: Contains_def simp del: Index_chr_None)

section \<open>Splitting and joining\<close>

text \<open>\<^verbatim>\<open>strings.Split\<close>; every separator in the sources is a non-empty constant.\<close>

function Split :: "string \<Rightarrow> string \<Rightarrow> string list" where
  "Split s sep =
     (if sep = [] then [s]
      else (case Index s sep of
              None \<Rightarrow> [s]
            | Some i \<Rightarrow> take i s # Split (drop (i + length sep) s) sep))"
  by pat_completeness auto
termination
proof (relation "measure (\<lambda>(s, sep). length s)")
  fix s sep :: string and i
  assume "sep \<noteq> []" and "Index s sep = Some i"
  then show "((drop (i + length sep) s, sep), s, sep) \<in> measure (\<lambda>(s, sep). length s)"
    using Index_bound [of s sep i] by (cases sep) auto
qed simp

declare Split.simps [simp del]

text \<open>\<^verbatim>\<open>strings.SplitN(s, sep, 2)\<close>: at most two pieces.\<close>

definition SplitN2 :: "string \<Rightarrow> string \<Rightarrow> string list" where
  [go_defs]: "SplitN2 s sep =
     (case Index s sep of
        None \<Rightarrow> [s]
      | Some i \<Rightarrow> [take i s, drop (i + length sep) s])"

fun Join :: "string list \<Rightarrow> string \<Rightarrow> string" where
  "Join [] sep = []"
| "Join [a] sep = a"
| "Join (a # b # xs) sep = a @ sep @ Join (b # xs) sep"

lemma Split_nonempty [simp]: "Split s sep \<noteq> []"
  by (subst Split.simps) (auto split: option.split)

lemma Split_chr_notin: "c \<notin> set s \<Longrightarrow> Split s [c] = [s]"
  by (subst Split.simps) simp

lemma Split_chr_append: "c \<notin> set s \<Longrightarrow> Split (s @ c # t) [c] = s # Split t [c]"
  by (subst Split.simps) (simp add: Index_chr_append)

lemma Split_Join:
  "xs \<noteq> [] \<Longrightarrow> (\<forall>x \<in> set xs. c \<notin> set x) \<Longrightarrow> Split (Join xs [c]) [c] = xs"
proof (induction xs "[c]" rule: Join.induct)
  case (3 a b xs)
  then show ?case by (simp add: Split_chr_append)
qed (simp_all add: Split_chr_notin)

lemma Join_append1: "xs \<noteq> [] \<Longrightarrow> Join (x # xs) sep = x @ sep @ Join xs sep"
  by (cases xs) auto

lemma Join_empty_sep [simp]: "Join xs [] = concat xs"
  by (induction xs "[] :: string" rule: Join.induct) auto

lemma set_Join: "set (Join xs sep) \<subseteq> \<Union> (set ` set xs) \<union> set sep"
  by (induction xs sep rule: Join.induct) auto

lemma set_Join_subset:
  "(\<And>x. x \<in> set xs \<Longrightarrow> set x \<subseteq> A) \<Longrightarrow> set sep \<subseteq> A \<Longrightarrow> set (Join xs sep) \<subseteq> A"
  using set_Join [of xs sep] by blast

text \<open>A multi-byte separator that occurs exactly once.\<close>

lemma Index_SomeD: "Index s sub = Some i \<Longrightarrow> s = take i s @ sub @ drop (i + length sub) s"
proof (induction s arbitrary: i)
  case (Cons c s)
  then show ?case
    by (auto simp: HasPrefix_iff split: if_splits)
qed (auto split: if_splits)

lemma Split_once:
  assumes "Index s sep = Some i" and "sep \<noteq> []" and "Index (drop (i + length sep) s) sep = None"
  shows "Split s sep = [take i s, drop (i + length sep) s]"
  using assms by (subst Split.simps) (simp add: Split.simps)

section \<open>White space\<close>

text \<open>
  The UTF-8 encodings of the runes for which \<^verbatim>\<open>unicode.IsSpace\<close> holds: the ASCII blanks,
  U+0085, U+00A0, U+1680, U+2000 to U+200A, U+2028, U+2029, U+202F, U+205F and U+3000.
  No encoding is a suffix or a prefix of another, and none starts inside another rune, so
  testing prefixes byte by byte agrees with decoding runes.
\<close>

definition ascii_spaces :: string where
  "ascii_spaces = [CHR 0x09, CHR 0x0A, CHR 0x0B, CHR 0x0C, CHR 0x0D, CHR 0x20]"

definition wide_spaces :: "string list" where
  "wide_spaces =
     [[CHR 0xC2, CHR 0x85], [CHR 0xC2, CHR 0xA0], [CHR 0xE1, CHR 0x9A, CHR 0x80],
      [CHR 0xE2, CHR 0x80, CHR 0x80], [CHR 0xE2, CHR 0x80, CHR 0x81],
      [CHR 0xE2, CHR 0x80, CHR 0x82], [CHR 0xE2, CHR 0x80, CHR 0x83],
      [CHR 0xE2, CHR 0x80, CHR 0x84], [CHR 0xE2, CHR 0x80, CHR 0x85],
      [CHR 0xE2, CHR 0x80, CHR 0x86], [CHR 0xE2, CHR 0x80, CHR 0x87],
      [CHR 0xE2, CHR 0x80, CHR 0x88], [CHR 0xE2, CHR 0x80, CHR 0x89],
      [CHR 0xE2, CHR 0x80, CHR 0x8A], [CHR 0xE2, CHR 0x80, CHR 0xA8],
      [CHR 0xE2, CHR 0x80, CHR 0xA9], [CHR 0xE2, CHR 0x80, CHR 0xAF],
      [CHR 0xE2, CHR 0x81, CHR 0x9F], [CHR 0xE3, CHR 0x80, CHR 0x80]]"

definition unicode_spaces :: "string list" where
  "unicode_spaces = map (\<lambda>c. [c]) ascii_spaces @ wide_spaces"

text \<open>The width of the white-space rune a string starts (ends) with, 0 for none.\<close>

definition space_width :: "string \<Rightarrow> nat" where
  "space_width s = (case find (HasPrefix s) unicode_spaces of None \<Rightarrow> 0 | Some e \<Rightarrow> length e)"

definition space_width_end :: "string \<Rightarrow> nat" where
  "space_width_end s = (case find (HasSuffix s) unicode_spaces of None \<Rightarrow> 0 | Some e \<Rightarrow> length e)"

function TrimLeftSpace :: "string \<Rightarrow> string" where
  "TrimLeftSpace s =
     (if s = [] \<or> space_width s = 0 then s else TrimLeftSpace (drop (space_width s) s))"
  by pat_completeness auto
termination
  by (relation "measure length") auto

function TrimRightSpace :: "string \<Rightarrow> string" where
  "TrimRightSpace s =
     (if s = [] \<or> space_width_end s = 0 then s
      else TrimRightSpace (take (length s - space_width_end s) s))"
  by pat_completeness auto
termination
  by (relation "measure length") auto

declare TrimLeftSpace.simps [simp del] TrimRightSpace.simps [simp del]

definition TrimSpace :: "string \<Rightarrow> string" where
  "TrimSpace s = TrimRightSpace (TrimLeftSpace s)"

text \<open>The bytes up to the next white space, and the rest.\<close>

fun take_field :: "string \<Rightarrow> string \<times> string" where
  "take_field [] = ([], [])"
| "take_field (c # s) =
     (if space_width (c # s) \<noteq> 0 then ([], c # s)
      else (let (w, r) = take_field s in (c # w, r)))"

lemma take_field_length: "length (snd (take_field s)) \<le> length s"
  by (induction s rule: take_field.induct) (auto split: prod.splits)

lemma TrimLeftSpace_length: "length (TrimLeftSpace s) \<le> length s"
  by (induction s rule: TrimLeftSpace.induct) (subst TrimLeftSpace.simps, auto)

function Fields :: "string \<Rightarrow> string list" where
  "Fields s =
     (case TrimLeftSpace s of
        [] \<Rightarrow> []
      | c # t \<Rightarrow> (c # fst (take_field t)) # Fields (snd (take_field t)))"
  by pat_completeness auto
termination
proof (relation "measure length")
  fix s t :: string and c :: char
  assume "TrimLeftSpace s = c # t"
  then have "Suc (length t) \<le> length s"
    using TrimLeftSpace_length [of s] by simp
  then show "(snd (take_field t), s) \<in> measure length"
    using take_field_length [of t] by simp
qed simp

declare Fields.simps [simp del]

text \<open>
  Texts without white space. Printable ASCII bytes above the blank are never the first or
  last byte of a white-space rune; every text the package prints consists of them.
\<close>

definition graphic :: "char \<Rightarrow> bool" where
  "graphic c \<longleftrightarrow> 0x21 \<le> (of_char c :: nat) \<and> (of_char c :: nat) \<le> 0x7E"

lemma unicode_spaces_nonempty: "e \<in> set unicode_spaces \<Longrightarrow> e \<noteq> []"
  by (auto simp: unicode_spaces_def wide_spaces_def)

lemma space_width_graphic:
  assumes "graphic c"
  shows "space_width (c # s) = 0"
proof -
  have "c \<notin> hd ` set unicode_spaces"
    using assms by (auto simp: graphic_def unicode_spaces_def ascii_spaces_def wide_spaces_def)
  then have "\<not> HasPrefix (c # s) e" if "e \<in> set unicode_spaces" for e
    using that unicode_spaces_nonempty [of e] by (cases e) (auto simp: rev_image_eqI)
  then have "find (HasPrefix (c # s)) unicode_spaces = None"
    by (auto simp: find_None_iff)
  then show ?thesis by (simp add: space_width_def)
qed

lemma space_width_end_graphic:
  assumes "graphic c"
  shows "space_width_end (s @ [c]) = 0"
proof -
  have "c \<notin> last ` set unicode_spaces"
    using assms by (auto simp: graphic_def unicode_spaces_def ascii_spaces_def wide_spaces_def)
  then have "\<not> HasSuffix (s @ [c]) e" if "e \<in> set unicode_spaces" for e
    using that unicode_spaces_nonempty [of e] by (cases e rule: rev_cases) (auto simp: HasSuffix_iff rev_image_eqI)
  then have "find (HasSuffix (s @ [c])) unicode_spaces = None"
    by (auto simp: find_None_iff)
  then show ?thesis by (simp add: space_width_end_def)
qed

lemma TrimLeftSpace_graphic: "graphic c \<Longrightarrow> TrimLeftSpace (c # s) = c # s"
  by (subst TrimLeftSpace.simps) (simp add: space_width_graphic)

lemma TrimRightSpace_graphic: "graphic c \<Longrightarrow> TrimRightSpace (s @ [c]) = s @ [c]"
  by (subst TrimRightSpace.simps) (simp add: space_width_end_graphic)

lemma TrimSpace_graphic:
  assumes "graphic (hd s)" "graphic (last s)"
  shows "TrimSpace s = s"
proof (cases s)
  case Nil
  then show ?thesis by (simp add: TrimSpace_def TrimLeftSpace.simps TrimRightSpace.simps)
next
  case (Cons c t)
  have "TrimLeftSpace s = s" using assms Cons by (simp add: TrimLeftSpace_graphic)
  moreover have "TrimRightSpace s = s"
    using assms Cons TrimRightSpace_graphic [of "last s" "butlast s"] by (metis append_butlast_last_id list.discI)
  ultimately show ?thesis by (simp add: TrimSpace_def)
qed

lemma TrimSpace_Nil [simp]: "TrimSpace [] = []"
  by (simp add: TrimSpace_def TrimLeftSpace.simps TrimRightSpace.simps)

lemma TrimSpace_clean: "list_all graphic s \<Longrightarrow> TrimSpace s = s"
  by (cases "s = []") (auto simp: TrimSpace_graphic list_all_iff)

text \<open>Splitting a line of clean words separated by single blanks.\<close>

lemma take_field_clean:
  assumes "list_all graphic w"
  shows "take_field w = (w, [])" "take_field (w @ CHR '' '' # s) = (w, CHR '' '' # s)"
proof -
  have "space_width (CHR '' '' # s) \<noteq> 0"
    by (simp add: space_width_def unicode_spaces_def ascii_spaces_def)
  with assms show "take_field w = (w, [])" "take_field (w @ CHR '' '' # s) = (w, CHR '' '' # s)"
    by (induction w) (simp_all add: space_width_graphic)
qed

lemma TrimLeftSpace_blank: "TrimLeftSpace (CHR '' '' # s) = TrimLeftSpace s"
  by (subst TrimLeftSpace.simps) (simp add: space_width_def unicode_spaces_def ascii_spaces_def)

lemma Fields_blank: "Fields (CHR '' '' # s) = Fields s"
  by (subst (1 2) Fields.simps) (simp add: TrimLeftSpace_blank)

lemma Fields_Nil [simp]: "Fields [] = []"
  by (subst Fields.simps) (simp add: TrimLeftSpace.simps)

lemma Fields_word:
  assumes "list_all graphic w" "w \<noteq> []"
  shows "Fields w = [w]" "Fields (w @ CHR '' '' # s) = w # Fields s"
proof -
  obtain c t where w: "w = c # t" "graphic c" "list_all graphic t"
    using assms by (cases w) auto
  show "Fields w = [w]"
    by (subst Fields.simps) (simp add: w TrimLeftSpace_graphic take_field_clean)
  show "Fields (w @ CHR '' '' # s) = w # Fields s"
    by (subst Fields.simps) (simp add: w TrimLeftSpace_graphic take_field_clean Fields_blank)
qed

lemma Fields_Join:
  "(\<forall>w \<in> set ws. list_all graphic w \<and> w \<noteq> []) \<Longrightarrow> Fields (Join ws '' '') = ws"
  by (induction ws "'' ''" rule: Join.induct) (simp_all add: Fields_word)

section \<open>Runes and letter case\<close>

text \<open>
  \<^verbatim>\<open>utf8.DecodeRune\<close>: the width of the valid encoding a non-empty string starts with, 0
  for an invalid one (which Go reads as U+FFFD and skips one byte for).
\<close>

definition byte_in :: "nat \<Rightarrow> nat \<Rightarrow> string \<Rightarrow> nat \<Rightarrow> bool" where
  "byte_in lo hi s i \<longleftrightarrow> i < length s \<and> lo \<le> of_char (s ! i) \<and> of_char (s ! i) \<le> hi"

definition rune_width :: "string \<Rightarrow> nat" where
  "rune_width s =
     (let b = byte_in 0x80 0xBF s in
      if byte_in 0x00 0x7F s 0 then 1
      else if byte_in 0xC2 0xDF s 0 \<and> b 1 then 2
      else if (byte_in 0xE0 0xE0 s 0 \<and> byte_in 0xA0 0xBF s 1 \<or> byte_in 0xE1 0xEC s 0 \<and> b 1 \<or>
               byte_in 0xED 0xED s 0 \<and> byte_in 0x80 0x9F s 1 \<or> byte_in 0xEE 0xEF s 0 \<and> b 1) \<and> b 2
      then 3
      else if (byte_in 0xF0 0xF0 s 0 \<and> byte_in 0x90 0xBF s 1 \<or> byte_in 0xF1 0xF3 s 0 \<and> b 1 \<or>
               byte_in 0xF4 0xF4 s 0 \<and> byte_in 0x80 0x8F s 1) \<and> b 2 \<and> b 3
      then 4
      else 0)"

definition RuneError :: string where
  "RuneError = [CHR 0xEF, CHR 0xBF, CHR 0xBD]"

text \<open>
  The runes of a string in order, each with the number of bytes it occupies and the bytes
  that \<^verbatim>\<open>WriteRune\<close> writes for it: what \<^verbatim>\<open>for i, r := range s\<close> and repeated
  \<^verbatim>\<open>ReadRune\<close> calls deliver.
\<close>

function runes :: "string \<Rightarrow> (nat \<times> string) list" where
  "runes s =
     (if s = [] then []
      else if rune_width s = 0 then (1, RuneError) # runes (drop 1 s)
      else (rune_width s, take (rune_width s) s) # runes (drop (rune_width s) s))"
  by pat_completeness auto
termination
  by (relation "measure length") auto

declare runes.simps [simp del]

definition ascii :: "char \<Rightarrow> bool" where
  "ascii c \<longleftrightarrow> (of_char c :: nat) < 0x80"

lemma graphic_ascii: "graphic c \<Longrightarrow> ascii c"
  by (simp add: graphic_def ascii_def)

lemma rune_width_ascii [simp]: "ascii c \<Longrightarrow> rune_width (c # s) = 1"
  by (simp add: rune_width_def byte_in_def ascii_def)

lemma runes_Nil [simp]: "runes [] = []"
  by (simp add: runes.simps)

lemma runes_ascii_Cons [simp]: "ascii c \<Longrightarrow> runes (c # s) = (1, [c]) # runes s"
  by (subst runes.simps) simp

lemma runes_ascii: "list_all ascii s \<Longrightarrow> runes s = map (\<lambda>c. (1, [c])) s"
  by (induction s) simp_all

lemma runes_ascii_append: "list_all ascii s \<Longrightarrow> runes (s @ t) = map (\<lambda>c. (1, [c])) s @ runes t"
  by (induction s) simp_all

text \<open>
  \<^verbatim>\<open>strings.ToLower\<close>, up to what a comparison with an ASCII text can see: besides the
  ASCII capitals, exactly two runes have an ASCII lower case, U+0130 (to \<open>i\<close>) and U+212A
  (to \<open>k\<close>); every other non-ASCII rune maps to a non-ASCII one and is left as it is.
\<close>

definition lower_byte :: "char \<Rightarrow> char" where
  "lower_byte c =
     (let n = (of_char c :: nat) in if 0x41 \<le> n \<and> n \<le> 0x5A then char_of (n + 0x20) else c)"

fun ToLower :: "string \<Rightarrow> string" where
  "ToLower [] = []"
| "ToLower (c # s) =
     (if HasPrefix (c # s) [CHR 0xC4, CHR 0xB0] then CHR ''i'' # ToLower (drop 1 s)
      else if HasPrefix (c # s) [CHR 0xE2, CHR 0x84, CHR 0xAA] then CHR ''k'' # ToLower (drop 2 s)
      else lower_byte c # ToLower s)"

text \<open>\<^verbatim>\<open>bytes.Trim(b, ",")\<close>.\<close>

definition TrimCommas :: "string \<Rightarrow> string" where
  [go_defs]: "TrimCommas s = rev (dropWhile ((=) CHR '','') (rev (dropWhile ((=) CHR '','') s)))"

end
