(* ===== verification/Go_Numbers.thy ===== *)
theory Go_Numbers
  imports Go_Strings
begin

text \<open>
  The functions of Go's \<^verbatim>\<open>strconv\<close> and the integer verbs of \<^verbatim>\<open>fmt\<close> that the repository
  calls (as of Go 1.10, on a 64-bit platform). Formatting yields the digits; parsing is the
  loop of \<^verbatim>\<open>strconv.ParseUint\<close>, which reports a syntax or a range error at the first byte
  that causes one. The lemmas are the round trips and the alphabet of printed numbers.
\<close>

section \<open>Formatting\<close>

definition digit_char :: "nat \<Rightarrow> char" where
  "digit_char d = ''0123456789abcdefghijklmnopqrstuvwxyz'' ! d"

text \<open>\<^verbatim>\<open>strconv.FormatUint(n, b)\<close>, and the verbs \<^verbatim>\<open>%d\<close> and \<^verbatim>\<open>%x\<close> of unsigned operands.\<close>

function FormatUint :: "nat \<Rightarrow> nat \<Rightarrow> string" where
  "FormatUint n b =
     (if b < 2 \<or> n < b then [digit_char n] else FormatUint (n div b) b @ [digit_char (n mod b)])"
  by pat_completeness auto
termination
  by (relation "measure fst") auto

declare FormatUint.simps [simp del]

text \<open>\<^verbatim>\<open>strconv.Itoa\<close>, \<^verbatim>\<open>strconv.AppendInt(_, i, 10)\<close> and the verb \<^verbatim>\<open>%d\<close>.\<close>

definition Itoa :: "int \<Rightarrow> string" where
  "Itoa i = (if i < 0 then CHR ''-'' # FormatUint (nat (- i)) 10 else FormatUint (nat i) 10)"

definition zero_pad :: "nat \<Rightarrow> string \<Rightarrow> string" where
  "zero_pad w s = replicate (w - length s) CHR ''0'' @ s"

text \<open>
  The verbs \<^verbatim>\<open>%d\<close>, \<^verbatim>\<open>0x%04x\<close> (and other widths), \<^verbatim>\<open>%#x\<close> and \<^verbatim>\<open>%#016x\<close> on unsigned
  machine integers. In the last, Go pads the digits to the width and then adds the prefix.
\<close>

definition fmt_d :: "'a::len word \<Rightarrow> string" where
  "fmt_d w = FormatUint (unat w) 10"

definition fmt_0x :: "nat \<Rightarrow> 'a::len word \<Rightarrow> string" where
  "fmt_0x n w = ''0x'' @ zero_pad n (FormatUint (unat w) 16)"

section \<open>Parsing\<close>

definition digit_val :: "char \<Rightarrow> nat option" where
  "digit_val c =
     (let n = (of_char c :: nat) in
      if 48 \<le> n \<and> n \<le> 57 then Some (n - 48)
      else if 97 \<le> n \<and> n \<le> 122 then Some (n - 97 + 10)
      else if 65 \<le> n \<and> n \<le> 90 then Some (n - 65 + 10)
      else None)"

fun parse_digits :: "nat \<Rightarrow> nat \<Rightarrow> nat \<Rightarrow> string \<Rightarrow> nat result" where
  "parse_digits b m n [] = Ok n"
| "parse_digits b m n (c # s) =
     (case digit_val c of
        None \<Rightarrow> Err ErrSyntax
      | Some d \<Rightarrow>
          if b \<le> d then Err ErrSyntax
          else if m < n * b + d then Err ErrRange
          else parse_digits b m (n * b + d) s)"

definition ParseUint :: "string \<Rightarrow> nat \<Rightarrow> nat \<Rightarrow> nat result" where
  "ParseUint s base bits =
     (let m = 2 ^ (if bits = 0 then 64 else bits) - 1 in
      if s = [] then Err ErrSyntax
      else if base \<noteq> 0 then parse_digits base m 0 s
      else if HasPrefix s ''0x'' \<or> HasPrefix s ''0X'' then
        (if length s < 3 then Err ErrSyntax else parse_digits 16 m 0 (drop 2 s))
      else if hd s = CHR ''0'' then parse_digits 8 m 0 (tl s)
      else parse_digits 10 m 0 s)"

definition ParseInt :: "string \<Rightarrow> nat \<Rightarrow> nat \<Rightarrow> int result" where
  "ParseInt s base bits =
     (let k = (if bits = 0 then 64 else bits); cutoff = 2 ^ (k - 1);
          neg = (s \<noteq> [] \<and> hd s = CHR ''-'');
          body = (if s \<noteq> [] \<and> (hd s = CHR ''+'' \<or> hd s = CHR ''-'') then tl s else s)
      in if s = [] then Err ErrSyntax
         else and_then (ParseUint body base k)
           (\<lambda>un. if \<not> neg \<and> cutoff \<le> un then Err ErrRange
                 else if neg \<and> cutoff < un then Err ErrRange
                 else Ok (if neg then - int un else int un)))"

text \<open>\<^verbatim>\<open>strconv.Atoi\<close>.\<close>

definition Atoi :: "string \<Rightarrow> int result" where
  "Atoi s = ParseInt s 10 0"

section \<open>The alphabet of numbers\<close>

definition dec_digits :: string where "dec_digits = ''0123456789''"

definition hex_digits :: string where "hex_digits = ''0123456789abcdef''"

lemma less_16_cases:
  "(d::nat) < 16 \<Longrightarrow> d \<in> {0,1,2,3,4,5,6,7,8,9,10,11,12,13,14,15}"
  by (simp only: insert_iff empty_iff) presburger

lemma less_10_cases: "(d::nat) < 10 \<Longrightarrow> d \<in> {0,1,2,3,4,5,6,7,8,9}"
  by (simp only: insert_iff empty_iff) presburger

lemma digit_val_digit_char [simp]: "d < 16 \<Longrightarrow> digit_val (digit_char d) = Some d"
  by (drule less_16_cases) (auto simp: digit_val_def digit_char_def)

lemma digit_char_hex: "d < 16 \<Longrightarrow> digit_char d \<in> set hex_digits"
  by (drule less_16_cases) (auto simp: digit_char_def hex_digits_def)

lemma digit_char_dec: "d < 10 \<Longrightarrow> digit_char d \<in> set dec_digits"
  by (drule less_10_cases) (auto simp: digit_char_def dec_digits_def)

lemma dec_digits_subset_hex: "set dec_digits \<subseteq> set hex_digits"
  by (auto simp: dec_digits_def hex_digits_def)

lemma FormatUint_nonempty [simp]: "FormatUint n b \<noteq> []"
  by (subst FormatUint.simps) simp

lemma FormatUint_hex: "set (FormatUint n 16) \<subseteq> set hex_digits"
proof (induction n "16 :: nat" rule: FormatUint.induct)
  case (1 n)
  then show ?case
    by (subst FormatUint.simps) (auto intro: digit_char_hex)
qed

lemma FormatUint_dec: "set (FormatUint n 10) \<subseteq> set dec_digits"
proof (induction n "10 :: nat" rule: FormatUint.induct)
  case (1 n)
  then show ?case
    by (subst FormatUint.simps) (auto intro: digit_char_dec)
qed

lemma zero_pad_nonempty [simp]: "s \<noteq> [] \<Longrightarrow> zero_pad w s \<noteq> []"
  by (simp add: zero_pad_def)

lemma set_zero_pad: "set (zero_pad w s) \<subseteq> insert (CHR ''0'') (set s)"
  by (auto simp: zero_pad_def)

lemma Itoa_nonempty [simp]: "Itoa i \<noteq> []"
  by (simp add: Itoa_def)

lemma set_Itoa: "set (Itoa i) \<subseteq> insert (CHR ''-'') (set dec_digits)"
  using FormatUint_dec by (auto simp: Itoa_def)

lemma set_Itoa_nonneg: "0 \<le> i \<Longrightarrow> set (Itoa i) \<subseteq> set dec_digits"
  using FormatUint_dec by (auto simp: Itoa_def)

lemma fmt_d_nonempty [simp]: "fmt_d w \<noteq> []"
  by (simp add: fmt_d_def)

lemma set_fmt_d: "set (fmt_d w) \<subseteq> set dec_digits"
  by (simp add: fmt_d_def FormatUint_dec)

lemma fmt_0x_nonempty [simp]: "fmt_0x n w \<noteq> []"
  by (simp add: fmt_0x_def)

lemma set_fmt_0x: "set (fmt_0x n w) \<subseteq> insert (CHR ''x'') (set hex_digits)"
proof -
  have "CHR ''0'' \<in> set hex_digits" by (simp add: hex_digits_def)
  then show ?thesis
    using set_zero_pad [of n] FormatUint_hex by (fastforce simp: fmt_0x_def)
qed

text \<open>
  Bytes that no printed number contains: the separators of the flow syntax. The letters
  \<open>dec_safe\<close> and \<open>hex_safe\<close> serve as the one place where the alphabets are compared.
\<close>

definition number_chars :: string where "number_chars = ''-x'' @ hex_digits"

lemma number_chars_graphic: "c \<in> set number_chars \<Longrightarrow> graphic c"
  by (auto simp: number_chars_def hex_digits_def graphic_def)

lemma number_chars_safe:
  "CHR '','' \<notin> set number_chars" "CHR ''='' \<notin> set number_chars" "CHR ''/'' \<notin> set number_chars"
  "CHR '':'' \<notin> set number_chars" "CHR ''.'' \<notin> set number_chars" "CHR '' '' \<notin> set number_chars"
  "CHR ''('' \<notin> set number_chars" "CHR '')'' \<notin> set number_chars"
  by (simp_all add: number_chars_def hex_digits_def)

lemma number_texts [clean_text]:
  "set (FormatUint n 10) \<subseteq> set number_chars" "set (FormatUint n 16) \<subseteq> set number_chars"
  "set (Itoa i) \<subseteq> set number_chars" "set (fmt_d w) \<subseteq> set number_chars"
  "set (fmt_0x k w) \<subseteq> set number_chars"
  using FormatUint_dec [of n] FormatUint_hex [of n] set_Itoa [of i] set_fmt_d [of w]
    set_fmt_0x [of k w] dec_digits_subset_hex
  by (auto simp: number_chars_def)

section \<open>Round trips\<close>

lemma parse_digits_append:
  "parse_digits b m n (s @ t) = and_then (parse_digits b m n s) (\<lambda>k. parse_digits b m k t)"
  by (induction s arbitrary: n) (auto split: option.split)

lemma parse_digits_FormatUint:
  assumes "2 \<le> b" "b \<le> 16" "n \<le> m"
  shows "parse_digits b m 0 (FormatUint n b) = Ok n"
  using assms
proof (induction n b rule: FormatUint.induct)
  case (1 n b)
  show ?case
  proof (cases "n < b")
    case True
    then show ?thesis using 1 by (subst FormatUint.simps) simp
  next
    case False
    have "n div b \<le> m" using 1 by (meson div_le_dividend le_trans)
    then have "parse_digits b m 0 (FormatUint (n div b) b) = Ok (n div b)"
      using 1 False by simp
    moreover have "digit_val (digit_char (n mod b)) = Some (n mod b)"
      using 1 by (intro digit_val_digit_char) (rule less_le_trans [of _ b], simp_all)
    moreover have "\<not> b \<le> n mod b" using 1 by (simp add: not_le)
    ultimately show ?thesis
      using 1 False by (subst FormatUint.simps) (simp add: parse_digits_append)
  qed
qed

lemma parse_digits_zeros:
  "0 < b \<Longrightarrow> parse_digits b m 0 (replicate k CHR ''0'' @ s) = parse_digits b m 0 s"
  by (induction k) (simp_all add: digit_val_def)

lemma parse_digits_zero_pad:
  "0 < b \<Longrightarrow> parse_digits b m 0 (zero_pad k s) = parse_digits b m 0 s"
  by (simp add: zero_pad_def parse_digits_zeros)

lemma le_pow2_minus_1: "n \<le> 2 ^ k - 1 \<longleftrightarrow> n < (2::nat) ^ k"
  using zero_less_power [of "2 :: nat" k] by linarith

lemma ParseUint_FormatUint [codec_simps]:
  assumes "2 \<le> b" "b \<le> 16" "0 < bits" "n < 2 ^ bits"
  shows "ParseUint (FormatUint n b) b bits = Ok n"
  using assms le_pow2_minus_1 [of n bits]
  by (simp add: ParseUint_def parse_digits_FormatUint)

lemma ParseUint_zero_pad [codec_simps]:
  assumes "2 \<le> b" "b \<le> 16" "0 < bits" "n < 2 ^ bits"
  shows "ParseUint (zero_pad k (FormatUint n b)) b bits = Ok n"
  using assms le_pow2_minus_1 [of n bits]
  by (simp add: ParseUint_def parse_digits_zero_pad parse_digits_FormatUint)

lemma ParseUint_0x [codec_simps]:
  assumes "0 < bits" "n < 2 ^ bits"
  shows "ParseUint (''0x'' @ zero_pad k (FormatUint n 16)) 0 bits = Ok n"
proof -
  have "\<not> length (''0x'' @ zero_pad k (FormatUint n 16)) < 3"
    using FormatUint_nonempty [of n 16] by (cases "FormatUint n 16") (auto simp: zero_pad_def)
  then show ?thesis
    using assms le_pow2_minus_1 [of n bits]
    by (simp add: ParseUint_def parse_digits_zero_pad parse_digits_FormatUint)
qed

definition int64 :: "int \<Rightarrow> bool" where
  "int64 i \<longleftrightarrow> - (2 ^ 63) \<le> i \<and> i < 2 ^ 63"

lemma FormatUint_dec_hd: "hd (FormatUint n 10) \<noteq> CHR ''+''" "hd (FormatUint n 10) \<noteq> CHR ''-''"
proof -
  have "hd (FormatUint n 10) \<in> set dec_digits"
    using FormatUint_dec [of n] hd_in_set [OF FormatUint_nonempty, of n 10] by blast
  then show "hd (FormatUint n 10) \<noteq> CHR ''+''" "hd (FormatUint n 10) \<noteq> CHR ''-''"
    by (auto simp: dec_digits_def)
qed

lemma ParseInt_Itoa [codec_simps]:
  assumes "int64 i"
  shows "ParseInt (Itoa i) 10 0 = Ok i"
proof (cases "i < 0")
  case True
  have "nat (- i) \<le> 2 ^ 63" using assms True by (auto simp: int64_def)
  then have "ParseUint (FormatUint (nat (- i)) 10) 10 64 = Ok (nat (- i))"
    by (intro ParseUint_FormatUint) auto
  then show ?thesis
    using True \<open>nat (- i) \<le> 2 ^ 63\<close> by (simp add: ParseInt_def Itoa_def)
next
  case False
  have "nat i < 2 ^ 63" using assms False by (auto simp: int64_def)
  then have "ParseUint (FormatUint (nat i) 10) 10 64 = Ok (nat i)"
    by (intro ParseUint_FormatUint) auto
  then show ?thesis
    using False \<open>nat i < 2 ^ 63\<close> FormatUint_dec_hd by (simp add: ParseInt_def Itoa_def)
qed

lemma ParseInt_range: "ParseInt s base 0 = Ok i \<Longrightarrow> int64 i"
  by (auto simp: ParseInt_def int64_def Let_def split: if_splits)

lemma parse_digits_bound: "n \<le> m \<Longrightarrow> parse_digits b m n s = Ok k \<Longrightarrow> k \<le> m"
  by (induction s arbitrary: n) (auto split: option.splits if_splits simp: not_less)

lemma ParseUint_bound: "0 < bits \<Longrightarrow> ParseUint s base bits = Ok n \<Longrightarrow> n < 2 ^ bits"
  using le_pow2_minus_1 [of n bits]
  by (auto simp: ParseUint_def Let_def dest!: parse_digits_bound [rotated] split: if_splits)

lemma parse_digits_no_panic: "parse_digits b m n s \<noteq> Panic"
  by (induction s arbitrary: n) (auto split: option.split)

lemma ParseUint_no_panic [simp]: "ParseUint s base bits \<noteq> Panic"
  by (auto simp: ParseUint_def Let_def parse_digits_no_panic)

lemma ParseInt_no_panic [simp]: "ParseInt s base bits \<noteq> Panic"
  by (auto simp: ParseInt_def Let_def and_then_eq_Panic)

lemma Atoi_no_panic [simp]: "Atoi s \<noteq> Panic"
  by (simp add: Atoi_def)

text \<open>Decimal integers and fixed-width hexadecimal words are text codecs.\<close>

interpretation int_codec: separated_codec Itoa "\<lambda>s. ParseInt s 10 0" int64 "CHR '',''"
  using number_texts(3) number_chars_safe(1)
  by unfold_locales (auto simp: codec_simps)

end
