(* ===== verification/Go_Net.thy ===== *)
theory Go_Net
  imports Go_Numbers
begin

text \<open>
  The address functions of Go's \<^verbatim>\<open>net\<close> package that the repository calls (as of Go 1.10):
  \<open>ParseMAC\<close>, \<open>ParseIP\<close>, \<open>ParseCIDR\<close>, \<open>IP.To4\<close> and the \<open>String\<close> methods of hardware and IP
  addresses. The lemmas show that parsing undoes printing for hardware addresses of every
  length \<open>ParseMAC\<close> accepts and for all IPv4 and IPv6 addresses.
\<close>

type_synonym byte = "8 word"

section \<open>Hardware addresses\<close>

definition hex_val :: "char \<Rightarrow> nat option" where
  "hex_val c = (case digit_val c of Some d \<Rightarrow> if d < 16 then Some d else None | None \<Rightarrow> None)"

text \<open>\<^verbatim>\<open>xtoi2\<close>: exactly two hexadecimal digits.\<close>

definition hex_pair :: "char \<Rightarrow> char \<Rightarrow> byte option" where
  "hex_pair a b =
     (case (hex_val a, hex_val b) of
        (Some x, Some y) \<Rightarrow> Some (of_nat (16 * x + y))
      | _ \<Rightarrow> None)"

text \<open>The loop over \<^verbatim>\<open>xx:xx:...\<close>, and the loop over \<^verbatim>\<open>xxxx.xxxx....\<close>\<close>

fun mac_pairs :: "char \<Rightarrow> string \<Rightarrow> byte list option" where
  "mac_pairs sep [a, b] = map_option (\<lambda>x. [x]) (hex_pair a b)"
| "mac_pairs sep (a # b # c # s) =
     (if c \<noteq> sep then None
      else (case (hex_pair a b, mac_pairs sep s) of (Some x, Some xs) \<Rightarrow> Some (x # xs) | _ \<Rightarrow> None))"
| "mac_pairs sep _ = None"

fun mac_quads :: "string \<Rightarrow> byte list option" where
  "mac_quads [a, b, c, d] =
     (case (hex_pair a b, hex_pair c d) of (Some x, Some y) \<Rightarrow> Some [x, y] | _ \<Rightarrow> None)"
| "mac_quads (a # b # c # d # e # s) =
     (if e \<noteq> CHR ''.'' then None
      else (case (hex_pair a b, hex_pair c d, mac_quads s) of
              (Some x, Some y, Some xs) \<Rightarrow> Some (x # y # xs)
            | _ \<Rightarrow> None))"
| "mac_quads _ = None"

definition mac_sizes :: "nat list" where "mac_sizes = [6, 8, 20]"

definition ParseMAC :: "string \<Rightarrow> byte list result" where
  "ParseMAC s =
     (let n = length s + 1 in
      if length s < 14 then Err ErrMAC
      else if s ! 2 = CHR '':'' \<or> s ! 2 = CHR ''-'' then
        (if n mod 3 \<noteq> 0 \<or> n div 3 \<notin> set mac_sizes then Err ErrMAC
         else (case mac_pairs (s ! 2) s of None \<Rightarrow> Err ErrMAC | Some hw \<Rightarrow> Ok hw))
      else if s ! 4 = CHR ''.'' then
        (if n mod 5 \<noteq> 0 \<or> 2 * n div 5 \<notin> set mac_sizes then Err ErrMAC
         else (case mac_quads s of None \<Rightarrow> Err ErrMAC | Some hw \<Rightarrow> Ok hw))
      else Err ErrMAC)"

text \<open>\<^verbatim>\<open>HardwareAddr.String\<close>.\<close>

definition hex_byte :: "byte \<Rightarrow> string" where
  "hex_byte b = [digit_char (unat b div 16), digit_char (unat b mod 16)]"

definition HardwareAddrString :: "byte list \<Rightarrow> string" where
  "HardwareAddrString a = Join (map hex_byte a) '':''"

section \<open>IP addresses\<close>

text \<open>
  \<^verbatim>\<open>dtoi\<close> and \<^verbatim>\<open>xtoi\<close>: the longest run of digits, its value and the rest; failure on no digit
  or a value of \<^verbatim>\<open>0xFFFFFF\<close> or more.
\<close>

fun scan_digits :: "nat \<Rightarrow> nat \<Rightarrow> string \<Rightarrow> (nat \<times> string) option" where
  "scan_digits b n [] = Some (n, [])"
| "scan_digits b n (c # s) =
     (case digit_val c of
        None \<Rightarrow> Some (n, c # s)
      | Some d \<Rightarrow>
          if b \<le> d then Some (n, c # s)
          else if 0xFFFFFF \<le> n * b + d then None
          else scan_digits b (n * b + d) s)"

definition is_digit :: "nat \<Rightarrow> char \<Rightarrow> bool" where
  "is_digit b c \<longleftrightarrow> (case digit_val c of None \<Rightarrow> False | Some d \<Rightarrow> d < b)"

definition scan_number :: "nat \<Rightarrow> string \<Rightarrow> (nat \<times> string) option" where
  "scan_number b s =
     (if s = [] \<or> \<not> is_digit b (hd s) then None else scan_digits b 0 s)"

fun ipv4_loop :: "nat \<Rightarrow> bool \<Rightarrow> string \<Rightarrow> (byte list \<times> string) option" where
  "ipv4_loop 0 first s = Some ([], s)"
| "ipv4_loop (Suc k) first s =
     (if s = [] \<or> (\<not> first \<and> hd s \<noteq> CHR ''.'') then None
      else (case scan_number 10 (if first then s else tl s) of
              None \<Rightarrow> None
            | Some (n, r) \<Rightarrow>
                if 255 < n then None
                else map_option (\<lambda>(bs, t). (of_nat n # bs, t)) (ipv4_loop k False r)))"

definition v4InV6Prefix :: "byte list" where
  "v4InV6Prefix = replicate 10 0 @ [0xFF, 0xFF]"

definition parseIPv4 :: "string \<Rightarrow> byte list option" where
  "parseIPv4 s =
     (case ipv4_loop 4 True s of
        Some (bs, []) \<Rightarrow> Some (v4InV6Prefix @ bs)
      | _ \<Rightarrow> None)"

definition word_bytes :: "nat \<Rightarrow> byte list" where
  "word_bytes n = [of_nat (n div 256), of_nat n]"

fun ipv6_loop ::
  "nat \<Rightarrow> string \<Rightarrow> byte list \<Rightarrow> nat option \<Rightarrow> (string \<times> byte list \<times> nat option) option" where
  "ipv6_loop 0 s ip ellipsis = Some (s, ip, ellipsis)"
| "ipv6_loop (Suc k) s ip ellipsis =
     (case scan_number 16 s of
        None \<Rightarrow> None
      | Some (n, r) \<Rightarrow>
          if 0xFFFF < n then None
          else if r \<noteq> [] \<and> hd r = CHR ''.'' then
            (if ellipsis = None \<and> length ip \<noteq> 12 then None
             else if 16 < length ip + 4 then None
             else (case parseIPv4 s of
                     None \<Rightarrow> None
                   | Some ip4 \<Rightarrow> Some ([], ip @ drop 12 ip4, ellipsis)))
          else
            (let ip' = ip @ word_bytes n in
             if r = [] then Some ([], ip', ellipsis)
             else if hd r \<noteq> CHR '':'' \<or> length r = 1 then None
             else if hd (tl r) = CHR '':'' then
               (if ellipsis \<noteq> None then None
                else if tl (tl r) = [] then Some ([], ip', Some (length ip'))
                else ipv6_loop k (tl (tl r)) ip' (Some (length ip')))
             else ipv6_loop k (tl r) ip' ellipsis))"

definition parseIPv6 :: "string \<Rightarrow> byte list option" where
  "parseIPv6 s =
     (let lead = HasPrefix s ''::''; t = (if lead then drop 2 s else s) in
      if lead \<and> t = [] then Some (replicate 16 0)
      else (case ipv6_loop 8 t [] (if lead then Some 0 else None) of
              None \<Rightarrow> None
            | Some (r, ip, ellipsis) \<Rightarrow>
                if r \<noteq> [] then None
                else if length ip < 16 then
                  (case ellipsis of
                     None \<Rightarrow> None
                   | Some e \<Rightarrow> Some (take e ip @ replicate (16 - length ip) 0 @ drop e ip))
                else if ellipsis \<noteq> None then None
                else Some ip))"

definition ParseIP :: "string \<Rightarrow> byte list option" where
  "ParseIP s =
     (case find (\<lambda>c. c = CHR ''.'' \<or> c = CHR '':'') s of
        None \<Rightarrow> None
      | Some c \<Rightarrow> if c = CHR ''.'' then parseIPv4 s else parseIPv6 s)"

text \<open>\<^verbatim>\<open>ParseCIDR\<close>; the callers ignore the network it also returns.\<close>

definition ParseCIDR :: "string \<Rightarrow> byte list option" where
  "ParseCIDR s =
     (case Index s ''/'' of
        None \<Rightarrow> None
      | Some i \<Rightarrow>
          let addr = take i s; msk = drop (i + 1) s; v4 = parseIPv4 addr;
              ip = (if v4 = None then parseIPv6 addr else v4);
              iplen = (if v4 = None then 16 else 4 :: nat)
          in (case (ip, scan_number 10 msk) of
                (Some a, Some (n, [])) \<Rightarrow> if n \<le> 8 * iplen then Some a else None
              | _ \<Rightarrow> None))"

text \<open>\<^verbatim>\<open>IP.To4\<close>: \<open>None\<close> is the nil slice.\<close>

definition To4 :: "byte list \<Rightarrow> byte list option" where
  "To4 ip =
     (if length ip = 4 then Some ip
      else if length ip = 16 \<and> take 12 ip = v4InV6Prefix then Some (drop 12 ip)
      else None)"

text \<open>\<^verbatim>\<open>IP.To16\<close>.\<close>

definition To16 :: "byte list \<Rightarrow> byte list option" where
  "To16 ip =
     (if length ip = 4 then Some (v4InV6Prefix @ ip)
      else if length ip = 16 then Some ip
      else None)"

text \<open>
  \<^verbatim>\<open>IP.String\<close>: dotted decimal for what \<^verbatim>\<open>To4\<close> accepts; for 16 bytes, hexadecimal groups with
  the first longest run of at least two zero groups written \<^verbatim>\<open>::\<close>; otherwise the bytes in
  hexadecimal behind a question mark.
\<close>

fun byte_groups :: "byte list \<Rightarrow> nat list" where
  "byte_groups (a # b # s) = (unat a * 256 + unat b) # byte_groups s"
| "byte_groups _ = []"

definition zero_run :: "nat list \<Rightarrow> nat \<Rightarrow> nat" where
  "zero_run gs i = length (takeWhile ((=) 0) (drop i gs))"

definition longest_zero_run :: "nat list \<Rightarrow> nat \<times> nat" where
  "longest_zero_run gs =
     fold (\<lambda>i (e, n). if n < zero_run gs i then (i, zero_run gs i) else (e, n)) [0..<length gs] (0, 0)"

definition hex_groups :: "nat list \<Rightarrow> string" where
  "hex_groups gs = Join (map (\<lambda>g. FormatUint g 16) gs) '':''"

definition ipv6_string :: "nat list \<Rightarrow> string" where
  "ipv6_string gs =
     (let (e, n) = longest_zero_run gs in
      if n \<le> 1 then hex_groups gs
      else hex_groups (take e gs) @ ''::'' @ hex_groups (drop (e + n) gs))"

definition ipv4_string :: "byte list \<Rightarrow> string" where
  "ipv4_string bs = Join (map fmt_d bs) ''.''"

definition IPString :: "byte list \<Rightarrow> string" where
  "IPString ip =
     (if ip = [] then ''<nil>''
      else (case To4 ip of
              Some ip4 \<Rightarrow> ipv4_string ip4
            | None \<Rightarrow>
                if length ip \<noteq> 16 then ''?'' @ concat (map hex_byte ip)
                else ipv6_string (byte_groups ip)))"

section \<open>Hardware address round trip\<close>

lemma unat8_less: "unat (b :: byte) < 256"
  using unsigned_less [of b] by simp

lemma hex_val_digit_char: "d < 16 \<Longrightarrow> hex_val (digit_char d) = Some d"
  by (simp add: hex_val_def)

lemma hex_pair_hex_byte:
  "hex_pair (digit_char (unat b div 16)) (digit_char (unat b mod 16)) = Some b"
  using unat8_less [of b]
  by (simp add: hex_pair_def hex_val_digit_char less_mult_imp_div_less)

lemma length_hex_byte [simp]: "length (hex_byte b) = 2"
  by (simp add: hex_byte_def)

lemma length_HardwareAddrString: "a \<noteq> [] \<Longrightarrow> length (HardwareAddrString a) + 1 = 3 * length a"
  unfolding HardwareAddrString_def
proof (induction a)
  case (Cons b a)
  then show ?case by (cases "a = []") (auto simp: Join_append1)
qed simp

lemma mac_pairs_String: "a \<noteq> [] \<Longrightarrow> mac_pairs CHR '':'' (HardwareAddrString a) = Some a"
  unfolding HardwareAddrString_def
proof (induction a)
  case (Cons b a)
  show ?case
  proof (cases "a = []")
    case True
    then show ?thesis by (simp add: hex_byte_def hex_pair_hex_byte)
  next
    case False
    then show ?thesis using Cons by (simp add: Join_append1 hex_byte_def hex_pair_hex_byte)
  qed
qed simp

lemma ParseMAC_String [codec_simps]:
  assumes "length a \<in> set mac_sizes"
  shows "ParseMAC (HardwareAddrString a) = Ok a"
proof -
  have len: "length a \<ge> 6" using assms by (auto simp: mac_sizes_def)
  then have ne: "a \<noteq> []" by auto
  obtain x y t where a: "a = x # y # t" using len by (cases a; cases "tl a") auto
  have "HardwareAddrString a ! 2 = CHR '':''"
    by (simp add: a HardwareAddrString_def Join_append1 hex_byte_def)
  then show ?thesis
    using length_HardwareAddrString [OF ne] mac_pairs_String [OF ne] len assms
    by (simp add: ParseMAC_def)
qed

lemma hex_digits_safe: "CHR '':'' \<notin> set hex_digits" "CHR ''.'' \<notin> set hex_digits"
  by (simp_all add: hex_digits_def)

lemma set_hex_byte: "set (hex_byte b) \<subseteq> set hex_digits"
  using unat8_less [of b] by (auto simp: hex_byte_def intro!: digit_char_hex)

lemma set_HardwareAddrString: "set (HardwareAddrString a) \<subseteq> insert (CHR '':'') (set hex_digits)"
  unfolding HardwareAddrString_def using set_hex_byte by (intro set_Join_subset) fastforce+

lemma ParseMAC_no_panic [simp]: "ParseMAC s \<noteq> Panic"
  by (auto simp: ParseMAC_def Let_def split: option.split)

interpretation mac_codec: separated_codec HardwareAddrString ParseMAC
  "\<lambda>a. length a \<in> set mac_sizes" "CHR '',''"
proof
  show "CHR '','' \<notin> set (HardwareAddrString a)" for a
    using set_HardwareAddrString [of a] by (auto simp: hex_digits_def)
qed (rule ParseMAC_String)

section \<open>IP address round trips\<close>

lemma scan_digits_parse:
  assumes "parse_digits b 0xFFFFFE n s = Ok m" "r = [] \<or> \<not> is_digit b (hd r)"
  shows "scan_digits b n (s @ r) = Some (m, r)"
  using assms
proof (induction s arbitrary: n)
  case Nil
  then show ?case by (cases r) (auto simp: is_digit_def split: option.splits)
next
  case (Cons c s)
  then show ?case by (auto split: option.splits if_splits)
qed

lemma scan_number_FormatUint:
  assumes "2 \<le> b" "b \<le> 16" "n < 0xFFFFFF" "r = [] \<or> \<not> is_digit b (hd r)"
  shows "scan_number b (FormatUint n b @ r) = Some (n, r)"
proof -
  have p: "parse_digits b 0xFFFFFE 0 (FormatUint n b) = Ok n"
    using assms by (intro parse_digits_FormatUint) auto
  obtain c t where c: "FormatUint n b = c # t" using FormatUint_nonempty [of n b] by (cases "FormatUint n b") auto
  then have "is_digit b c" using p by (auto simp: is_digit_def split: option.splits if_splits)
  then show ?thesis
    using scan_digits_parse [OF p assms(4)] c by (simp add: scan_number_def)
qed

lemma scan_number_fmt_d:
  "r = [] \<or> hd r = CHR ''.'' \<Longrightarrow> scan_number 10 (fmt_d (x :: byte) @ r) = Some (unat x, r)"
  unfolding fmt_d_def using unat8_less [of x]
  by (intro scan_number_FormatUint) (auto simp: is_digit_def digit_val_def)

lemma scan_number_fmt_d_end: "scan_number 10 (fmt_d (x :: byte)) = Some (unat x, [])"
  using scan_number_fmt_d [of "[]" x] by simp

lemma length_4_cases:
  assumes "length bs = 4"
  obtains a b c d where "bs = [a, b, c, d]"
  using assms by (auto simp: numeral_eq_Suc length_Suc_conv)

lemma parseIPv4_string [codec_simps]:
  assumes "length bs = 4"
  shows "parseIPv4 (ipv4_string bs) = Some (v4InV6Prefix @ bs)"
proof -
  obtain a b c d where bs: "bs = [a, b, c, d]" using assms by (rule length_4_cases)
  have "\<not> 255 < unat x" for x :: byte using unat8_less [of x] by simp
  then have "ipv4_loop (Suc (Suc (Suc (Suc 0)))) True (ipv4_string bs) = Some (bs, [])"
    by (simp add: bs ipv4_string_def scan_number_fmt_d scan_number_fmt_d_end)
  moreover have "4 = Suc (Suc (Suc (Suc 0)))" by simp
  ultimately show ?thesis by (simp only: parseIPv4_def) simp
qed

lemma find_append_None: "find P xs = None \<Longrightarrow> find P (xs @ ys) = find P ys"
  by (induction xs) (auto split: if_splits)

lemma find_digits: "set xs \<subseteq> set hex_digits \<Longrightarrow> find (\<lambda>c. c = CHR ''.'' \<or> c = CHR '':'') xs = None"
  using hex_digits_safe by (auto simp: find_None_iff)

lemma hex_alphabet: "set (FormatUint g 16) \<subseteq> set hex_digits" "set (fmt_d w) \<subseteq> set hex_digits"
  using FormatUint_hex set_fmt_d dec_digits_subset_hex by blast+

lemma ParseIP_ipv4_string [codec_simps]:
  assumes "length bs = 4"
  shows "ParseIP (ipv4_string bs) = Some (v4InV6Prefix @ bs)"
proof -
  obtain a b c d where bs: "bs = [a, b, c, d]" using assms by (rule length_4_cases)
  then have "ipv4_string bs = fmt_d a @ CHR ''.'' # ipv4_string [b, c, d]"
    by (simp add: ipv4_string_def)
  then have "find (\<lambda>c. c = CHR ''.'' \<or> c = CHR '':'') (ipv4_string bs) = Some CHR ''.''"
    by (simp add: find_append_None find_digits hex_alphabet)
  then show ?thesis by (simp add: ParseIP_def parseIPv4_string assms)
qed

subsection \<open>IPv6\<close>

definition group_bytes :: "nat list \<Rightarrow> byte list" where
  "group_bytes gs = concat (map word_bytes gs)"

lemma group_bytes_simps [simp]:
  "group_bytes [] = []" "group_bytes (g # gs) = word_bytes g @ group_bytes gs"
  "group_bytes (as @ bs) = group_bytes as @ group_bytes bs"
  by (simp_all add: group_bytes_def)

lemma length_group_bytes [simp]: "length (group_bytes gs) = 2 * length gs"
  by (induction gs) (simp_all add: word_bytes_def)

lemma group_bytes_zeros: "group_bytes (replicate n 0) = replicate (2 * n) 0"
  by (induction n) (simp_all add: word_bytes_def)

lemma group_bytes_byte_groups: "even (length ip) \<Longrightarrow> group_bytes (byte_groups ip) = ip"
proof (induction ip rule: byte_groups.induct)
  case (1 a b s)
  have "(256 :: byte) = 0" by simp
  then have "word_bytes (unat a * 256 + unat b) = [a, b]"
    using unat8_less [of b] by (simp add: word_bytes_def del: word_eq_numeral_iff_iszero)
  with 1 show ?case by simp
qed auto

lemma byte_groups_bound: "g \<in> set (byte_groups ip) \<Longrightarrow> g < 65536"
proof (induction ip rule: byte_groups.induct)
  case (1 a b s)
  then show ?case using unat8_less [of a] unat8_less [of b] by auto
qed auto

lemma length_byte_groups: "length (byte_groups ip) = length ip div 2"
  by (induction ip rule: byte_groups.induct) auto

lemma scan_number_group:
  "g < 65536 \<Longrightarrow> r = [] \<or> hd r = CHR '':'' \<Longrightarrow> scan_number 16 (FormatUint g 16 @ r) = Some (g, r)"
  by (intro scan_number_FormatUint) (auto simp: is_digit_def digit_val_def)

lemma scan_number_group_end: "g < 65536 \<Longrightarrow> scan_number 16 (FormatUint g 16) = Some (g, [])"
  using scan_number_group [of g "[]"] by simp

lemma hd_FormatUint_hex: "hd (FormatUint g 16 @ r) \<noteq> CHR '':''"
proof -
  have "hd (FormatUint g 16 @ r) \<in> set hex_digits"
    using hex_alphabet(1) [of g] hd_in_set [of "FormatUint g 16"] by auto
  then show ?thesis using hex_digits_safe by auto
qed

lemma hex_groups_Cons:
  "hex_groups (g # gs) = FormatUint g 16 @ (if gs = [] then [] else CHR '':'' # hex_groups gs)"
  by (cases gs) (simp_all add: hex_groups_def)

lemma hex_groups_nonempty: "gs \<noteq> [] \<Longrightarrow> hex_groups gs \<noteq> []"
  by (cases gs) (simp_all add: hex_groups_Cons)

lemma hd_hex_groups: "gs \<noteq> [] \<Longrightarrow> hd (hex_groups gs @ r) \<noteq> CHR '':''"
  by (cases gs) (simp_all add: hex_groups_Cons hd_FormatUint_hex del: hd_append2)

lemma ipv6_loop_groups:
  assumes "gs \<noteq> []" "length gs \<le> k" "\<forall>g \<in> set gs. g < 65536"
  shows "ipv6_loop k (hex_groups gs) ip el = Some ([], ip @ group_bytes gs, el)"
  using assms
proof (induction gs arbitrary: k ip)
  case (Cons g gs)
  then obtain k' where k: "k = Suc k'" by (cases k) auto
  show ?case
  proof (cases "gs = []")
    case True
    then show ?thesis using Cons.prems by (simp add: k hex_groups_Cons scan_number_group_end)
  next
    case False
    then show ?thesis
      using Cons hd_hex_groups [OF False, of "[]"] hex_groups_nonempty [OF False]
      by (simp add: k hex_groups_Cons scan_number_group Let_def)
  qed
qed simp

lemma ipv6_loop_ellipsis:
  assumes "as \<noteq> []" "length as + length bs \<le> k" "\<forall>g \<in> set as \<union> set bs. g < 65536"
  shows "ipv6_loop k (hex_groups as @ ''::'' @ hex_groups bs) ip None =
    Some ([], ip @ group_bytes (as @ bs), Some (length ip + 2 * length as))"
  using assms
proof (induction as arbitrary: k ip)
  case (Cons g as)
  then obtain k' where k: "k = Suc k'" by (cases k) auto
  show ?case
  proof (cases "as = []")
    case True
    then show ?thesis
      using Cons.prems ipv6_loop_groups [of bs k'] hex_groups_nonempty [of bs] hd_hex_groups [of bs "[]"]
      by (cases "bs = []") (auto simp: k hex_groups_Cons scan_number_group Let_def hex_groups_def word_bytes_def)
  next
    case False
    have ne: "hex_groups as @ x \<noteq> []" for x using hex_groups_nonempty [OF False] by simp
    show ?thesis
      using Cons hd_hex_groups [OF False] False ne
      by (simp add: k hex_groups_Cons scan_number_group Let_def word_bytes_def)
  qed
qed simp

definition zero_block :: "nat list \<Rightarrow> nat \<times> nat \<Rightarrow> bool" where
  "zero_block gs p \<longleftrightarrow> gs = take (fst p) gs @ replicate (snd p) 0 @ drop (fst p + snd p) gs"

lemma zero_block_run: "zero_block gs (i, zero_run gs i)"
proof -
  have "takeWhile ((=) 0) (drop i gs) = replicate (zero_run gs i) 0"
    unfolding zero_run_def by (rule replicate_length_same [symmetric]) (auto dest: set_takeWhileD)
  moreover have "drop i gs = takeWhile ((=) 0) (drop i gs) @ drop (zero_run gs i) (drop i gs)"
    by (simp add: zero_run_def dropWhile_eq_drop [symmetric] del: drop_drop)
  ultimately show ?thesis
    by (metis append_take_drop_id add.commute drop_drop fst_conv snd_conv zero_block_def)
qed

lemma zero_block_fold:
  "zero_block gs p \<Longrightarrow>
   zero_block gs (fold (\<lambda>i (e, n). if n < zero_run gs i then (i, zero_run gs i) else (e, n)) is p)"
  by (induction "is" arbitrary: p) (auto simp: zero_block_run split: prod.splits)

lemma zero_block_longest: "zero_block gs (longest_zero_run gs)"
  unfolding longest_zero_run_def by (rule zero_block_fold) (simp add: zero_block_def)

lemma HasPrefix_colons_hex: "gs \<noteq> [] \<Longrightarrow> \<not> HasPrefix (hex_groups gs @ r) ''::''"
  using hd_hex_groups [of gs r] hex_groups_nonempty [of gs]
  by (cases "hex_groups gs @ r") (auto simp: HasPrefix_def)

lemma parseIPv6_groups:
  assumes "length gs = 8" "\<forall>g \<in> set gs. g < 65536"
  shows "parseIPv6 (hex_groups gs) = Some (group_bytes gs)"
proof -
  have "gs \<noteq> []" using assms(1) by auto
  then have np: "\<not> HasPrefix (hex_groups gs) ''::''" using HasPrefix_colons_hex [of gs "[]"] by simp
  have "ipv6_loop 8 (hex_groups gs) [] None = Some ([], group_bytes gs, None)"
    using ipv6_loop_groups [of gs 8] assms \<open>gs \<noteq> []\<close> by simp
  then show ?thesis using np assms(1) by (simp add: parseIPv6_def)
qed

lemma parseIPv6_ellipsis:
  assumes "gs = as @ replicate n 0 @ bs" "length gs = 8" "1 < n" "\<forall>g \<in> set gs. g < 65536"
  shows "parseIPv6 (hex_groups as @ ''::'' @ hex_groups bs) = Some (group_bytes gs)"
proof -
  have len: "length as + n + length bs = 8" and k: "length as + length bs \<le> 8"
    using assms(1,2) by auto
  have b: "\<forall>g \<in> set as \<union> set bs. g < 65536" using assms(1,4) by auto
  have pad: "16 - (2 * length as + 2 * length bs) = 2 * n" "2 * length as + 2 * length bs < 16"
    using len assms(3) by auto
  have fill: "group_bytes gs = group_bytes as @ replicate (2 * n) 0 @ group_bytes bs"
    using assms(1) by (simp add: group_bytes_zeros)
  show ?thesis
  proof (cases "as = []")
    case True
    show ?thesis
    proof (cases "bs = []")
      case True
      then show ?thesis using \<open>as = []\<close> len fill
        by (simp add: parseIPv6_def HasPrefix_def hex_groups_def numeral_eq_Suc)
    next
      case False
      have "ipv6_loop 8 (hex_groups bs) [] (Some 0) = Some ([], group_bytes bs, Some 0)"
        using ipv6_loop_groups [OF False, of 8] b k by simp
      then show ?thesis using \<open>as = []\<close> False pad fill hex_groups_nonempty [OF False]
        by (simp add: parseIPv6_def HasPrefix_def hex_groups_def [of "[]"])
    qed
  next
    case False
    have "ipv6_loop 8 (hex_groups as @ ''::'' @ hex_groups bs) [] None =
        Some ([], group_bytes (as @ bs), Some (2 * length as))"
      using ipv6_loop_ellipsis [OF False k b, of "[]"] by simp
    then show ?thesis using HasPrefix_colons_hex [OF False, of "''::'' @ hex_groups bs"] pad fill
      by (simp add: parseIPv6_def)
  qed
qed

lemma parseIPv6_string:
  assumes "length gs = 8" "\<forall>g \<in> set gs. g < 65536"
  shows "parseIPv6 (ipv6_string gs) = Some (group_bytes gs)"
proof -
  obtain e n where en: "longest_zero_run gs = (e, n)" by fastforce
  then have "gs = take e gs @ replicate n 0 @ drop (e + n) gs"
    using zero_block_longest [of gs] by (simp add: zero_block_def)
  from parseIPv6_ellipsis [OF this assms(1) _ assms(2)]
  have "1 < n \<Longrightarrow> parseIPv6 (hex_groups (take e gs) @ ''::'' @ hex_groups (drop (e + n) gs)) =
      Some (group_bytes gs)" .
  then show ?thesis using parseIPv6_groups [OF assms] by (auto simp: ipv6_string_def en)
qed

lemma find_the_only:
  assumes "y \<in> set xs" "P y" "\<And>x. x \<in> set xs \<Longrightarrow> P x \<Longrightarrow> x = y"
  shows "find P xs = Some y"
proof (cases "find P xs")
  case None
  then show ?thesis using assms(1,2) by (simp add: find_None_iff)
next
  case (Some z)
  then have "z \<in> set xs \<and> P z" by (auto simp: find_Some_iff)
  then show ?thesis using Some assms(3) by blast
qed

lemma set_hex_groups: "set (hex_groups gs) \<subseteq> insert (CHR '':'') (set hex_digits)"
  unfolding hex_groups_def using hex_alphabet(1) by (intro set_Join_subset) fastforce+

lemma set_ipv6_string: "set (ipv6_string gs) \<subseteq> insert (CHR '':'') (set hex_digits)"
  using set_hex_groups by (auto simp: ipv6_string_def split: prod.splits)

lemma ipv6_string_colon:
  assumes "length gs = 8"
  shows "CHR '':'' \<in> set (ipv6_string gs)"
proof -
  obtain g h t where "gs = g # h # t" using assms by (auto simp: numeral_eq_Suc length_Suc_conv)
  then have "CHR '':'' \<in> set (hex_groups gs)" by (simp add: hex_groups_Cons)
  then show ?thesis by (cases "longest_zero_run gs") (simp add: ipv6_string_def)
qed

text \<open>Parsing the text of a 16-byte address gives the address back.\<close>

lemma ParseIP_IPString [codec_simps]:
  assumes "length ip = 16"
  shows "ParseIP (IPString ip) = Some ip"
proof (cases "take 12 ip = v4InV6Prefix")
  case True
  then have "To4 ip = Some (drop 12 ip)" "v4InV6Prefix @ drop 12 ip = ip" "ip \<noteq> []"
    using assms append_take_drop_id [of 12 ip] by (auto simp: To4_def)
  then show ?thesis
    using ParseIP_ipv4_string [of "drop 12 ip"] assms by (simp add: IPString_def)
next
  case False
  let ?s = "ipv6_string (byte_groups ip)"
  have len: "length (byte_groups ip) = 8" using assms by (simp add: length_byte_groups)
  have "To4 ip = None" "ip \<noteq> []" using assms False by (auto simp: To4_def)
  then have s: "IPString ip = ?s" using assms by (simp add: IPString_def)
  have "find (\<lambda>c. c = CHR ''.'' \<or> c = CHR '':'') ?s = Some CHR '':''"
    using ipv6_string_colon [OF len] set_ipv6_string [of "byte_groups ip"] hex_digits_safe
    by (intro find_the_only) auto
  then show ?thesis
    using parseIPv6_string [OF len] assms byte_groups_bound [of _ ip]
    by (simp add: s ParseIP_def group_bytes_byte_groups)
qed

section \<open>What the address parsers accept\<close>

text \<open>The bytes of a key or of a value in the flow syntax: visible, and not a separator.\<close>

definition plain :: "char \<Rightarrow> bool" where
  "plain c \<longleftrightarrow> graphic c \<and> c \<noteq> CHR '','' \<and> c \<noteq> CHR ''=''"

definition addr_char :: "char \<Rightarrow> bool" where
  "addr_char c \<longleftrightarrow> is_digit 16 c \<or> c \<in> {CHR ''.'', CHR '':'', CHR ''/''}"

lemma addr_char_seps [simp]: "addr_char CHR ''.''" "addr_char CHR '':''" "addr_char CHR ''/''"
  by (simp_all add: addr_char_def)

lemma plain_graphic: "list_all plain s \<Longrightarrow> list_all graphic s"
  by (auto simp: list_all_iff plain_def)

lemma plain_notin: "list_all plain s \<Longrightarrow> CHR '','' \<notin> set s" "list_all plain s \<Longrightarrow> CHR ''='' \<notin> set s"
  by (auto simp: list_all_iff plain_def)

lemma addr_char_plain: "addr_char c \<Longrightarrow> plain c"
  by (auto simp: addr_char_def is_digit_def digit_val_def plain_def graphic_def Let_def split: if_splits)

lemma number_chars_plain: "c \<in> set number_chars \<Longrightarrow> plain c"
  using number_chars_graphic number_chars_safe by (auto simp: plain_def)

lemma number_plain [clean_text]:
  "list_all plain (Itoa i)" "list_all plain (fmt_d w)" "list_all plain (fmt_0x k w)"
  using number_texts number_chars_plain by (fastforce simp: list_all_iff)+

lemma mac_plain [clean_text]: "list_all plain (HardwareAddrString a)"
proof -
  have "plain c" if "c \<in> insert (CHR '':'') (set hex_digits)" for c
    using that by (auto simp: hex_digits_def plain_def graphic_def)
  then show ?thesis using set_HardwareAddrString [of a] by (auto simp: list_all_iff)
qed

lemma is_digit_10: "is_digit 10 c \<Longrightarrow> addr_char c"
  by (auto simp: addr_char_def is_digit_def split: option.splits)

lemma scan_digits_chars:
  "scan_digits b n s = Some (m, r) \<Longrightarrow> \<exists>d. s = d @ r \<and> list_all (is_digit b) d"
proof (induction s arbitrary: n)
  case (Cons c s)
  show ?case
  proof (cases "is_digit b c")
    case True
    then obtain n' where "scan_digits b n' s = Some (m, r)"
      using Cons.prems by (auto simp: is_digit_def split: option.splits if_splits)
    with Cons.IH obtain d where "s = d @ r" "list_all (is_digit b) d" by blast
    then have "c # s = (c # d) @ r \<and> list_all (is_digit b) (c # d)" using True by simp
    then show ?thesis by blast
  next
    case False
    then show ?thesis using Cons.prems by (auto simp: is_digit_def split: option.splits if_splits)
  qed
qed simp

lemma scan_number_chars:
  assumes "b = 10 \<or> b = 16" "scan_number b s = Some (m, r)"
  obtains d where "s = d @ r" "list_all addr_char d" "d \<noteq> []"
proof -
  from assms(2) have sd: "scan_digits b 0 s = Some (m, r)" "s \<noteq> []" "is_digit b (hd s)"
    by (auto simp: scan_number_def split: if_splits)
  then obtain d where d: "s = d @ r" "list_all (is_digit b) d" using scan_digits_chars by blast
  moreover have "list_all addr_char d"
    using d(2) assms(1) is_digit_10 by (auto simp: list_all_iff addr_char_def)
  moreover have "d \<noteq> []"
  proof
    assume "d = []"
    with d sd obtain c t where r: "r = c # t" "s = c # t" by (cases s) auto
    with sd have "\<exists>n. scan_digits b n t = Some (m, c # t)"
      by (auto simp: is_digit_def split: option.splits if_splits)
    then show False using scan_digits_chars by fastforce
  qed
  ultimately show thesis using that by blast
qed

lemma ipv4_loop_chars:
  "ipv4_loop k first s = Some (bs, r) \<Longrightarrow> (\<exists>d. s = d @ r \<and> list_all addr_char d) \<and> length bs = k"
proof (induction k arbitrary: first s bs)
  case (Suc k)
  let ?s = "if first then s else tl s"
  from Suc.prems obtain n r' bs' where n: "scan_number 10 ?s = Some (n, r')"
    and l: "ipv4_loop k False r' = Some (bs', r)" and bs: "bs = of_nat n # bs'"
    and h: "s \<noteq> []" "first \<or> hd s = CHR ''.''"
    by (auto split: if_splits option.splits)
  obtain d where d: "?s = d @ r'" "list_all addr_char d" using scan_number_chars [OF _ n] by blast
  obtain e where e: "r' = e @ r" "list_all addr_char e" using Suc.IH [OF l] by blast
  show ?case
  proof (cases first)
    case True
    then have "s = (d @ e) @ r \<and> list_all addr_char (d @ e)" using d e by simp
    then show ?thesis using Suc.IH [OF l] bs by auto
  next
    case False
    then have "s = (CHR ''.'' # d @ e) @ r \<and> list_all addr_char (CHR ''.'' # d @ e)"
      using d e h by (cases s) simp_all
    then show ?thesis using Suc.IH [OF l] bs by auto
  qed
qed simp

lemma parseIPv4_accepts:
  assumes "parseIPv4 s = Some ip"
  shows "list_all addr_char s" "length ip = 16"
proof -
  obtain bs where "ipv4_loop 4 True s = Some (bs, [])" "ip = v4InV6Prefix @ bs"
    using assms by (auto simp: parseIPv4_def split: option.splits list.splits)
  with ipv4_loop_chars show "list_all addr_char s" "length ip = 16"
    by (fastforce simp: v4InV6Prefix_def)+
qed

lemma ipv6_loop_chars:
  "ipv6_loop k s ip el = Some (r, ip', el') \<Longrightarrow> length ip + 2 * k \<le> 16 \<Longrightarrow>
   (\<exists>d. s = d @ r \<and> list_all addr_char d) \<and> length ip' \<le> 16"
proof (induction k arbitrary: s ip el)
  case (Suc k)
  from Suc.prems(1) obtain n t where n: "scan_number 16 s = Some (n, t)" "n \<le> 0xFFFF"
    by (auto split: option.splits if_splits)
  obtain d where d: "s = d @ t" "list_all addr_char d" using scan_number_chars [OF _ n(1)] by blast
  consider (v4) "t \<noteq> []" "hd t = CHR ''.''" | (last) "t = []"
    | (more) c u where "t = CHR '':'' # c # u" | (bad) "t \<noteq> []" "hd t \<noteq> CHR ''.''" "hd t \<noteq> CHR '':'' \<or> length t = 1"
    by (cases t; cases "tl t") auto
  then show ?case
  proof cases
    case v4
    then obtain ip4 where "parseIPv4 s = Some ip4" "r = []" "ip' = ip @ drop 12 ip4" "length ip + 4 \<le> 16"
      using Suc.prems(1) n by (auto split: option.splits if_splits)
    then show ?thesis using parseIPv4_accepts [of s ip4] by auto
  next
    case last
    then show ?thesis using Suc.prems n d by (auto simp: word_bytes_def)
  next
    case more
    show ?thesis
    proof (cases "c = CHR '':''")
      case True
      show ?thesis
      proof (cases "u = []")
        case True
        then show ?thesis using \<open>c = _\<close> Suc.prems n d more by (auto simp: word_bytes_def Let_def split: if_splits)
      next
        case False
        then have l: "ipv6_loop k u (ip @ word_bytes n) (Some (length (ip @ word_bytes n))) = Some (r, ip', el')"
          using True Suc.prems(1) n more by (auto simp: Let_def split: if_splits)
        then obtain e where "u = e @ r" "list_all addr_char e" and len: "length ip' \<le> 16"
          using Suc.IH [OF l] Suc.prems(2) by (auto simp: word_bytes_def)
        then have "s = (d @ ''::'' @ e) @ r \<and> list_all addr_char (d @ ''::'' @ e)"
          using d more True by simp
        then show ?thesis using len by blast
      qed
    next
      case False
      then have l: "ipv6_loop k (c # u) (ip @ word_bytes n) el = Some (r, ip', el')"
        using Suc.prems(1) n more by (auto simp: Let_def split: if_splits)
      then obtain e where "c # u = e @ r" "list_all addr_char e" and len: "length ip' \<le> 16"
        using Suc.IH [OF l] Suc.prems(2) by (auto simp: word_bytes_def)
      then have "s = (d @ '':'' @ e) @ r \<and> list_all addr_char (d @ '':'' @ e)"
        using d more by simp
      then show ?thesis using len by blast
    qed
  next
    case bad
    then show ?thesis using Suc.prems(1) n by (auto simp: Let_def split: if_splits)
  qed
qed simp

lemma parseIPv6_accepts:
  assumes "parseIPv6 s = Some ip"
  shows "list_all addr_char s \<and> length ip = 16"
proof -
  define t where "t = (if HasPrefix s ''::'' then drop 2 s else s)"
  have st: "list_all addr_char t \<Longrightarrow> list_all addr_char s"
    by (auto simp: t_def HasPrefix_iff addr_char_def split: if_splits)
  show ?thesis
  proof (cases "HasPrefix s ''::'' \<and> t = []")
    case True
    then show ?thesis using assms st by (auto simp: parseIPv6_def t_def)
  next
    case False
    then obtain ip' el where l: "ipv6_loop 8 t [] (if HasPrefix s ''::'' then Some 0 else None) = Some ([], ip', el)"
      and ip: "(length ip' < 16 \<longrightarrow> (\<exists>e. ip = take e ip' @ replicate (16 - length ip') 0 @ drop e ip')) \<and>
        (\<not> length ip' < 16 \<longrightarrow> ip = ip')"
      using assms unfolding parseIPv6_def Let_def t_def [symmetric]
      by (fastforce split: option.splits if_splits prod.splits)
    from ipv6_loop_chars [OF l] have "list_all addr_char t" "length ip' \<le> 16" by auto
    then show ?thesis using ip st by (cases "length ip' < 16") auto
  qed
qed

lemma ParseIP_length: "ParseIP s = Some ip \<Longrightarrow> length ip = 16"
  using parseIPv4_accepts(2) parseIPv6_accepts by (auto simp: ParseIP_def split: option.splits if_splits)

lemma ParseCIDR_accepts: "ParseCIDR s = Some ip \<Longrightarrow> list_all addr_char s \<and> length ip = 16 \<and> CHR ''/'' \<in> set s"
proof -
  assume "ParseCIDR s = Some ip"
  then obtain i n where i: "Index s ''/'' = Some i"
    and n: "scan_number 10 (drop (i + 1) s) = Some (n, [])"
    and ip: "parseIPv4 (take i s) = Some ip \<or> parseIPv6 (take i s) = Some ip"
    by (auto simp: ParseCIDR_def Let_def split: option.splits if_splits prod.splits list.splits)
  have s: "s = take i s @ ''/'' @ drop (i + 1) s" using Index_SomeD [OF i] by simp
  have "list_all addr_char (drop (i + 1) s)" using scan_number_chars [OF _ n] by auto
  moreover have "list_all addr_char (take i s)" "length ip = 16"
    using ip parseIPv4_accepts parseIPv6_accepts by auto
  moreover have "list_all addr_char (take i s @ ''/'' @ drop (i + 1) s)" using calculation by simp
  moreover have "CHR ''/'' \<in> set (take i s @ ''/'' @ drop (i + 1) s)" by simp
  ultimately show ?thesis using s by metis
qed

lemma addr_plain: "list_all addr_char s \<Longrightarrow> list_all plain s"
  using addr_char_plain by (auto simp: list_all_iff)

lemma IPString_addr:
  assumes "length ip = 16"
  shows "list_all addr_char (IPString ip)" "CHR ''/'' \<notin> set (IPString ip)"
proof -
  have h: "addr_char c \<and> c \<noteq> CHR ''/''" if "c \<in> insert (CHR '':'') (insert (CHR ''.'') (set hex_digits))" for c
    using that by (auto simp: addr_char_def hex_digits_def is_digit_def digit_val_def)
  have "set (ipv4_string bs) \<subseteq> insert (CHR ''.'') (set hex_digits)" for bs
    unfolding ipv4_string_def using hex_alphabet(2) by (intro set_Join_subset) fastforce+
  then have "set (IPString ip) \<subseteq> insert (CHR '':'') (insert (CHR ''.'') (set hex_digits))"
    using assms set_ipv6_string [of "byte_groups ip"]
    by (cases "To4 ip") (auto simp: IPString_def subset_insertI2)
  then show "list_all addr_char (IPString ip)" "CHR ''/'' \<notin> set (IPString ip)"
    using h by (auto simp: list_all_iff)
qed

lemma ParseCIDR_no_slash: "CHR ''/'' \<notin> set s \<Longrightarrow> ParseCIDR s = None"
  by (simp add: ParseCIDR_def)

end
