(* ===== verification/Port_Range.thy ===== *)
theory Port_Range
  imports Prelude
begin

text \<open>
  \<^verbatim>\<open>ovs/portrange.go\<close>: an inclusive range of 16-bit transport ports is covered by value/mask
  pairs. The model keeps the machine arithmetic of the code: ports are 16-bit words, the
  bit length is a 64-bit \<^verbatim>\<open>uint\<close>. The theorems show that the pairs match exactly the ports of
  the range, each port once, that no step of the recursion fails or wraps around, and how
  many pairs there can be.
\<close>

unbundle bit_operations_syntax

section \<open>The code\<close>

record PortRange =
  Start :: "16 word"
  End :: "16 word"

record BitRange =
  Value :: "16 word"
  Mask :: "16 word"

lemma PortRange_eta [simp]: "\<lparr>Start = Start r, End = End r\<rparr> = (r :: PortRange)"
  by (cases r) simp

lemma BitRange_eta [simp]: "\<lparr>Value = Value r, Mask = Mask r\<rparr> = (r :: BitRange)"
  by (cases r) simp

text \<open>
  \<^verbatim>\<open>uint(math.Floor(math.Log2(float64(window))))\<close>. A 16-bit integer is exact in a
  \<^verbatim>\<open>float64\<close>, \<^verbatim>\<open>math.Log2\<close> is exact on powers of two, and the logarithm of any other
  16-bit integer is farther from the next integer than the rounding error, so the floor is
  the integer logarithm.
\<close>

fun log2_floor :: "nat \<Rightarrow> nat" where
  "log2_floor n = (if n \<le> 1 then 0 else Suc (log2_floor (n div 2)))"

declare log2_floor.simps [simp del]

definition getMask :: "64 word \<Rightarrow> 16 word" where
  "getMask bitLength = 0xFFFF XOR (push_bit (unat bitLength) 1 - 1)"

definition getRange :: "16 word \<Rightarrow> 64 word \<Rightarrow> 16 word \<times> 16 word" where
  "getRange hi bitLength =
     (let rangeLength = push_bit (unat bitLength) 1 - 1;
          rangeStart = hi AND NOT rangeLength;
          rangeEnd = rangeStart + rangeLength
      in (rangeStart, rangeEnd))"

text \<open>The loop that decrements the bit length until the block ends inside the range.\<close>

lemma getRange_zero: "getRange e 0 = (e, e)"
  by (simp add: getRange_def)

function shrink :: "16 word \<Rightarrow> 64 word \<Rightarrow> 64 word \<times> 16 word \<times> 16 word" where
  "shrink hi bitLength =
     (let (rangeStart, rangeEnd) = getRange hi bitLength in
      if hi < rangeEnd then shrink hi (bitLength - 1) else (bitLength, rangeStart, rangeEnd))"
  by pat_completeness auto
termination
proof (relation "measure (\<lambda>(e, bl). unat bl)")
  fix e :: "16 word" and bl :: "64 word" and p rs re
  assume "p = getRange e bl" "(rs, re) = p" "e < re"
  then have "bl \<noteq> 0" using getRange_zero [of e] by auto
  then show "((e, bl - 1), e, bl) \<in> measure (\<lambda>(e, bl). unat bl)"
    by (simp add: measure_unat)
qed simp

declare shrink.simps [simp del]

subsection \<open>Arithmetic of one block\<close>

lemma and_not_mask_diff: "(e :: 'a::len word) AND NOT (mask k) = e - take_bit k e"
proof -
  have "e - take_bit k e = e AND NOT (take_bit k e)"
    by (rule disjunctive_diff) (simp add: bit_take_bit_iff)
  also have "\<dots> = e AND NOT (mask k)"
    by (rule bit_eqI) (auto simp: bit_simps)
  finally show ?thesis by simp
qed

lemma unat_and_not_mask: "unat ((e :: 'a::len word) AND NOT (mask k)) = unat e - unat e mod 2 ^ k"
proof -
  have "unat (take_bit k e) = unat e mod 2 ^ k"
    by (subst unsigned_take_bit_eq) (simp add: take_bit_eq_mod)
  moreover have "take_bit k e \<le> e"
    using calculation by (simp add: word_le_nat_alt)
  ultimately show ?thesis
    by (simp add: and_not_mask_diff unat_sub)
qed

lemma push_bit_one_minus: "push_bit k 1 - 1 = (mask k :: 'a::len word)"
  by (simp add: mask_eq_exp_minus_1 push_bit_eq_mult)

lemma unat_mask16: "k \<le> 16 \<Longrightarrow> unat (mask k :: 16 word) = 2 ^ k - 1"
proof -
  assume k: "k \<le> 16"
  have "uint (mask k :: 16 word) = int (2 ^ k - 1)"
    using k by (subst uint_mask_eq) (simp add: min_def mask_eq_exp_minus_1 of_nat_diff)
  then have "int (unat (mask k :: 16 word)) = int (2 ^ k - 1)"
    by (simp only: uint_nat)
  then show ?thesis by (simp only: of_nat_eq_iff)
qed

lemma unat16_less: "unat (e :: 16 word) < 65536"
  using unsigned_less [of e] by simp

lemma block_end_bound:
  fixes e :: nat
  assumes "e < 65536" "k \<le> 15"
  shows "e - e mod 2 ^ k + (2 ^ k - 1) < 65536"
proof -
  have pow: "(65536 :: nat) = 2 ^ k * 2 ^ (16 - k)"
    using assms by (simp flip: power_add)
  have "e div 2 ^ k < 2 ^ (16 - k)"
    using assms pow by (simp add: less_mult_imp_div_less mult.commute)
  then have "(e div 2 ^ k + 1) * 2 ^ k \<le> 2 ^ (16 - k) * 2 ^ k"
    by (intro mult_le_mono1) simp
  moreover have "e - e mod 2 ^ k = e div 2 ^ k * 2 ^ k"
    by (simp add: minus_mod_eq_div_mult)
  moreover have "(2 :: nat) ^ k \<ge> 1" by simp
  ultimately show ?thesis using pow by (simp add: mult.commute add_mult_distrib)
qed

lemma getRange_unat:
  assumes "unat bl \<le> 15" "getRange e bl = (rs, re)"
  shows "unat rs = unat e - unat e mod 2 ^ unat bl"
    and "unat re = unat e - unat e mod 2 ^ unat bl + (2 ^ unat bl - 1)"
proof -
  have rs: "rs = e AND NOT (mask (unat bl))" and re: "re = rs + mask (unat bl)"
    using assms(2) by (auto simp only: getRange_def Let_def push_bit_one_minus prod.inject)
  show u: "unat rs = unat e - unat e mod 2 ^ unat bl"
    unfolding rs by (rule unat_and_not_mask)
  have "unat e < 65536" by (rule unat16_less)
  then have "unat rs + unat (mask (unat bl) :: 16 word) < 2 ^ LENGTH(16)"
    using assms(1) block_end_bound [of "unat e" "unat bl"] by (simp add: u unat_mask16)
  then have "unat re = unat rs + unat (mask (unat bl) :: 16 word)"
    unfolding re by (subst unat_add_lem [symmetric]) simp
  then show "unat re = unat e - unat e mod 2 ^ unat bl + (2 ^ unat bl - 1)"
    using assms(1) by (simp add: u unat_mask16)
qed

text \<open>The block never ends before the end of the range, and ends there iff the block is aligned.\<close>

lemma aligned_iff: "(0::nat) < b \<Longrightarrow> e - e mod b + (b - 1) \<le> e \<longleftrightarrow> b dvd e + 1"
proof -
  assume b: "0 < b"
  have "e mod b \<le> b - 1" using b mod_less_divisor [of b e] by linarith
  then have "e - e mod b + (b - 1) \<le> e \<longleftrightarrow> e mod b = b - 1"
    using mod_le_divisor [OF b, of e] mod_less_eq_dividend [of e b] by linarith
  also have "\<dots> \<longleftrightarrow> b dvd e + 1"
    using b by (auto simp: dvd_eq_mod_eq_0 mod_Suc)
  finally show ?thesis .
qed

lemma shrink_spec:
  assumes "unat bl \<le> 15" "shrink e bl = (bl', rs, re)"
  shows "unat bl' \<le> unat bl \<and> re = e \<and> unat rs + 2 ^ unat bl' = unat e + 1 \<and>
     2 ^ unat bl' dvd unat e + 1 \<and>
     (\<forall>j. unat bl' < j \<and> j \<le> unat bl \<longrightarrow> \<not> 2 ^ j dvd unat e + 1)"
  using assms
proof (induction e bl rule: shrink.induct)
  case (1 e bl)
  obtain s f where r: "getRange e bl = (s, f)" by fastforce
  note u = getRange_unat [OF "1.prems"(1) r]
  have al: "\<not> e < f \<longleftrightarrow> 2 ^ unat bl dvd unat e + 1"
    using aligned_iff [of "2 ^ unat bl" "unat e"] by (simp add: not_less word_le_nat_alt u)
  show ?case
  proof (cases "e < f")
    case True
    then have nz: "bl \<noteq> 0" using r by (auto simp: getRange_zero)
    then have dec: "unat (bl - 1) = unat bl - 1" "0 < unat bl"
      by (simp_all add: unat_minus_one unat_gt_0)
    have "shrink e (bl - 1) = (bl', rs, re)"
      using "1.prems"(2) True r by (subst (asm) shrink.simps) simp
    with "1.IH" [OF r [symmetric] refl True] "1.prems"(1) dec
    have ih: "unat bl' \<le> unat bl - 1" "re = e" "unat rs + 2 ^ unat bl' = unat e + 1"
        "2 ^ unat bl' dvd unat e + 1"
        "\<And>j. unat bl' < j \<and> j \<le> unat bl - 1 \<Longrightarrow> \<not> 2 ^ j dvd unat e + 1"
      by simp_all
    have "\<not> 2 ^ j dvd unat e + 1" if "unat bl' < j" "j \<le> unat bl" for j
    proof (cases "j = unat bl")
      case False
      with that dec(2) have "unat bl' < j \<and> j \<le> unat bl - 1" by linarith
      then show ?thesis by (rule ih(5))
    qed (use al True in simp)
    moreover have "unat bl' \<le> unat bl" using ih(1) dec(2) by linarith
    ultimately show ?thesis using ih(2-4) by blast
  next
    case False
    then have "bl' = bl" "rs = s" "re = f"
      using "1.prems"(2) r by (simp_all add: shrink.simps)
    moreover have "unat e mod 2 ^ unat bl = 2 ^ unat bl - 1"
      using al False by (simp add: mod_Suc dvd_eq_mod_eq_0 split: if_splits)
    moreover have "unat e mod 2 ^ unat bl \<le> unat e" by simp
    ultimately have "unat rs + 2 ^ unat bl' = unat e + 1" "unat re = unat e"
      using u by (auto simp: Suc_diff_le)
    then show ?thesis
      using al False \<open>bl' = bl\<close> \<open>re = f\<close> by (auto simp: word_unat_eq_iff)
  qed
qed

subsection \<open>Choosing the last block of a range\<close>

lemma log2_floor_bounds: "0 < n \<Longrightarrow> 2 ^ log2_floor n \<le> n \<and> n < 2 ^ Suc (log2_floor n)"
proof (induction n rule: log2_floor.induct)
  case (1 n)
  show ?case
  proof (cases "n \<le> 1")
    case True
    with 1 show ?thesis by (simp add: log2_floor.simps)
  next
    case False
    with 1 have "2 ^ log2_floor (n div 2) \<le> n div 2 \<and> n div 2 < 2 ^ Suc (log2_floor (n div 2))"
      by simp
    then show ?thesis using False by (simp add: log2_floor.simps [of n]) linarith
  qed
qed

lemma log2_floor_le15: "0 < n \<Longrightarrow> n < 65536 \<Longrightarrow> log2_floor n \<le> 15"
proof -
  assume "0 < n" "n < 65536"
  then have "(2::nat) ^ log2_floor n < 2 ^ 16" using log2_floor_bounds [of n] by simp
  then have "log2_floor n < 16" by (rule power_less_imp_less_exp [rotated]) simp
  then show ?thesis by simp
qed

text \<open>
  For a range with more than one port, the window does not wrap around, and the block the
  loop settles on lies inside the range, ends where the range ends, and is the largest
  aligned block that does.
\<close>

lemma last_block:
  assumes "0 < s" "s < (e :: 16 word)"
    and "shrink e (of_nat (log2_floor (unat (e - s + 1)))) = (bl, rs, re)"
  shows "unat (e - s + 1) = unat e - unat s + 1" "re = e" "unat bl \<le> 15" "s \<le> rs" "rs \<le> e"
    "unat rs + 2 ^ unat bl = unat e + 1" "2 ^ unat bl dvd unat e + 1"
    "\<And>j. unat bl < j \<Longrightarrow> j \<le> log2_floor (unat e - unat s + 1) \<Longrightarrow> \<not> 2 ^ j dvd unat e + 1"
    "unat bl \<le> log2_floor (unat e - unat s + 1)"
proof -
  have se: "0 < unat s" "unat s < unat e" "unat e < 65536"
    using assms(1,2) unat16_less [of e] by (auto simp: word_less_nat_alt)
  have "unat (e - s) = unat e - unat s" using assms(2) by (simp add: unat_sub)
  moreover have "unat (e - s) + unat (1 :: 16 word) < 2 ^ LENGTH(16)"
    using se calculation by simp
  ultimately show w: "unat (e - s + 1) = unat e - unat s + 1"
    by (subst (asm) unat_add_lem) simp
  define L where "L = log2_floor (unat e - unat s + 1)"
  have L: "L \<le> 15" "2 ^ L \<le> unat e - unat s + 1"
    using log2_floor_le15 [of "unat e - unat s + 1"] log2_floor_bounds [of "unat e - unat s + 1"] se
    by (auto simp: L_def)
  have uL: "unat (of_nat L :: 64 word) = L"
    using L(1) by (simp add: unat_of_nat)
  note sp = shrink_spec [of "of_nat L" e bl rs re]
  have sh: "shrink e (of_nat L) = (bl, rs, re)" using assms(3) w by (simp add: L_def)
  show "re = e" "unat rs + 2 ^ unat bl = unat e + 1" "2 ^ unat bl dvd unat e + 1"
      "unat bl \<le> log2_floor (unat e - unat s + 1)"
    using sp sh L uL by (auto simp: L_def)
  show "\<not> 2 ^ j dvd unat e + 1" if "unat bl < j" "j \<le> log2_floor (unat e - unat s + 1)" for j
    using sp sh L uL that by (auto simp: L_def)
  have bl: "unat bl \<le> L" using sp sh L uL by auto
  then show "unat bl \<le> 15" using L by simp
  have "(2::nat) ^ unat bl \<le> 2 ^ L" using bl by (simp add: power_increasing)
  moreover have "(1::nat) \<le> 2 ^ unat bl" by simp
  ultimately show "s \<le> rs" "rs \<le> e"
    using L(2) se \<open>unat rs + 2 ^ unat bl = unat e + 1\<close>
    unfolding word_le_nat_alt by linarith+
qed

section \<open>BitwiseMatch\<close>

function BitwiseMatch :: "PortRange \<Rightarrow> BitRange list result" where
  "BitwiseMatch r =
     (if Start r \<le> 0 \<or> End r \<le> 0 then Err ErrInvalidPortRange
      else if End r < Start r then Err ErrInvalidPortRange
      else if Start r = End r then Ok [\<lparr>Value = Start r, Mask = 0xFFFF\<rparr>]
      else
        (let window = (End r - Start r) + 1;
             (bitLength, rangeStart, rangeEnd) =
               shrink (End r) (of_nat (log2_floor (unat window)));
             current = \<lparr>Value = rangeStart, Mask = getMask bitLength\<rparr>
         in and_then
              (if Start r \<noteq> rangeStart
               then BitwiseMatch \<lparr>Start = Start r, End = rangeStart - 1\<rparr> else Ok [])
              (\<lambda>left. and_then
                (if End r \<noteq> rangeEnd
                 then BitwiseMatch \<lparr>Start = rangeEnd + 1, End = End r\<rparr> else Ok [])
                (\<lambda>right. Ok (left @ [current] @ right)))))"
  by pat_completeness auto
termination
proof (relation "measure (\<lambda>r. unat (End r) - unat (Start r))")
  fix r :: PortRange and w p bl q rs re
  assume a: "\<not> (Start r \<le> 0 \<or> End r \<le> 0)" "\<not> End r < Start r" "Start r \<noteq> End r"
    and w: "w = End r - Start r + 1" and p: "p = shrink (End r) (of_nat (log2_floor (unat w)))"
    and q: "(bl, q) = p" "(rs, re) = q"
  have lt: "0 < Start r" "Start r < End r" using a by (auto simp: word_gt_0)
  have "shrink (End r) (of_nat (log2_floor (unat (End r - Start r + 1)))) = (bl, rs, re)"
    using w p q by simp
  note b = last_block [OF lt this]
  show "(\<lparr>Start = Start r, End = rs - 1\<rparr>, r) \<in> measure (\<lambda>r. unat (End r) - unat (Start r))"
    if "Start r \<noteq> rs"
  proof -
    have "0 < rs" using b(4) lt(1) by (rule less_le_trans [rotated])
    then have "unat (rs - 1) < unat (End r)"
      using b(5) measure_unat [of rs] by (auto simp: word_le_nat_alt word_gt_0)
    then show ?thesis using lt by (simp add: word_less_nat_alt)
  qed
  show "(\<lparr>Start = re + 1, End = End r\<rparr>, r) \<in> measure (\<lambda>r. unat (End r) - unat (Start r))"
    if "End r \<noteq> re"
    using that b(2) by simp
qed simp

declare BitwiseMatch.simps [simp del]

text \<open>
  The three ways the code can go. In the last, the right remainder is never computed: the
  block always ends at the end of the range.
\<close>

lemma BitwiseMatch_invalid:
  "Start r = 0 \<or> End r < Start r \<Longrightarrow> BitwiseMatch r = Err ErrInvalidPortRange"
  by (subst BitwiseMatch.simps) auto

lemma BitwiseMatch_single:
  "0 < s \<Longrightarrow> BitwiseMatch \<lparr>Start = s, End = s\<rparr> = Ok [\<lparr>Value = s, Mask = 0xFFFF\<rparr>]"
  by (subst BitwiseMatch.simps) (auto simp: word_gt_0)

lemma BitwiseMatch_step:
  assumes "0 < s" "s < e"
    and "shrink e (of_nat (log2_floor (unat (e - s + 1)))) = (bl, rs, re)"
  shows "BitwiseMatch \<lparr>Start = s, End = e\<rparr> =
    and_then (if s \<noteq> rs then BitwiseMatch \<lparr>Start = s, End = rs - 1\<rparr> else Ok [])
      (\<lambda>left. Ok (left @ [\<lparr>Value = rs, Mask = getMask bl\<rparr>]))"
proof -
  have "\<not> (s \<le> 0 \<or> e \<le> 0)" "\<not> e < s" "s \<noteq> e"
    using assms(1,2) by (auto simp: word_gt_0)
  then show ?thesis
    using last_block(2) [OF assms] assms(3) by (subst BitwiseMatch.simps) simp
qed

section \<open>What the pairs match\<close>

text \<open>The Open vSwitch meaning of a masked match: the port agrees with the value on the mask.\<close>

definition br_matches :: "BitRange \<Rightarrow> 16 word \<Rightarrow> bool" where
  "br_matches b p \<longleftrightarrow> p AND Mask b = Value b AND Mask b"

text \<open>A list of pairs that tiles the ports from \<open>s\<close> up to, but not including, \<open>x\<close>.\<close>

fun tiles :: "nat \<Rightarrow> BitRange list \<Rightarrow> nat \<Rightarrow> bool" where
  "tiles s [] x \<longleftrightarrow> s = x"
| "tiles s (b # bs) x \<longleftrightarrow>
     (\<exists>k \<le> 15. Mask b = NOT (mask k) \<and> unat (Value b) = s \<and> 2 ^ k dvd s \<and> tiles (s + 2 ^ k) bs x)"

lemma tiles_append: "tiles s (as @ bs) x \<longleftrightarrow> (\<exists>m. tiles s as m \<and> tiles m bs x)"
  by (induction as arbitrary: s) auto

lemma tiles_le: "tiles s bs x \<Longrightarrow> s \<le> x"
  by (induction bs arbitrary: s) (auto dest: add_leD1)

lemma getMask_eq: "getMask bl = NOT (mask (unat bl))"
proof -
  have "(0xFFFF :: 16 word) = - 1" by simp
  then show ?thesis
    by (simp only: getMask_def push_bit_one_minus) (simp add: bit.xor_one_left)
qed

lemma block_matches:
  assumes "k \<le> 15" "2 ^ k dvd unat v"
  shows "br_matches \<lparr>Value = v, Mask = NOT (mask k)\<rparr> p \<longleftrightarrow>
    unat v \<le> unat p \<and> unat p < unat v + 2 ^ k"
proof -
  have "br_matches \<lparr>Value = v, Mask = NOT (mask k)\<rparr> p \<longleftrightarrow>
      unat p - unat p mod 2 ^ k = unat v - unat v mod 2 ^ k"
    by (simp add: br_matches_def word_unat_eq_iff unat_and_not_mask)
  also have "\<dots> \<longleftrightarrow> unat p - unat p mod 2 ^ k = unat v"
    using assms(2) by simp
  also have "\<dots> \<longleftrightarrow> unat v \<le> unat p \<and> unat p < unat v + 2 ^ k"
  proof
    assume "unat p - unat p mod 2 ^ k = unat v"
    moreover have "unat p mod 2 ^ k < 2 ^ k" by simp
    moreover have "unat p mod 2 ^ k \<le> unat p" by simp
    ultimately show "unat v \<le> unat p \<and> unat p < unat v + 2 ^ k" by linarith
  next
    assume a: "unat v \<le> unat p \<and> unat p < unat v + 2 ^ k"
    obtain q where q: "unat v = 2 ^ k * q" using assms(2) by blast
    define d where "d = unat p - unat v"
    have d: "unat p = 2 ^ k * q + d" "d < 2 ^ k" using a q by (auto simp: d_def)
    then show "unat p - unat p mod 2 ^ k = unat v" using q by simp
  qed
  finally show ?thesis .
qed

lemma tiles_block:
  assumes "tiles s (b # bs) x"
  obtains k where "k \<le> 15" "tiles (s + 2 ^ k) bs x" "unat (Value b) = s" "Mask b = NOT (mask k)"
    "\<And>p. br_matches b p \<longleftrightarrow> s \<le> unat p \<and> unat p < s + 2 ^ k"
proof -
  from assms obtain k where k: "k \<le> 15" "Mask b = NOT (mask k)" "unat (Value b) = s" "2 ^ k dvd s"
      "tiles (s + 2 ^ k) bs x"
    by auto
  then have b: "b = \<lparr>Value = Value b, Mask = NOT (mask k)\<rparr>" by simp
  have "br_matches b p \<longleftrightarrow> s \<le> unat p \<and> unat p < s + 2 ^ k" for p
    using block_matches [of k "Value b" p] k by (subst b) simp
  with k show thesis by (intro that) auto
qed

lemma tiles_cover:
  "tiles s bs x \<Longrightarrow> (\<exists>b \<in> set bs. br_matches b p) \<longleftrightarrow> s \<le> unat p \<and> unat p < x"
proof (induction bs arbitrary: s)
  case (Cons b bs)
  from Cons.prems obtain k where k: "tiles (s + 2 ^ k) bs x"
      "br_matches b p \<longleftrightarrow> s \<le> unat p \<and> unat p < s + 2 ^ k"
    by (rule tiles_block) blast
  then show ?case
    using Cons.IH [OF k(1)] tiles_le [OF k(1)] by (auto simp: not_less)
qed simp

lemma tiles_disjoint:
  "tiles s bs x \<Longrightarrow> i < j \<Longrightarrow> j < length bs \<Longrightarrow> br_matches (bs ! i) p \<Longrightarrow> \<not> br_matches (bs ! j) p"
proof (induction bs arbitrary: s i j)
  case (Cons b bs)
  from Cons.prems(1) obtain k where k: "tiles (s + 2 ^ k) bs x"
      "br_matches b p \<longleftrightarrow> s \<le> unat p \<and> unat p < s + 2 ^ k"
    by (rule tiles_block) blast
  obtain j' where j: "j = Suc j'" "j' < length bs" using Cons.prems by (cases j) auto
  show ?case
  proof (cases i)
    case 0
    then have "unat p < s + 2 ^ k" using Cons.prems(4) k(2) by simp
    then have "\<not> (\<exists>b' \<in> set bs. br_matches b' p)" using tiles_cover [OF k(1)] by simp
    then show ?thesis using j by simp
  next
    case (Suc i')
    then show ?thesis using Cons.IH [OF k(1), of i' j'] Cons.prems j by simp
  qed
qed simp

lemma tiles_masks: "tiles s bs x \<Longrightarrow> b \<in> set bs \<Longrightarrow> Mask b \<noteq> 0"
proof (induction bs arbitrary: s)
  case (Cons a bs)
  from Cons.prems(1) obtain k where k: "k \<le> 15" "tiles (s + 2 ^ k) bs x" "Mask a = NOT (mask k)"
    by (rule tiles_block) blast
  have "bit (NOT (mask k) :: 16 word) 15" using k(1) by (simp add: bit_simps)
  then have "Mask a \<noteq> 0" using k(3) by auto
  then show ?case using Cons.IH [OF k(2)] Cons.prems(2) by auto
qed simp

lemma tiles_BitwiseMatch:
  "0 < s \<Longrightarrow> s \<le> e \<Longrightarrow>
     \<exists>bs. BitwiseMatch \<lparr>Start = s, End = e\<rparr> = Ok bs \<and> tiles (unat s) bs (unat e + 1)"
proof (induction "unat e" arbitrary: e rule: less_induct)
  case less
  show ?case
  proof (cases "s = e")
    case True
    have "(0xFFFF :: 16 word) = NOT (mask 0)" by simp
    then show ?thesis using True less.prems by (auto simp: BitwiseMatch_single)
  next
    case False
    then have se: "s < e" using less.prems by simp
    obtain bl rs re where sh: "shrink e (of_nat (log2_floor (unat (e - s + 1)))) = (bl, rs, re)"
      by (metis prod_cases3)
    note b = last_block [OF less.prems(1) se sh]
    have rs: "0 < rs" using less.prems(1) b(4) by (rule less_le_trans)
    have rs1: "unat (rs - 1) + 1 = unat rs"
      using rs by (simp add: unat_minus_one word_gt_0 word_unat_eq_iff)
    have cur: "tiles (unat rs) [\<lparr>Value = rs, Mask = getMask bl\<rparr>] (unat e + 1)"
      using b(3,6,7) by (auto simp: getMask_eq dvd_add_left_iff intro!: exI [of _ "unat bl"])
        (metis dvd_add_left_iff dvd_refl)
    show ?thesis
    proof (cases "s = rs")
      case True
      then show ?thesis using cur BitwiseMatch_step [OF less.prems(1) se sh] by simp
    next
      case False
      then have "s < rs" using b(4) by simp
      then have "s \<le> rs - 1" "unat (rs - 1) < unat e"
        using rs1 b(5) by (auto simp: word_le_nat_alt word_less_nat_alt)
      then obtain bs where "BitwiseMatch \<lparr>Start = s, End = rs - 1\<rparr> = Ok bs"
          "tiles (unat s) bs (unat rs)"
        using less.hyps [of "rs - 1"] less.prems(1) rs1 by auto
      then show ?thesis
        using cur False BitwiseMatch_step [OF less.prems(1) se sh] by (auto simp: tiles_append)
    qed
  qed
qed

subsection \<open>How many pairs\<close>

text \<open>
  Scanning from the right, the blocks first grow strictly (each starts where a larger power
  of two divides) and then shrink strictly (the window has become smaller than the
  alignment). The two lemmas count the phases from the last to the first.
\<close>

lemma unat_pred: "s < rs \<Longrightarrow> unat ((rs :: 16 word) - 1) + 1 = unat rs"
proof -
  assume "s < rs"
  then have "rs \<noteq> 0" by auto
  then show ?thesis using unat_gt_0 [of rs] by (simp add: unat_minus_one)
qed

lemma count_step:
  assumes "0 < s" "s \<le> e" "BitwiseMatch \<lparr>Start = s, End = e\<rparr> = Ok bs"
  obtains (one) "length bs = 1"
  | (more) k left e' where
      "k \<le> log2_floor (unat e - unat s + 1)" "2 ^ k dvd unat e + 1"
      "\<And>j. k < j \<Longrightarrow> j \<le> log2_floor (unat e - unat s + 1) \<Longrightarrow> \<not> 2 ^ j dvd unat e + 1"
      "s \<le> e'" "unat e' + 1 + 2 ^ k = unat e + 1" "k \<le> 15"
      "BitwiseMatch \<lparr>Start = s, End = e'\<rparr> = Ok left" "length bs = length left + 1"
proof (cases "s = e")
  case True
  then have "bs = [\<lparr>Value = e, Mask = 0xFFFF\<rparr>]" using assms by (simp add: BitwiseMatch_single)
  then show thesis by (intro one) simp
next
  case False
  then have se: "s < e" using assms by simp
  obtain bl rs re where sh: "shrink e (of_nat (log2_floor (unat (e - s + 1)))) = (bl, rs, re)"
    by (metis prod_cases3)
  note b = last_block [OF assms(1) se sh]
  show thesis
  proof (cases "s = rs")
    case True
    then have "length bs = 1" using assms(3) BitwiseMatch_step [OF assms(1) se sh] by auto
    then show thesis by (rule one)
  next
    case False
    then have lt: "s < rs" using b(4) by simp
    from False obtain left where left: "BitwiseMatch \<lparr>Start = s, End = rs - 1\<rparr> = Ok left"
        "length bs = length left + 1"
      using assms(3) BitwiseMatch_step [OF assms(1) se sh] by auto
    have "s \<le> rs - 1" using lt unat_pred [OF lt] by (simp add: word_le_nat_alt word_less_nat_alt)
    then show thesis
      using b(3,6-9) left unat_pred [OF lt] by (intro more [of "unat bl" "rs - 1" left]) auto
  qed
qed

lemma length_shrinking:
  assumes "0 < s" "s \<le> e" "2 ^ j dvd unat e + 1" "unat e - unat s + 1 < 2 ^ j"
    "BitwiseMatch \<lparr>Start = s, End = e\<rparr> = Ok bs"
  shows "length bs \<le> j"
  using assms
proof (induction j arbitrary: e bs rule: less_induct)
  case (less j)
  define l where "l = log2_floor (unat e - unat s + 1)"
  have l: "2 ^ l \<le> unat e - unat s + 1" "unat e - unat s + 1 < 2 ^ Suc l"
    using log2_floor_bounds [of "unat e - unat s + 1"] by (auto simp: l_def)
  have "(2::nat) ^ l < 2 ^ j" using l(1) less.prems(4) by (rule le_less_trans)
  then have lj: "l < j" by (rule power_less_imp_less_exp [rotated]) simp
  then have dl: "2 ^ l dvd unat e + 1"
    using less.prems(3) by (meson dvd_trans le_imp_power_dvd less_imp_le)
  from less.prems(1,2,5) show ?case
  proof (cases rule: count_step)
    case one
    then show ?thesis using lj by simp
  next
    case (more k left e')
    then have k: "k = l" using dl by (cases "k < l") (auto simp: l_def)
    have "2 ^ l dvd unat e' + 1" using more(5) dl k by (metis dvd_add_left_iff dvd_refl)
    moreover have "unat s \<le> unat e'" using more(4) by (simp add: word_le_nat_alt)
    then have "unat e' - unat s + 1 < 2 ^ l" using more(5) l(2) k by simp
    ultimately have "length left \<le> l" using less.IH [OF lj less.prems(1) more(4)] more(7) by simp
    then show ?thesis using more(8) lj by simp
  qed
qed

lemma length_growing:
  assumes "0 < s" "s \<le> e" "2 ^ j dvd unat e + 1" "j \<le> 15"
    "BitwiseMatch \<lparr>Start = s, End = e\<rparr> = Ok bs"
  shows "length bs \<le> 31 - j"
  using assms
proof (induction "15 - j" arbitrary: j e bs rule: less_induct)
  case less
  define l where "l = log2_floor (unat e - unat s + 1)"
  have l: "unat e - unat s + 1 < 2 ^ Suc l"
    using log2_floor_bounds [of "unat e - unat s + 1"] by (auto simp: l_def)
  from less.prems(1,2,5) show ?case
  proof (cases rule: count_step)
    case one
    then show ?thesis using less.prems(4) by simp
  next
    case (more k left e')
    have e': "unat s \<le> unat e'" using more(4) by (simp add: word_le_nat_alt)
    show ?thesis
    proof (cases "k = l")
      case True
      have "2 ^ k dvd unat e' + 1" using more(2,5) by (metis dvd_add_left_iff dvd_refl)
      moreover have "unat e' - unat s + 1 < 2 ^ k" using more(5) l True e' by simp
      ultimately have "length left \<le> k"
        using length_shrinking [OF less.prems(1) more(4)] more(7) by simp
      then show ?thesis using more(6,8) less.prems(4) by simp
    next
      case False
      then have kl: "k < l" using more(1) by (simp add: l_def)
      have nd: "\<not> 2 ^ Suc k dvd unat e + 1" using more(3) [of "Suc k"] kl by (simp add: l_def)
      have jk: "j \<le> k"
        using nd less.prems(3) by (meson dvd_trans le_imp_power_dvd not_less_eq_eq)
      obtain q where q: "unat e + 1 = 2 ^ k * q" using more(2) by blast
      have "odd q" using nd q by (auto elim!: evenE)
      then obtain r where "q = 2 * r + 1" by (rule oddE)
      then have "unat e' + 1 = 2 ^ Suc k * r" using q more(5) by simp
      then have d: "2 ^ Suc k dvd unat e' + 1" by simp
      have "l \<le> 15" using log2_floor_le15 [of "unat e - unat s + 1"] unat16_less [of e] less.prems(1)
        by (simp add: l_def word_less_nat_alt)
      then have "Suc k \<le> 15" using kl by simp
      then have "length left \<le> 31 - Suc k"
        using less.hyps [OF _ less.prems(1) more(4) d _ more(7)] jk by simp
      then show ?thesis using more(8) jk \<open>Suc k \<le> 15\<close> by simp
    qed
  qed
qed

section \<open>The contract of a port splitter\<close>

text \<open>
  What the client of \<open>BitwiseMatch\<close> (\<^verbatim>\<open>transportPortRange.MaskedPorts\<close> in match.go) relies on:
  a valid range is tiled, an invalid one is an error.
\<close>

locale port_splitter =
  fixes split_range :: "16 word \<Rightarrow> 16 word \<Rightarrow> BitRange list result"
  assumes split_tiles:
      "0 < s \<Longrightarrow> s \<le> e \<Longrightarrow> \<exists>bs. split_range s e = Ok bs \<and> tiles (unat s) bs (unat e + 1)"
    and split_invalid: "s = 0 \<or> e < s \<Longrightarrow> split_range s e = Err ErrInvalidPortRange"
begin

lemma split_cases:
  obtains (ok) bs where "0 < s" "s \<le> e" "split_range s e = Ok bs" "tiles (unat s) bs (unat e + 1)"
  | (invalid) "s = 0 \<or> e < s" "split_range s e = Err ErrInvalidPortRange"
  using split_tiles [of s e] split_invalid [of s e] by (cases "s = 0 \<or> e < s") (auto simp: word_gt_0 not_less)

lemma split_matches:
  "split_range s e = Ok bs \<Longrightarrow> (\<exists>b \<in> set bs. br_matches b p) \<longleftrightarrow> s \<le> p \<and> p \<le> e"
  by (rule split_cases [of s e]) (auto simp: tiles_cover word_le_nat_alt less_Suc_eq_le)

lemma split_once:
  "split_range s e = Ok bs \<Longrightarrow> i < j \<Longrightarrow> j < length bs \<Longrightarrow> br_matches (bs ! i) p \<Longrightarrow>
     \<not> br_matches (bs ! j) p"
  by (rule split_cases [of s e]) (auto dest: tiles_disjoint)

lemma split_masks: "split_range s e = Ok bs \<Longrightarrow> b \<in> set bs \<Longrightarrow> Mask b \<noteq> 0"
  by (rule split_cases [of s e]) (auto dest: tiles_masks)

lemma split_valid_iff: "is_ok (split_range s e) \<longleftrightarrow> 0 < s \<and> s \<le> e"
  by (rule split_cases [of s e]) (auto simp: word_gt_0)

lemma split_no_panic: "split_range s e \<noteq> Panic"
  by (rule split_cases [of s e]) auto

end

interpretation bitwise: port_splitter "\<lambda>s e. BitwiseMatch \<lparr>Start = s, End = e\<rparr>"
  by unfold_locales (rule tiles_BitwiseMatch, simp_all add: BitwiseMatch_invalid)

section \<open>Properties\<close>

text \<open>
  C1: for a non-empty range of non-zero ports \<^verbatim>\<open>BitwiseMatch\<close> returns pairs, and a port agrees
  with one of them on its mask exactly when it lies in the range.
\<close>

theorem BitwiseMatch_exact:
  assumes "0 < Start r" "Start r \<le> End r"
  shows "\<exists>bs. BitwiseMatch r = Ok bs \<and>
    (\<forall>p. (\<exists>b \<in> set bs. br_matches b p) \<longleftrightarrow> Start r \<le> p \<and> p \<le> End r)"
proof -
  from assms obtain bs where "BitwiseMatch r = Ok bs"
    using bitwise.split_tiles [of "Start r" "End r"] by auto
  then show ?thesis using bitwise.split_matches [of "Start r" "End r"] by auto
qed

theorem BitwiseMatch_exact_witness:
  "BitwiseMatch \<lparr>Start = 5, End = 20\<rparr> =
     Ok [\<lparr>Value = 5, Mask = 0xFFFF\<rparr>, \<lparr>Value = 6, Mask = 0xFFFE\<rparr>, \<lparr>Value = 8, Mask = 0xFFF8\<rparr>,
         \<lparr>Value = 16, Mask = 0xFFFC\<rparr>, \<lparr>Value = 20, Mask = 0xFFFF\<rparr>] \<and>
   (\<exists>bs. BitwiseMatch \<lparr>Start = 5, End = 20\<rparr> = Ok bs \<and>
     (\<forall>p. (\<exists>b \<in> set bs. br_matches b p) \<longleftrightarrow> 5 \<le> p \<and> p \<le> 20))"
proof
  show "BitwiseMatch \<lparr>Start = 5, End = 20\<rparr> =
     Ok [\<lparr>Value = 5, Mask = 0xFFFF\<rparr>, \<lparr>Value = 6, Mask = 0xFFFE\<rparr>, \<lparr>Value = 8, Mask = 0xFFF8\<rparr>,
         \<lparr>Value = 16, Mask = 0xFFFC\<rparr>, \<lparr>Value = 20, Mask = 0xFFFF\<rparr>]"
    by code_simp
  show "\<exists>bs. BitwiseMatch \<lparr>Start = 5, End = 20\<rparr> = Ok bs \<and>
     (\<forall>p. (\<exists>b \<in> set bs. br_matches b p) \<longleftrightarrow> 5 \<le> p \<and> p \<le> 20)"
    using BitwiseMatch_exact [of "\<lparr>Start = 5, End = 20\<rparr>"] by simp
qed

text \<open>
  C19: no two of the returned pairs match the same port, and no pair has the mask zero (which
  the match printer would take for "no mask").
\<close>

theorem BitwiseMatch_disjoint:
  assumes "BitwiseMatch r = Ok bs" "i < j" "j < length bs"
  shows "\<not> (br_matches (bs ! i) p \<and> br_matches (bs ! j) p) \<and> Mask (bs ! i) \<noteq> 0 \<and> Mask (bs ! j) \<noteq> 0"
proof -
  have r: "BitwiseMatch \<lparr>Start = Start r, End = End r\<rparr> = Ok bs" using assms(1) by simp
  then show ?thesis
    using bitwise.split_once [OF r assms(2,3)] bitwise.split_masks [OF r] assms(2,3) by simp
qed

theorem BitwiseMatch_disjoint_witness:
  "\<not> (br_matches \<lparr>Value = 6, Mask = 0xFFFE\<rparr> 7 \<and> br_matches \<lparr>Value = 8, Mask = 0xFFFF\<rparr> 7)"
proof -
  have "BitwiseMatch \<lparr>Start = 6, End = 8\<rparr> =
      Ok [\<lparr>Value = 6, Mask = 0xFFFE\<rparr>, \<lparr>Value = 8, Mask = 0xFFFF\<rparr>]"
    by code_simp
  from BitwiseMatch_disjoint [OF this, of 0 1 7] show ?thesis by simp
qed

text \<open>
  \<^verbatim>\<open>BitwiseMatch\<close> never panics, and returns an error exactly for the ranges that are
  empty or start at port 0; no recursive call fails.
\<close>

theorem BitwiseMatch_error_iff:
  "BitwiseMatch r \<noteq> Panic \<and>
   (BitwiseMatch r = Err e \<longleftrightarrow> e = ErrInvalidPortRange \<and> (Start r = 0 \<or> End r < Start r))"
  by (rule bitwise.split_cases [of "Start r" "End r"]) (auto simp: word_gt_0)

text \<open>
  At most 31 pairs are returned, whatever the 16-bit range.
\<close>

theorem BitwiseMatch_count:
  assumes "BitwiseMatch r = Ok bs"
  shows "0 < length bs \<and> length bs \<le> 31"
proof -
  have r: "BitwiseMatch \<lparr>Start = Start r, End = End r\<rparr> = Ok bs" using assms by simp
  then have se: "0 < Start r" "Start r \<le> End r"
    using bitwise.split_valid_iff [of "Start r" "End r"] by simp_all
  have "length bs \<le> 31" using length_growing [OF se, of 0] r by simp
  moreover have "bs \<noteq> []"
    using bitwise.split_matches [OF r, of "Start r"] se by auto
  ultimately show ?thesis by simp
qed

theorem BitwiseMatch_count_witness:
  "length [\<lparr>Value = 6, Mask = (0xFFFE :: 16 word)\<rparr>, \<lparr>Value = 8, Mask = 0xFFFF\<rparr>] \<le> 31 \<and>
   BitwiseMatch \<lparr>Start = 6, End = 8\<rparr> =
      Ok [\<lparr>Value = 6, Mask = 0xFFFE\<rparr>, \<lparr>Value = 8, Mask = 0xFFFF\<rparr>]"
proof -
  have "BitwiseMatch \<lparr>Start = 6, End = 8\<rparr> =
      Ok [\<lparr>Value = 6, Mask = 0xFFFE\<rparr>, \<lparr>Value = 8, Mask = 0xFFFF\<rparr>]"
    by code_simp
  with BitwiseMatch_count [OF this] show ?thesis by simp
qed

text \<open>
  The block chosen by the loop always ends at the end of the range, so the branch for a
  right remainder is never taken: the last returned pair covers the last port, and the rest
  is the decomposition of what lies to its left.
\<close>

theorem BitwiseMatch_right_remainder_dead:
  assumes "0 < s" "s < e"
    and "shrink e (of_nat (log2_floor (unat (e - s + 1)))) = (bl, rs, re)"
  shows "re = e \<and> s \<le> rs \<and>
    BitwiseMatch \<lparr>Start = s, End = e\<rparr> =
      and_then (if s \<noteq> rs then BitwiseMatch \<lparr>Start = s, End = rs - 1\<rparr> else Ok [])
        (\<lambda>left. Ok (left @ [\<lparr>Value = rs, Mask = getMask bl\<rparr>]))"
  using last_block(2,4) [OF assms] BitwiseMatch_step [OF assms] by simp

theorem BitwiseMatch_right_remainder_dead_witness:
  "BitwiseMatch \<lparr>Start = 6, End = 8\<rparr> =
     and_then (BitwiseMatch \<lparr>Start = 6, End = 7\<rparr>) (\<lambda>left. Ok (left @ [\<lparr>Value = 8, Mask = 0xFFFF\<rparr>]))"
proof -
  have "shrink 8 (of_nat (log2_floor (unat ((8 :: 16 word) - 6 + 1)))) = (0, 8, 8)"
    by code_simp
  from BitwiseMatch_right_remainder_dead [OF _ _ this] show ?thesis
    by (simp add: getMask_def)
qed

end
