(* ===== verification/Ovs_Match.thy ===== *)
theory Ovs_Match
  imports Go_Net Port_Range
begin

text \<open>
  \<^verbatim>\<open>ovs/match.go\<close>: the match statements of a flow. The interface \<^verbatim>\<open>Match\<close> is a datatype with
  one constructor per implementing struct; the exported functions build its values; each
  \<^verbatim>\<open>MarshalText\<close> method is one definition, and \<open>Match_MarshalText\<close> is the dynamic dispatch.
  The lemmas say when marshaling fails and which bytes a marshaled text can hold.
\<close>

section \<open>Names and types\<close>

definition source :: string where "source = ''src''"

definition destination :: string where "destination = ''dst''"

definition arpSHA :: string where "arpSHA = ''arp_sha''"
definition arpSPA :: string where "arpSPA = ''arp_spa''"
definition arpTHA :: string where "arpTHA = ''arp_tha''"
definition arpTPA :: string where "arpTPA = ''arp_tpa''"
definition conjID :: string where "conjID = ''conj_id''"
definition ctMark :: string where "ctMark = ''ct_mark''"
definition ctState :: string where "ctState = ''ct_state''"
definition ctZone :: string where "ctZone = ''ct_zone''"
definition dlSRC :: string where "dlSRC = ''dl_src''"
definition dlDST :: string where "dlDST = ''dl_dst''"
definition dlType :: string where "dlType = ''dl_type''"
definition dlVLAN :: string where "dlVLAN = ''dl_vlan''"
definition icmpType :: string where "icmpType = ''icmp_type''"
definition ipv6DST :: string where "ipv6DST = ''ipv6_dst''"
definition ipv6SRC :: string where "ipv6SRC = ''ipv6_src''"
definition ndSLL :: string where "ndSLL = ''nd_sll''"
definition ndTLL :: string where "ndTLL = ''nd_tll''"
definition ndTarget :: string where "ndTarget = ''nd_target''"
definition nwDST :: string where "nwDST = ''nw_dst''"
definition nwProto :: string where "nwProto = ''nw_proto''"
definition nwSRC :: string where "nwSRC = ''nw_src''"
definition tcpFlags :: string where "tcpFlags = ''tcp_flags''"
definition tpDST :: string where "tpDST = ''tp_dst''"
definition tpSRC :: string where "tpSRC = ''tp_src''"
definition tunID :: string where "tunID = ''tun_id''"
definition vlanTCI :: string where "vlanTCI = ''vlan_tci''"

lemmas match_names = source_def destination_def arpSHA_def arpSPA_def arpTHA_def arpTPA_def
  conjID_def ctMark_def ctState_def ctZone_def dlSRC_def dlDST_def dlType_def dlVLAN_def
  icmpType_def ipv6DST_def ipv6SRC_def ndSLL_def ndTLL_def ndTarget_def nwDST_def nwProto_def
  nwSRC_def tcpFlags_def tpDST_def tpSRC_def tunID_def vlanTCI_def

definition ethernetAddrLen :: nat where "ethernetAddrLen = 6"

definition VLANNone :: int where "VLANNone = 0xffff"

datatype Match =
    dataLinkMatch string string
  | dataLinkTypeMatch "16 word"
  | dataLinkVLANMatch int
  | networkMatch string string
  | conjunctionIDMatch "32 word"
  | networkProtocolMatch "8 word"
  | ipv6Match string string
  | icmpTypeMatch "8 word"
  | neighborDiscoveryTargetMatch string
  | neighborDiscoveryLinkLayerMatch string "byte list"
  | arpHardwareAddressMatch string "byte list"
  | arpProtocolAddressMatch string string
  | transportPortMatch string "16 word" "16 word"
  | vlanTCIMatch "16 word" "16 word"
  | connectionTrackingMarkMatch "32 word" "32 word"
  | connectionTrackingZoneMatch "16 word"
  | connectionTrackingMatch "string list"
  | tcpFlagsMatch "string list"
  | tunnelIDMatch "64 word" "64 word"

section \<open>Exported constructors\<close>

definition DataLinkSource :: "string \<Rightarrow> Match" where
  "DataLinkSource addr = dataLinkMatch source addr"

definition DataLinkDestination :: "string \<Rightarrow> Match" where
  "DataLinkDestination addr = dataLinkMatch destination addr"

definition DataLinkType :: "16 word \<Rightarrow> Match" where
  "DataLinkType etherType = dataLinkTypeMatch etherType"

definition DataLinkVLAN :: "int \<Rightarrow> Match" where
  "DataLinkVLAN vid = dataLinkVLANMatch vid"

definition NetworkSource :: "string \<Rightarrow> Match" where
  "NetworkSource ip = networkMatch source ip"

definition NetworkDestination :: "string \<Rightarrow> Match" where
  "NetworkDestination ip = networkMatch destination ip"

definition ConjunctionID :: "32 word \<Rightarrow> Match" where
  "ConjunctionID n = conjunctionIDMatch n"

definition NetworkProtocol :: "8 word \<Rightarrow> Match" where
  "NetworkProtocol num = networkProtocolMatch num"

definition IPv6Source :: "string \<Rightarrow> Match" where
  "IPv6Source ip = ipv6Match source ip"

definition IPv6Destination :: "string \<Rightarrow> Match" where
  "IPv6Destination ip = ipv6Match destination ip"

definition ICMPType :: "8 word \<Rightarrow> Match" where
  "ICMPType typ = icmpTypeMatch typ"

definition NeighborDiscoveryTarget :: "string \<Rightarrow> Match" where
  "NeighborDiscoveryTarget ip = neighborDiscoveryTargetMatch ip"

definition NeighborDiscoverySourceLinkLayer :: "byte list \<Rightarrow> Match" where
  "NeighborDiscoverySourceLinkLayer addr = neighborDiscoveryLinkLayerMatch source addr"

definition NeighborDiscoveryTargetLinkLayer :: "byte list \<Rightarrow> Match" where
  "NeighborDiscoveryTargetLinkLayer addr = neighborDiscoveryLinkLayerMatch destination addr"

definition ARPSourceHardwareAddress :: "byte list \<Rightarrow> Match" where
  "ARPSourceHardwareAddress addr = arpHardwareAddressMatch source addr"

definition ARPTargetHardwareAddress :: "byte list \<Rightarrow> Match" where
  "ARPTargetHardwareAddress addr = arpHardwareAddressMatch destination addr"

definition ARPSourceProtocolAddress :: "string \<Rightarrow> Match" where
  "ARPSourceProtocolAddress ip = arpProtocolAddressMatch source ip"

definition ARPTargetProtocolAddress :: "string \<Rightarrow> Match" where
  "ARPTargetProtocolAddress ip = arpProtocolAddressMatch destination ip"

definition TransportSourcePort :: "16 word \<Rightarrow> Match" where
  "TransportSourcePort port = transportPortMatch source port 0"

definition TransportDestinationPort :: "16 word \<Rightarrow> Match" where
  "TransportDestinationPort port = transportPortMatch destination port 0"

definition TransportSourceMaskedPort :: "16 word \<Rightarrow> 16 word \<Rightarrow> Match" where
  "TransportSourceMaskedPort port msk = transportPortMatch source port msk"

definition TransportDestinationMaskedPort :: "16 word \<Rightarrow> 16 word \<Rightarrow> Match" where
  "TransportDestinationMaskedPort port msk = transportPortMatch destination port msk"

definition VLANTCI :: "16 word \<Rightarrow> 16 word \<Rightarrow> Match" where
  "VLANTCI tci msk = vlanTCIMatch tci msk"

definition ConnectionTrackingMark :: "32 word \<Rightarrow> 32 word \<Rightarrow> Match" where
  "ConnectionTrackingMark mark msk = connectionTrackingMarkMatch mark msk"

definition ConnectionTrackingZone :: "16 word \<Rightarrow> Match" where
  "ConnectionTrackingZone zone = connectionTrackingZoneMatch zone"

definition ConnectionTrackingState :: "string list \<Rightarrow> Match" where
  "ConnectionTrackingState state = connectionTrackingMatch state"

definition SetState :: "string \<Rightarrow> string" where
  "SetState state = ''+'' @ state"

definition UnsetState :: "string \<Rightarrow> string" where
  "UnsetState state = ''-'' @ state"

definition TCPFlags :: "string list \<Rightarrow> Match" where
  "TCPFlags flags = tcpFlagsMatch flags"

definition SetTCPFlag :: "string \<Rightarrow> string" where
  "SetTCPFlag flag = ''+'' @ flag"

definition UnsetTCPFlag :: "string \<Rightarrow> string" where
  "UnsetTCPFlag flag = ''-'' @ flag"

definition TunnelID :: "64 word \<Rightarrow> Match" where
  "TunnelID n = tunnelIDMatch n 0"

definition TunnelIDWithMask :: "64 word \<Rightarrow> 64 word \<Rightarrow> Match" where
  "TunnelIDWithMask n msk = tunnelIDMatch n msk"

lemmas match_constructors = DataLinkSource_def DataLinkDestination_def DataLinkType_def
  DataLinkVLAN_def NetworkSource_def NetworkDestination_def ConjunctionID_def NetworkProtocol_def
  IPv6Source_def IPv6Destination_def ICMPType_def NeighborDiscoveryTarget_def
  NeighborDiscoverySourceLinkLayer_def NeighborDiscoveryTargetLinkLayer_def
  ARPSourceHardwareAddress_def ARPTargetHardwareAddress_def ARPSourceProtocolAddress_def
  ARPTargetProtocolAddress_def TransportSourcePort_def TransportDestinationPort_def
  TransportSourceMaskedPort_def TransportDestinationMaskedPort_def VLANTCI_def
  ConnectionTrackingMark_def ConnectionTrackingZone_def ConnectionTrackingState_def TCPFlags_def
  TunnelID_def TunnelIDWithMask_def

section \<open>Marshaling\<close>

text \<open>\<^verbatim>\<open>validVLANVID\<close> of \<^verbatim>\<open>ovs/action.go\<close>, shared by matches and actions.\<close>

definition validVLANVID :: "int \<Rightarrow> bool" where
  "validVLANVID vid \<longleftrightarrow> vid \<ge> 0 \<and> vid \<le> 0xfff"

definition key_value :: "string \<Rightarrow> string \<Rightarrow> string" where
  "key_value k v = k @ ''='' @ v"

definition matchIPv4AddressOrCIDR :: "string \<Rightarrow> string \<Rightarrow> string result" where
  "matchIPv4AddressOrCIDR key ip =
     (case ParseCIDR ip of
        Some ipAddr \<Rightarrow>
          if To4 ipAddr = None then Err (ErrInvalidIPv4 ip) else Ok (key_value key ip)
      | None \<Rightarrow>
          (case ParseIP ip of
             Some ipAddr \<Rightarrow>
               if To4 ipAddr = None then Err (ErrInvalidIPv4 ip)
               else Ok (key_value key (IPString ipAddr))
           | None \<Rightarrow> Err (ErrInvalidIPv4 ip)))"

definition matchIPv6AddressOrCIDR :: "string \<Rightarrow> string \<Rightarrow> string result" where
  "matchIPv6AddressOrCIDR key ip =
     (case ParseCIDR ip of
        Some ipAddr \<Rightarrow>
          if To16 ipAddr = None \<or> To4 ipAddr \<noteq> None then Err (ErrInvalidIPv6 ip)
          else Ok (key_value key ip)
      | None \<Rightarrow>
          (case ParseIP ip of
             Some ipAddr \<Rightarrow>
               if To16 ipAddr = None \<or> To4 ipAddr \<noteq> None then Err (ErrInvalidIPv6 ip)
               else Ok (key_value key (IPString ipAddr))
           | None \<Rightarrow> Err (ErrInvalidIPv6 ip)))"

definition matchEthernetHardwareAddress :: "string \<Rightarrow> byte list \<Rightarrow> string result" where
  "matchEthernetHardwareAddress key addr =
     (if length addr \<noteq> ethernetAddrLen then Err (ErrHardwareAddrLen (length addr))
      else Ok (key_value key (HardwareAddrString addr)))"

definition matchTransportPort :: "string \<Rightarrow> 16 word \<Rightarrow> 16 word \<Rightarrow> string result" where
  "matchTransportPort srcdst port msk =
     (if msk = 0 then Ok (key_value (''tp_'' @ srcdst) (fmt_d port))
      else Ok (key_value (''tp_'' @ srcdst) (fmt_0x 4 port @ ''/'' @ fmt_0x 4 msk)))"

definition dataLinkMatch_MarshalText :: "string \<Rightarrow> string \<Rightarrow> string result" where
  "dataLinkMatch_MarshalText srcdst addr =
     (let ss = SplitN2 addr ''/'' in
      and_then (ParseMAC (ss ! 0)) (\<lambda>hwAddr.
        if length hwAddr \<noteq> ethernetAddrLen then Err (ErrHardwareAddrLen (length hwAddr))
        else if length ss = 1 then Ok (key_value (''dl_'' @ srcdst) (HardwareAddrString hwAddr))
        else and_then (ParseMAC (ss ! 1)) (\<lambda>wildcard.
          if length wildcard \<noteq> ethernetAddrLen then Err (ErrWildcardLen (length wildcard))
          else Ok (key_value (''dl_'' @ srcdst)
                 (HardwareAddrString hwAddr @ ''/'' @ HardwareAddrString wildcard)))))"

definition dataLinkTypeMatch_MarshalText :: "16 word \<Rightarrow> string result" where
  "dataLinkTypeMatch_MarshalText etherType = Ok (key_value dlType (fmt_0x 4 etherType))"

definition dataLinkVLANMatch_MarshalText :: "int \<Rightarrow> string result" where
  "dataLinkVLANMatch_MarshalText vid =
     (if \<not> validVLANVID vid \<and> vid \<noteq> VLANNone then Err ErrInvalidVLANVID
      else if vid = VLANNone then Ok (key_value dlVLAN ''0xffff'')
      else Ok (key_value dlVLAN (Itoa vid)))"

definition networkMatch_MarshalText :: "string \<Rightarrow> string \<Rightarrow> string result" where
  "networkMatch_MarshalText srcdst ip = matchIPv4AddressOrCIDR (''nw_'' @ srcdst) ip"

definition conjunctionIDMatch_MarshalText :: "32 word \<Rightarrow> string result" where
  "conjunctionIDMatch_MarshalText n = Ok (key_value ''conj_id'' (fmt_d n))"

definition networkProtocolMatch_MarshalText :: "8 word \<Rightarrow> string result" where
  "networkProtocolMatch_MarshalText num = Ok (key_value nwProto (fmt_d num))"

definition ipv6Match_MarshalText :: "string \<Rightarrow> string \<Rightarrow> string result" where
  "ipv6Match_MarshalText srcdst ip = matchIPv6AddressOrCIDR (''ipv6_'' @ srcdst) ip"

definition icmpTypeMatch_MarshalText :: "8 word \<Rightarrow> string result" where
  "icmpTypeMatch_MarshalText typ = Ok (key_value icmpType (fmt_d typ))"

definition neighborDiscoveryTargetMatch_MarshalText :: "string \<Rightarrow> string result" where
  "neighborDiscoveryTargetMatch_MarshalText ip = matchIPv6AddressOrCIDR ndTarget ip"

definition neighborDiscoveryLinkLayerMatch_MarshalText :: "string \<Rightarrow> byte list \<Rightarrow> string result" where
  "neighborDiscoveryLinkLayerMatch_MarshalText srctgt addr =
     (if srctgt = source then matchEthernetHardwareAddress ndSLL addr
      else matchEthernetHardwareAddress ndTLL addr)"

definition arpHardwareAddressMatch_MarshalText :: "string \<Rightarrow> byte list \<Rightarrow> string result" where
  "arpHardwareAddressMatch_MarshalText srctgt addr =
     (if srctgt = source then matchEthernetHardwareAddress arpSHA addr
      else matchEthernetHardwareAddress arpTHA addr)"

definition arpProtocolAddressMatch_MarshalText :: "string \<Rightarrow> string \<Rightarrow> string result" where
  "arpProtocolAddressMatch_MarshalText srctgt ip =
     (if srctgt = source then matchIPv4AddressOrCIDR arpSPA ip
      else matchIPv4AddressOrCIDR arpTPA ip)"

definition transportPortMatch_MarshalText :: "string \<Rightarrow> 16 word \<Rightarrow> 16 word \<Rightarrow> string result" where
  "transportPortMatch_MarshalText srcdst port msk = matchTransportPort srcdst port msk"

definition vlanTCIMatch_MarshalText :: "16 word \<Rightarrow> 16 word \<Rightarrow> string result" where
  "vlanTCIMatch_MarshalText tci msk =
     (if msk \<noteq> 0 then Ok (key_value vlanTCI (fmt_0x 4 tci @ ''/'' @ fmt_0x 4 msk))
      else Ok (key_value vlanTCI (fmt_0x 4 tci)))"

definition connectionTrackingMarkMatch_MarshalText :: "32 word \<Rightarrow> 32 word \<Rightarrow> string result" where
  "connectionTrackingMarkMatch_MarshalText mark msk =
     (if msk \<noteq> 0 then Ok (key_value ctMark (fmt_0x 8 mark @ ''/'' @ fmt_0x 8 msk))
      else Ok (key_value ctMark (fmt_0x 8 mark)))"

definition connectionTrackingZoneMatch_MarshalText :: "16 word \<Rightarrow> string result" where
  "connectionTrackingZoneMatch_MarshalText zone = Ok (key_value ctZone (fmt_d zone))"

definition connectionTrackingMatch_MarshalText :: "string list \<Rightarrow> string result" where
  "connectionTrackingMatch_MarshalText state = Ok (key_value ctState (Join state []))"

definition tcpFlagsMatch_MarshalText :: "string list \<Rightarrow> string result" where
  "tcpFlagsMatch_MarshalText flags = Ok (key_value tcpFlags (Join flags []))"

definition tunnelIDMatch_MarshalText :: "64 word \<Rightarrow> 64 word \<Rightarrow> string result" where
  "tunnelIDMatch_MarshalText n msk =
     (if msk = 0 then Ok (key_value tunID (fmt_0x 0 n))
      else Ok (key_value tunID (fmt_0x 0 n @ ''/'' @ fmt_0x 0 msk)))"

fun Match_MarshalText :: "Match \<Rightarrow> string result" where
  "Match_MarshalText (dataLinkMatch srcdst addr) = dataLinkMatch_MarshalText srcdst addr"
| "Match_MarshalText (dataLinkTypeMatch etherType) = dataLinkTypeMatch_MarshalText etherType"
| "Match_MarshalText (dataLinkVLANMatch vid) = dataLinkVLANMatch_MarshalText vid"
| "Match_MarshalText (networkMatch srcdst ip) = networkMatch_MarshalText srcdst ip"
| "Match_MarshalText (conjunctionIDMatch n) = conjunctionIDMatch_MarshalText n"
| "Match_MarshalText (networkProtocolMatch num) = networkProtocolMatch_MarshalText num"
| "Match_MarshalText (ipv6Match srcdst ip) = ipv6Match_MarshalText srcdst ip"
| "Match_MarshalText (icmpTypeMatch typ) = icmpTypeMatch_MarshalText typ"
| "Match_MarshalText (neighborDiscoveryTargetMatch ip) = neighborDiscoveryTargetMatch_MarshalText ip"
| "Match_MarshalText (neighborDiscoveryLinkLayerMatch srctgt addr) =
     neighborDiscoveryLinkLayerMatch_MarshalText srctgt addr"
| "Match_MarshalText (arpHardwareAddressMatch srctgt addr) =
     arpHardwareAddressMatch_MarshalText srctgt addr"
| "Match_MarshalText (arpProtocolAddressMatch srctgt ip) =
     arpProtocolAddressMatch_MarshalText srctgt ip"
| "Match_MarshalText (transportPortMatch srcdst port msk) =
     transportPortMatch_MarshalText srcdst port msk"
| "Match_MarshalText (vlanTCIMatch tci msk) = vlanTCIMatch_MarshalText tci msk"
| "Match_MarshalText (connectionTrackingMarkMatch mark msk) =
     connectionTrackingMarkMatch_MarshalText mark msk"
| "Match_MarshalText (connectionTrackingZoneMatch zone) = connectionTrackingZoneMatch_MarshalText zone"
| "Match_MarshalText (connectionTrackingMatch state) = connectionTrackingMatch_MarshalText state"
| "Match_MarshalText (tcpFlagsMatch flags) = tcpFlagsMatch_MarshalText flags"
| "Match_MarshalText (tunnelIDMatch n msk) = tunnelIDMatch_MarshalText n msk"

lemmas match_marshalers = dataLinkMatch_MarshalText_def dataLinkTypeMatch_MarshalText_def
  dataLinkVLANMatch_MarshalText_def networkMatch_MarshalText_def
  conjunctionIDMatch_MarshalText_def networkProtocolMatch_MarshalText_def
  ipv6Match_MarshalText_def icmpTypeMatch_MarshalText_def
  neighborDiscoveryTargetMatch_MarshalText_def neighborDiscoveryLinkLayerMatch_MarshalText_def
  arpHardwareAddressMatch_MarshalText_def arpProtocolAddressMatch_MarshalText_def
  transportPortMatch_MarshalText_def vlanTCIMatch_MarshalText_def
  connectionTrackingMarkMatch_MarshalText_def connectionTrackingZoneMatch_MarshalText_def
  connectionTrackingMatch_MarshalText_def tcpFlagsMatch_MarshalText_def
  tunnelIDMatch_MarshalText_def

section \<open>Port ranges\<close>

record transportPortRange =
  pr_srcdst :: string
  startPort :: "16 word"
  endPort :: "16 word"

definition TransportDestinationPortRange :: "16 word \<Rightarrow> 16 word \<Rightarrow> transportPortRange" where
  "TransportDestinationPortRange s e = \<lparr>pr_srcdst = destination, startPort = s, endPort = e\<rparr>"

definition TransportSourcePortRange :: "16 word \<Rightarrow> 16 word \<Rightarrow> transportPortRange" where
  "TransportSourcePortRange s e = \<lparr>pr_srcdst = source, startPort = s, endPort = e\<rparr>"

definition MaskedPorts :: "transportPortRange \<Rightarrow> Match list result" where
  "MaskedPorts pr =
     and_then (BitwiseMatch \<lparr>Start = startPort pr, End = endPort pr\<rparr>) (\<lambda>bitRanges.
       Ok (map (\<lambda>br. transportPortMatch (pr_srcdst pr) (Value br) (Mask br)) bitRanges))"

end
