(* ===== verification/Match_Parser.thy ===== *)
theory Match_Parser
  imports Ovs_Match
begin

text \<open>
  \<^verbatim>\<open>ovs/matchparser.go\<close>: from a key and a value back to a match. The lemmas show that parsing
  never panics, keeps the key, and undoes marshaling.
\<close>

section \<open>Numbers\<close>

definition hexPrefix :: string where "hexPrefix = ''0x''"

definition MaxUint8 :: int where "MaxUint8 = 255"
definition MaxUint16 :: int where "MaxUint16 = 65535"
definition MaxUint32 :: int where "MaxUint32 = 4294967295"

definition parseHexUint16 :: "string \<Rightarrow> 16 word result" where
  "parseHexUint16 v = and_then (ParseUint (TrimPrefix v hexPrefix) 16 32) (\<lambda>n. Ok (of_nat n))"

definition parseHexUint32 :: "string \<Rightarrow> 32 word result" where
  "parseHexUint32 v = and_then (ParseUint (TrimPrefix v hexPrefix) 16 32) (\<lambda>n. Ok (of_nat n))"

definition parseHexUint64 :: "string \<Rightarrow> 64 word result" where
  "parseHexUint64 v = and_then (ParseUint (TrimPrefix v hexPrefix) 16 64) (\<lambda>n. Ok (of_nat n))"

definition parseClampInt :: "string \<Rightarrow> int \<Rightarrow> int result" where
  "parseClampInt s mx =
     and_then (Atoi s) (\<lambda>t. if t > mx then Err (ErrIntTooLarge t mx) else Ok t)"

section \<open>The parsers of the keys\<close>

definition parseIntMatch :: "string \<Rightarrow> string \<Rightarrow> int \<Rightarrow> Match result" where
  "parseIntMatch key v mx =
     and_then (parseClampInt v mx) (\<lambda>t.
       if key = icmpType then Ok (ICMPType (word_of_int t))
       else if key = nwProto then Ok (NetworkProtocol (word_of_int t))
       else if key = ctZone then Ok (ConnectionTrackingZone (word_of_int t))
       else if key = conjID then Ok (ConjunctionID (word_of_int t))
       else Err (ErrNoMatched key v))"

definition parsePort :: "string \<Rightarrow> string \<Rightarrow> int \<Rightarrow> Match result" where
  "parsePort key v mx =
     (let ss = Split v ''/'' in
      and_then
        (if length ss = 1 then
           and_then (parseClampInt v mx) (\<lambda>val. Ok [word_of_int val :: 64 word, 0])
         else if length ss = 2 then
           each (\<lambda>s. and_then (parseHexUint64 s) (\<lambda>val.
             if val > word_of_int mx then Err (ErrIntTooLarge (uint val) mx) else Ok val)) ss
         else Err (ErrInvalidValue key v))
        (\<lambda>values.
           if key = tpSRC then Ok (TransportSourceMaskedPort (ucast (values ! 0)) (ucast (values ! 1)))
           else if key = tpDST then
             Ok (TransportDestinationMaskedPort (ucast (values ! 0)) (ucast (values ! 1)))
           else Err (ErrNoMatched key v)))"

definition parseMACMatch :: "string \<Rightarrow> string \<Rightarrow> Match result" where
  "parseMACMatch key v =
     and_then (ParseMAC v) (\<lambda>mac.
       if key = arpSHA then Ok (ARPSourceHardwareAddress mac)
       else if key = arpTHA then Ok (ARPTargetHardwareAddress mac)
       else if key = ndSLL then Ok (NeighborDiscoverySourceLinkLayer mac)
       else if key = ndTLL then Ok (NeighborDiscoveryTargetLinkLayer mac)
       else Err (ErrNoMatched key v))"

text \<open>
  The loop \<^verbatim>\<open>for i, r := range value\<close> of \<^verbatim>\<open>parseCTState\<close> and \<^verbatim>\<open>parseTCPFlags\<close>: \<open>i\<close> is the byte
  index of the rune, \<open>buf\<close> the buffer, the result the appended strings.
\<close>

fun flag_loop :: "nat \<Rightarrow> (nat \<times> string) list \<Rightarrow> string \<Rightarrow> string list" where
  "flag_loop i [] buf = [buf]"
| "flag_loop i ((w, r) # rs) buf =
     (if i \<noteq> 0 \<and> i mod 4 = 0 then buf # flag_loop (i + w) rs r
      else flag_loop (i + w) rs (buf @ r))"

definition parseCTState :: "string \<Rightarrow> Match result" where
  "parseCTState v =
     (if length v mod 4 \<noteq> 0 then Err ErrFlagLength
      else Ok (ConnectionTrackingState (flag_loop 0 (runes v) [])))"

definition parseTCPFlags :: "string \<Rightarrow> Match result" where
  "parseTCPFlags v =
     (if length v mod 4 \<noteq> 0 then Err ErrFlagLength
      else Ok (TCPFlags (flag_loop 0 (runes v) [])))"

definition parseDataLinkVLAN :: "string \<Rightarrow> Match result" where
  "parseDataLinkVLAN v =
     (if \<not> HasPrefix v hexPrefix then and_then (Atoi v) (\<lambda>vlan. Ok (DataLinkVLAN vlan))
      else and_then (parseHexUint16 v) (\<lambda>vlan. Ok (DataLinkVLAN (uint vlan))))"

definition parseVLANTCI :: "string \<Rightarrow> Match result" where
  "parseVLANTCI v =
     and_then
       (each (\<lambda>s. if \<not> HasPrefix s hexPrefix then and_then (Atoi s) (\<lambda>n. Ok (word_of_int n))
                  else parseHexUint16 s) (Split v ''/''))
       (\<lambda>values.
          if length values = 1 then Ok (VLANTCI (values ! 0) 0)
          else if length values = 2 then Ok (VLANTCI (values ! 0) (values ! 1))
          else Err (ErrTooManyParts v))"

definition parseCTMark :: "string \<Rightarrow> Match result" where
  "parseCTMark v =
     and_then
       (each (\<lambda>s. if \<not> HasPrefix s hexPrefix then and_then (Atoi s) (\<lambda>n. Ok (word_of_int n))
                  else parseHexUint32 s) (Split v ''/''))
       (\<lambda>values.
          if length values = 1 then Ok (ConnectionTrackingMark (values ! 0) 0)
          else if length values = 2 then Ok (ConnectionTrackingMark (values ! 0) (values ! 1))
          else Err (ErrTooManyParts v))"

definition parseTunID :: "string \<Rightarrow> Match result" where
  "parseTunID v =
     and_then
       (each (\<lambda>s. if \<not> HasPrefix s hexPrefix then and_then (Atoi s) (\<lambda>n. Ok (word_of_int n))
                  else parseHexUint64 s) (Split v ''/''))
       (\<lambda>values.
          if length values = 1 then Ok (TunnelID (values ! 0))
          else if length values = 2 then Ok (TunnelIDWithMask (values ! 0) (values ! 1))
          else Err (ErrTooManyParts v))"

definition parseMatch :: "string \<Rightarrow> string \<Rightarrow> Match result" where
  "parseMatch key v =
     (if key \<in> {arpSHA, arpTHA, ndSLL, ndTLL} then parseMACMatch key v
      else if key \<in> {icmpType, nwProto} then parseIntMatch key v MaxUint8
      else if key = ctZone then parseIntMatch key v MaxUint16
      else if key \<in> {tpSRC, tpDST} then parsePort key v MaxUint16
      else if key = conjID then parseIntMatch key v MaxUint32
      else if key = arpSPA then Ok (ARPSourceProtocolAddress v)
      else if key = arpTPA then Ok (ARPTargetProtocolAddress v)
      else if key = ctState then parseCTState v
      else if key = tcpFlags then parseTCPFlags v
      else if key = dlSRC then Ok (DataLinkSource v)
      else if key = dlDST then Ok (DataLinkDestination v)
      else if key = dlType then and_then (parseHexUint16 v) (\<lambda>etherType. Ok (DataLinkType etherType))
      else if key = dlVLAN then parseDataLinkVLAN v
      else if key = ndTarget then Ok (NeighborDiscoveryTarget v)
      else if key = ipv6SRC then Ok (IPv6Source v)
      else if key = ipv6DST then Ok (IPv6Destination v)
      else if key = nwSRC then Ok (NetworkSource v)
      else if key = nwDST then Ok (NetworkDestination v)
      else if key = vlanTCI then parseVLANTCI v
      else if key = ctMark then parseCTMark v
      else if key = tunID then parseTunID v
      else Err (ErrNoMatchParser key v))"

section \<open>Parsing keeps the key and never panics\<close>

fun match_key :: "Match \<Rightarrow> string" where
  "match_key (dataLinkMatch sd _) = ''dl_'' @ sd"
| "match_key (dataLinkTypeMatch _) = dlType"
| "match_key (dataLinkVLANMatch _) = dlVLAN"
| "match_key (networkMatch sd _) = ''nw_'' @ sd"
| "match_key (conjunctionIDMatch _) = conjID"
| "match_key (networkProtocolMatch _) = nwProto"
| "match_key (ipv6Match sd _) = ''ipv6_'' @ sd"
| "match_key (icmpTypeMatch _) = icmpType"
| "match_key (neighborDiscoveryTargetMatch _) = ndTarget"
| "match_key (neighborDiscoveryLinkLayerMatch st _) = (if st = source then ndSLL else ndTLL)"
| "match_key (arpHardwareAddressMatch st _) = (if st = source then arpSHA else arpTHA)"
| "match_key (arpProtocolAddressMatch st _) = (if st = source then arpSPA else arpTPA)"
| "match_key (transportPortMatch sd _ _) = ''tp_'' @ sd"
| "match_key (vlanTCIMatch _ _) = vlanTCI"
| "match_key (connectionTrackingMarkMatch _ _) = ctMark"
| "match_key (connectionTrackingZoneMatch _) = ctZone"
| "match_key (connectionTrackingMatch _) = ctState"
| "match_key (tcpFlagsMatch _) = tcpFlags"
| "match_key (tunnelIDMatch _ _) = tunID"

text \<open>Values the exported constructors can build: a direction is one of the two constants.\<close>

fun directed :: "Match \<Rightarrow> bool" where
  "directed (dataLinkMatch sd _) = (sd = source \<or> sd = destination)"
| "directed (networkMatch sd _) = (sd = source \<or> sd = destination)"
| "directed (ipv6Match sd _) = (sd = source \<or> sd = destination)"
| "directed (neighborDiscoveryLinkLayerMatch st _) = (st = source \<or> st = destination)"
| "directed (arpHardwareAddressMatch st _) = (st = source \<or> st = destination)"
| "directed (arpProtocolAddressMatch st _) = (st = source \<or> st = destination)"
| "directed (transportPortMatch sd _ _) = (sd = source \<or> sd = destination)"
| "directed _ = True"

lemmas key_parsers = parseMACMatch_def parseIntMatch_def parsePort_def parseCTState_def
  parseTCPFlags_def parseDataLinkVLAN_def parseVLANTCI_def parseCTMark_def parseTunID_def

lemmas hex_parsers = parseHexUint16_def parseHexUint32_def parseHexUint64_def

lemma hex_parsers_no_panic [simp]:
  "parseHexUint16 s \<noteq> Panic" "parseHexUint32 s \<noteq> Panic" "parseHexUint64 s \<noteq> Panic"
  by (auto simp: hex_parsers and_then_eq_Panic)

lemma parseClampInt_no_panic [simp]: "parseClampInt s mx \<noteq> Panic"
  by (auto simp: parseClampInt_def and_then_eq_Panic split: if_splits)

lemma each_panic: "each f xs = Panic \<Longrightarrow> \<exists>x \<in> set xs. f x = Panic"
  using each_no_panic by metis

lemma key_parsers_no_panic:
  "parseMACMatch key v \<noteq> Panic" "parseIntMatch key v mx \<noteq> Panic" "parsePort key v mx \<noteq> Panic"
  "parseCTState v \<noteq> Panic" "parseTCPFlags v \<noteq> Panic" "parseDataLinkVLAN v \<noteq> Panic"
  "parseVLANTCI v \<noteq> Panic" "parseCTMark v \<noteq> Panic" "parseTunID v \<noteq> Panic"
  by (auto simp: key_parsers and_then_eq_Panic Let_def dest!: each_panic split: if_splits)

lemma parseMatch_no_panic: "parseMatch key v \<noteq> Panic"
  by (auto simp: parseMatch_def key_parsers_no_panic and_then_eq_Panic)

lemma key_parsers_key:
  "parseMACMatch key v = Ok m \<Longrightarrow> match_key m = key \<and> directed m"
  "parseIntMatch key v mx = Ok m \<Longrightarrow> match_key m = key \<and> directed m"
  "parsePort key v mx = Ok m \<Longrightarrow> match_key m = key \<and> directed m"
  "parseCTState v = Ok m \<Longrightarrow> match_key m = ctState \<and> directed m"
  "parseTCPFlags v = Ok m \<Longrightarrow> match_key m = tcpFlags \<and> directed m"
  "parseDataLinkVLAN v = Ok m \<Longrightarrow> match_key m = dlVLAN \<and> directed m"
  "parseVLANTCI v = Ok m \<Longrightarrow> match_key m = vlanTCI \<and> directed m"
  "parseCTMark v = Ok m \<Longrightarrow> match_key m = ctMark \<and> directed m"
  "parseTunID v = Ok m \<Longrightarrow> match_key m = tunID \<and> directed m"
  by (auto simp: key_parsers match_constructors match_names Let_def split: if_splits)

lemma parseMatch_key: "parseMatch key v = Ok m \<Longrightarrow> match_key m = key \<and> directed m"
  unfolding parseMatch_def
  by (auto dest: key_parsers_key split: if_splits)
     (auto simp: match_constructors match_names)

section \<open>Round trip\<close>

lemma hexPrefix_fmt_0x [simp]: "HasPrefix (fmt_0x k w) hexPrefix"
  by (simp add: fmt_0x_def hexPrefix_def)

lemma ParseUint_fmt_0x:
  assumes "LENGTH('a) \<le> bits"
  shows "ParseUint (TrimPrefix (fmt_0x k (w :: 'a::len word)) hexPrefix) 16 bits = Ok (unat w)"
proof -
  have "unat w < 2 ^ LENGTH('a)" by (rule unsigned_less)
  also have "\<dots> \<le> 2 ^ bits" using assms by (rule power_increasing) simp
  finally have "unat w < 2 ^ bits" .
  moreover have "0 < bits" using assms len_gt_0 [where 'a = 'a] by linarith
  ultimately show ?thesis
    unfolding fmt_0x_def hexPrefix_def TrimPrefix_append by (intro ParseUint_zero_pad) auto
qed

lemma hex_parsers_fmt_0x [codec_simps]:
  "parseHexUint16 (fmt_0x k (a :: 16 word)) = Ok a"
  "parseHexUint32 (fmt_0x k (b :: 32 word)) = Ok b"
  "parseHexUint64 (fmt_0x k (c :: 64 word)) = Ok c"
  "parseHexUint64 (fmt_0x k a) = Ok (ucast a)"
  by (simp_all add: hex_parsers ParseUint_fmt_0x)

lemma Atoi_fmt_d [codec_simps]:
  assumes "LENGTH('a) \<le> 32"
  shows "Atoi (fmt_d (w :: 'a::len word)) = Ok (uint w)"
proof -
  have "uint w < 2 ^ LENGTH('a)" by (rule unsigned_less)
  also have "\<dots> \<le> 2 ^ 32" using assms by (rule power_increasing) simp
  finally have "uint w < 2 ^ 32" .
  then have "int64 (uint w)" using uint_ge_0 [of w] order_trans [of "- (2 ^ 63)" 0 "uint w"] unfolding int64_def by simp
  moreover have "fmt_d w = Itoa (uint w)" by (simp add: fmt_d_def Itoa_def)
  ultimately show ?thesis by (simp add: Atoi_def ParseInt_Itoa)
qed

lemma slash_notin [simp]: "CHR ''/'' \<notin> set (fmt_0x k w)" "CHR ''/'' \<notin> set (fmt_d w)"
  using number_texts number_chars_safe by blast+

lemma Split_slash [simp]:
  "Split (fmt_0x k a) ''/'' = [fmt_0x k a]" "Split (fmt_d a) ''/'' = [fmt_d a]"
  "Split (fmt_0x k a @ CHR ''/'' # fmt_0x j b) ''/'' = [fmt_0x k a, fmt_0x j b]"
  by (simp_all add: Split_chr_notin Split_chr_append)

lemma flag_loop_step:
  assumes "i mod 4 = 0"
  shows "flag_loop i ((1, [a]) # (1, [b]) # (1, [c]) # (1, [d]) # rs) buf =
    (if i \<noteq> 0 then buf # flag_loop (i + 4) rs [a, b, c, d]
     else flag_loop (i + 4) rs (buf @ [a, b, c, d]))"
proof -
  obtain j where i: "i = 4 * j" using assms by (auto simp: mod_eq_0_iff_dvd)
  have "(4 * j + 1) mod 4 \<noteq> 0" "(4 * j + 1 + 1) mod 4 \<noteq> 0" "(4 * j + 1 + 1 + 1) mod 4 \<noteq> 0"
    by presburger+
  moreover have "4 * j + 1 + 1 + 1 + 1 = 4 * j + 4" by simp
  ultimately show ?thesis unfolding i flag_loop.simps by (simp only: append_Cons append_Nil append_assoc) simp
qed

lemma length_4_flags: "length f = 4 \<Longrightarrow> \<exists>a b c d. f = [a, b, c, d]"
  by (metis length_4_cases)

lemma flag_loop_flags:
  assumes "\<forall>f \<in> set fs. length f = 4" "i mod 4 = 0" "i \<noteq> 0"
  shows "flag_loop i (map (\<lambda>c. (1, [c])) (concat fs)) buf = buf # fs"
  using assms
proof (induction fs arbitrary: i buf)
  case (Cons f fs)
  then obtain a b c d where f: "f = [a, b, c, d]" using length_4_flags by fastforce
  have "flag_loop (i + 4) (map (\<lambda>c. (1, [c])) (concat fs)) f = f # fs"
    using Cons by simp
  then show ?case using flag_loop_step [OF Cons.prems(2)] Cons.prems(3) by (simp add: f)
qed simp

lemma flag_loop_concat:
  assumes "\<forall>f \<in> set fs. length f = 4 \<and> list_all ascii f"
  shows "flag_loop 0 (runes (concat fs)) [] = (if fs = [] then [[]] else fs)"
proof (cases fs)
  case (Cons f fs')
  then obtain a b c d where f: "f = [a, b, c, d]" using length_4_flags assms by fastforce
  have "list_all ascii (concat fs)" using assms by (auto simp: list_all_iff)
  then have "runes (concat fs) = map (\<lambda>c. (1, [c])) (concat fs)" by (rule runes_ascii)
  moreover have "flag_loop 4 (map (\<lambda>c. (1, [c])) (concat fs')) f = f # fs'"
    using assms Cons by (intro flag_loop_flags) auto
  ultimately show ?thesis
    using flag_loop_step [of 0 a b c d _ "[]"] by (simp add: Cons f del: flag_loop.simps)
qed simp

lemma length_concat_4: "\<forall>f \<in> set fs. length f = 4 \<Longrightarrow> length (concat fs) mod 4 = 0"
  by (induction fs) auto


text \<open>
  A match whose text can be read back: its direction is one of the two constants, and
  connection-tracking states and TCP flags are what \<^verbatim>\<open>SetState\<close> and its siblings print for
  three-letter names. The parser returns the \<open>normalize\<close>d match: an address text is replaced
  by the text it is printed as, and an empty list of flags by the list of one empty flag.
\<close>

definition flag_text :: "string \<Rightarrow> bool" where
  "flag_text f \<longleftrightarrow> length f = 4 \<and> list_all plain f"

fun wf_match :: "Match \<Rightarrow> bool" where
  "wf_match (connectionTrackingMatch state) = list_all flag_text state"
| "wf_match (tcpFlagsMatch flags) = list_all flag_text flags"
| "wf_match m = directed m"

definition match_value :: "Match \<Rightarrow> string" where
  "match_value m =
     (case Match_MarshalText m of Ok t \<Rightarrow> drop (length (match_key m) + 1) t | _ \<Rightarrow> [])"

fun normalize :: "Match \<Rightarrow> Match" where
  "normalize (dataLinkMatch sd addr) = dataLinkMatch sd (match_value (dataLinkMatch sd addr))"
| "normalize (networkMatch sd ip) = networkMatch sd (match_value (networkMatch sd ip))"
| "normalize (ipv6Match sd ip) = ipv6Match sd (match_value (ipv6Match sd ip))"
| "normalize (neighborDiscoveryTargetMatch ip) =
     neighborDiscoveryTargetMatch (match_value (neighborDiscoveryTargetMatch ip))"
| "normalize (arpProtocolAddressMatch st ip) =
     arpProtocolAddressMatch st (match_value (arpProtocolAddressMatch st ip))"
| "normalize (connectionTrackingMatch state) =
     connectionTrackingMatch (if state = [] then [[]] else state)"
| "normalize (tcpFlagsMatch flags) = tcpFlagsMatch (if flags = [] then [[]] else flags)"
| "normalize m = m"

lemma flag_texts_ascii: "list_all flag_text fs \<Longrightarrow> \<forall>f \<in> set fs. length f = 4 \<and> list_all ascii f"
  by (auto simp: list_all_iff flag_text_def plain_def graphic_ascii)

lemma ethernet_mac: "length a = ethernetAddrLen \<Longrightarrow> ParseMAC (HardwareAddrString a) = Ok a"
  by (rule ParseMAC_String) (simp add: ethernetAddrLen_def mac_sizes_def)

lemma drop_key_value [simp]: "drop (Suc (length k)) (key_value k v) = v"
  by (simp add: key_value_def)

lemma key_value_append: "key_value (a @ b) v = a @ key_value b v"
  by (simp add: key_value_def)

text \<open>One lemma per family of values that are kept as text.\<close>

lemma ipv4_marshal_cases:
  assumes "matchIPv4AddressOrCIDR key ip = Ok t"
  obtains v where "t = key_value key v" "matchIPv4AddressOrCIDR key v = Ok t" "list_all plain v"
proof (cases "ParseCIDR ip")
  case None
  then obtain a where a: "ParseIP ip = Some a" "To4 a \<noteq> None" "t = key_value key (IPString a)"
    using assms by (auto simp: matchIPv4AddressOrCIDR_def split: option.splits if_splits)
  have len: "length a = 16" using ParseIP_length a(1) .
  show thesis
    using that [OF a(3)] IPString_addr [OF len] a
    by (simp add: matchIPv4AddressOrCIDR_def ParseCIDR_no_slash ParseIP_IPString [OF len] addr_plain)
next
  case (Some a)
  then have "t = key_value key ip" "list_all plain ip"
    using assms ParseCIDR_accepts [OF Some] addr_plain
    by (auto simp: matchIPv4AddressOrCIDR_def split: if_splits)
  then show thesis using that assms by blast
qed

lemma ipv6_marshal_cases:
  assumes "matchIPv6AddressOrCIDR key ip = Ok t"
  obtains v where "t = key_value key v" "matchIPv6AddressOrCIDR key v = Ok t" "list_all plain v"
proof (cases "ParseCIDR ip")
  case None
  then obtain a where a: "ParseIP ip = Some a" "To4 a = None" "To16 a \<noteq> None" "t = key_value key (IPString a)"
    using assms by (auto simp: matchIPv6AddressOrCIDR_def split: option.splits if_splits)
  have len: "length a = 16" using ParseIP_length a(1) .
  show thesis
    using that [OF a(4)] IPString_addr [OF len] a
    by (simp add: matchIPv6AddressOrCIDR_def ParseCIDR_no_slash ParseIP_IPString [OF len] addr_plain)
next
  case (Some a)
  then have "t = key_value key ip" "list_all plain ip"
    using assms ParseCIDR_accepts [OF Some] addr_plain
    by (auto simp: matchIPv6AddressOrCIDR_def split: if_splits)
  then show thesis using that assms by blast
qed

lemma SplitN2_mac:
  "SplitN2 (HardwareAddrString a) ''/'' = [HardwareAddrString a]"
  "SplitN2 (HardwareAddrString a @ CHR ''/'' # s) ''/'' = [HardwareAddrString a, s]"
proof -
  have n: "CHR ''/'' \<notin> set (HardwareAddrString a)"
    using set_HardwareAddrString [of a] by (auto simp: hex_digits_def)
  then show "SplitN2 (HardwareAddrString a) ''/'' = [HardwareAddrString a]"
    "SplitN2 (HardwareAddrString a @ CHR ''/'' # s) ''/'' = [HardwareAddrString a, s]"
    by (simp_all add: SplitN2_def Index_chr_append)
qed

lemma data_link_marshal_cases:
  assumes "dataLinkMatch_MarshalText sd addr = Ok t"
  obtains v where "t = key_value (''dl_'' @ sd) v" "dataLinkMatch_MarshalText sd v = Ok t"
    "list_all plain v"
proof -
  from assms obtain hw where hw: "length hw = ethernetAddrLen"
    and t: "t = key_value (''dl_'' @ sd) (HardwareAddrString hw) \<or>
      (\<exists>wc. length wc = ethernetAddrLen \<and>
        t = key_value (''dl_'' @ sd) (HardwareAddrString hw @ ''/'' @ HardwareAddrString wc))"
    by (auto simp: dataLinkMatch_MarshalText_def Let_def split: if_splits)
  have s: "plain CHR ''/''" by (simp add: plain_def graphic_def)
  from t show thesis
  proof
    assume "t = key_value (''dl_'' @ sd) (HardwareAddrString hw)"
    then show thesis using that [of "HardwareAddrString hw"] hw mac_plain
      by (simp add: dataLinkMatch_MarshalText_def SplitN2_mac ethernet_mac)
  next
    assume "\<exists>wc. length wc = ethernetAddrLen \<and>
      t = key_value (''dl_'' @ sd) (HardwareAddrString hw @ ''/'' @ HardwareAddrString wc)"
    then obtain wc where "length wc = ethernetAddrLen"
      "t = key_value (''dl_'' @ sd) (HardwareAddrString hw @ ''/'' @ HardwareAddrString wc)" by blast
    then show thesis
      using that [of "HardwareAddrString hw @ ''/'' @ HardwareAddrString wc"] hw mac_plain s
      by (simp add: dataLinkMatch_MarshalText_def SplitN2_mac ethernet_mac)
  qed
qed


lemma parseMatch_keys:
  "parseMatch ''dl_src'' v = Ok (dataLinkMatch ''src'' v)"
  "parseMatch ''dl_dst'' v = Ok (dataLinkMatch ''dst'' v)"
  "parseMatch ''nw_src'' v = Ok (networkMatch ''src'' v)"
  "parseMatch ''nw_dst'' v = Ok (networkMatch ''dst'' v)"
  "parseMatch ''ipv6_src'' v = Ok (ipv6Match ''src'' v)"
  "parseMatch ''ipv6_dst'' v = Ok (ipv6Match ''dst'' v)"
  "parseMatch ''arp_spa'' v = Ok (arpProtocolAddressMatch ''src'' v)"
  "parseMatch ''arp_tpa'' v = Ok (arpProtocolAddressMatch ''dst'' v)"
  "parseMatch ''nd_target'' v = Ok (neighborDiscoveryTargetMatch v)"
  "parseMatch ''tp_src'' v = parsePort ''tp_src'' v MaxUint16"
  "parseMatch ''tp_dst'' v = parsePort ''tp_dst'' v MaxUint16"
  "parseMatch ''arp_sha'' v = parseMACMatch ''arp_sha'' v"
  "parseMatch ''arp_tha'' v = parseMACMatch ''arp_tha'' v"
  "parseMatch ''nd_sll'' v = parseMACMatch ''nd_sll'' v"
  "parseMatch ''nd_tll'' v = parseMACMatch ''nd_tll'' v"
  by (simp_all add: parseMatch_def match_names match_constructors)

lemma parseMatch_keys2:
  "parseMatch ''conj_id'' v = parseIntMatch ''conj_id'' v MaxUint32"
  "parseMatch ''nw_proto'' v = parseIntMatch ''nw_proto'' v MaxUint8"
  "parseMatch ''icmp_type'' v = parseIntMatch ''icmp_type'' v MaxUint8"
  "parseMatch ''ct_zone'' v = parseIntMatch ''ct_zone'' v MaxUint16"
  "parseMatch ''ct_state'' v = parseCTState v" "parseMatch ''tcp_flags'' v = parseTCPFlags v"
  "parseMatch ''dl_vlan'' v = parseDataLinkVLAN v" "parseMatch ''vlan_tci'' v = parseVLANTCI v"
  "parseMatch ''ct_mark'' v = parseCTMark v" "parseMatch ''tun_id'' v = parseTunID v"
  "parseMatch ''dl_type'' v = and_then (parseHexUint16 v) (\<lambda>etherType. Ok (DataLinkType etherType))"
  by (simp_all add: parseMatch_def match_names)

definition reads_back :: "Match \<Rightarrow> string \<Rightarrow> bool" where
  "reads_back m t \<longleftrightarrow> (let v = match_value m in
     t = key_value (match_key m) v \<and> list_all plain v \<and>
     parseMatch (match_key m) v = Ok (normalize m) \<and> Match_MarshalText (normalize m) = Ok t)"

lemma reads_backI:
  assumes "Match_MarshalText m = Ok t" "t = key_value (match_key m) v" "list_all plain v"
    "parseMatch (match_key m) v = Ok (normalize m)" "Match_MarshalText (normalize m) = Ok t"
  shows "reads_back m t"
  using assms by (simp add: reads_back_def match_value_def)

lemma match_value_eq: "Match_MarshalText m = Ok (key_value (match_key m) v) \<Longrightarrow> match_value m = v"
  by (simp add: match_value_def)

lemma plain_slash [simp]: "plain CHR ''/''" by (simp add: plain_def graphic_def)

lemma uint_le_max:
  "uint (a :: 8 word) \<le> MaxUint8" "uint (b :: 16 word) \<le> MaxUint16" "uint (c :: 32 word) \<le> MaxUint32"
  using unsigned_less [of a, where 'a = int] unsigned_less [of b, where 'a = int]
    unsigned_less [of c, where 'a = int]
  by (simp_all add: MaxUint8_def MaxUint16_def MaxUint32_def)

lemma clamp_fmt_d:
  "parseClampInt (fmt_d (a :: 8 word)) MaxUint8 = Ok (uint a)"
  "parseClampInt (fmt_d (b :: 16 word)) MaxUint16 = Ok (uint b)"
  "parseClampInt (fmt_d (c :: 32 word)) MaxUint32 = Ok (uint c)"
  using uint_le_max(1) [of a] uint_le_max(2) [of b] uint_le_max(3) [of c]
  by (simp_all add: parseClampInt_def Atoi_fmt_d not_less)

lemmas number_matches = match_marshalers parseMatch_keys parseMatch_keys2 key_parsers
  clamp_fmt_d match_constructors match_names number_plain hex_parsers_fmt_0x matchTransportPort_def

lemma reads_back_int:
  assumes "m = conjunctionIDMatch a \<or> m = networkProtocolMatch b \<or> m = icmpTypeMatch c \<or>
      m = connectionTrackingZoneMatch d \<or> m = dataLinkTypeMatch e"
    "Match_MarshalText m = Ok t"
  shows "reads_back m t"
  using assms by (elim disjE) (auto intro!: reads_backI simp: number_matches)

lemma reads_back_masked:
  assumes "m = vlanTCIMatch a b \<or> m = connectionTrackingMarkMatch c d \<or> m = tunnelIDMatch e f"
    "Match_MarshalText m = Ok t"
  shows "reads_back m t"
  using assms
  by (elim disjE)
    (auto intro!: reads_backI simp: number_matches split: if_splits)

lemma word16_le_max: "\<not> word_of_int MaxUint16 < (ucast (a :: 16 word) :: 64 word)"
proof -
  have "uint (ucast a :: 64 word) = uint a" by (rule uint_up_ucast) (simp add: is_up)
  moreover have "uint a < 65536" using unsigned_less [of a, where 'a = int] by simp
  ultimately show ?thesis by (simp add: MaxUint16_def word_less_def)
qed

lemma ucast_16_64 [simp]: "ucast (ucast (a :: 16 word) :: 64 word) = a"
  by (rule ucast_up_ucast_id) (simp add: is_up)

lemma reads_back_port:
  assumes "sd = source \<or> sd = destination" "Match_MarshalText (transportPortMatch sd p k) = Ok t"
  shows "reads_back (transportPortMatch sd p k) t"
  using assms
  by (elim disjE)
    (auto intro!: reads_backI simp: number_matches word16_le_max split: if_splits)


lemma reads_back_vlan:
  assumes "Match_MarshalText (dataLinkVLANMatch vid) = Ok t"
  shows "reads_back (dataLinkVLANMatch vid) t"
proof (cases "vid = VLANNone")
  case True
  have "''0xffff'' = fmt_0x 4 (0xffff :: 16 word)"
    by (simp add: fmt_0x_def zero_pad_def FormatUint.simps digit_char_def)
  then have "parseHexUint16 ''0xffff'' = Ok 0xffff" by (simp only: hex_parsers_fmt_0x)
  then show ?thesis using assms True
    by (auto intro!: reads_backI simp: number_matches VLANNone_def hexPrefix_def plain_def graphic_def)
next
  case False
  then have v: "validVLANVID vid" "t = key_value dlVLAN (Itoa vid)"
    using assms by (auto simp: match_marshalers split: if_splits)
  have "CHR ''x'' \<notin> set (Itoa vid)" using set_Itoa [of vid] by (auto simp: dec_digits_def)
  then have "\<not> HasPrefix (Itoa vid) ''0x''" by (auto simp: HasPrefix_iff)
  moreover have "Atoi (Itoa vid) = Ok vid"
    using v(1) by (simp add: Atoi_def validVLANVID_def int64_def ParseInt_Itoa)
  ultimately show ?thesis using assms v
    by (auto intro!: reads_backI simp: number_matches hexPrefix_def)
qed

lemma reads_back_mac:
  assumes "st = source \<or> st = destination"
    "m = neighborDiscoveryLinkLayerMatch st a \<or> m = arpHardwareAddressMatch st a"
    "Match_MarshalText m = Ok t"
  shows "reads_back m t"
  using assms(3,1,2) mac_plain [of a] ethernet_mac [of a]
  by (elim disjE)
    (auto intro!: reads_backI simp: number_matches matchEthernetHardwareAddress_def split: if_splits)

lemma reads_back_flags:
  assumes "m = connectionTrackingMatch fs \<or> m = tcpFlagsMatch fs" "list_all flag_text fs"
    "Match_MarshalText m = Ok t"
  shows "reads_back m t"
proof -
  have "list_all plain (concat fs)" using assms(2) by (auto simp: list_all_iff flag_text_def)
  then show ?thesis
    using assms flag_loop_concat [OF flag_texts_ascii] length_concat_4 [of fs] flag_texts_ascii [of fs]
    by (elim disjE) (auto intro!: reads_backI simp: number_matches)
qed

lemma reads_back_ipv4:
  assumes "sd = source \<or> sd = destination"
    "m = networkMatch sd ip \<or> m = arpProtocolAddressMatch sd ip" "Match_MarshalText m = Ok t"
  shows "reads_back m t"
proof -
  have m: "matchIPv4AddressOrCIDR (match_key m) ip = Ok t"
    using assms by (auto simp: match_marshalers)
  obtain v where v: "t = key_value (match_key m) v" "matchIPv4AddressOrCIDR (match_key m) v = Ok t"
    "list_all plain v" using m by (rule ipv4_marshal_cases)
  have "match_value m = v" using assms(3) v(1) by (intro match_value_eq) simp
  then show ?thesis
    by (intro reads_backI [OF assms(3) v(1) v(3)])
      (use assms(1,2) v(2) in \<open>auto simp: match_names parseMatch_keys match_marshalers\<close>)
qed

lemma reads_back_ipv6:
  assumes "m = ipv6Match sd ip \<and> (sd = source \<or> sd = destination) \<or> m = neighborDiscoveryTargetMatch ip"
    "Match_MarshalText m = Ok t"
  shows "reads_back m t"
proof -
  have m: "matchIPv6AddressOrCIDR (match_key m) ip = Ok t"
    using assms by (auto simp: match_marshalers)
  obtain v where v: "t = key_value (match_key m) v" "matchIPv6AddressOrCIDR (match_key m) v = Ok t"
    "list_all plain v" using m by (rule ipv6_marshal_cases)
  have "match_value m = v" using assms(2) v(1) by (intro match_value_eq) simp
  then show ?thesis
    by (intro reads_backI [OF assms(2) v(1) v(3)])
      (use assms(1) v(2) in \<open>auto simp: match_names parseMatch_keys match_marshalers\<close>)
qed

lemma reads_back_data_link:
  assumes "sd = source \<or> sd = destination" "Match_MarshalText (dataLinkMatch sd addr) = Ok t"
  shows "reads_back (dataLinkMatch sd addr) t"
proof -
  let ?m = "dataLinkMatch sd addr"
  have m: "dataLinkMatch_MarshalText sd addr = Ok t" using assms(2) by simp
  obtain v where v: "t = key_value (''dl_'' @ sd) v" "dataLinkMatch_MarshalText sd v = Ok t"
    "list_all plain v" using m by (rule data_link_marshal_cases)
  have k: "t = key_value (match_key ?m) v" using v(1) by simp
  have "match_value ?m = v" using assms(2) k by (intro match_value_eq) simp
  then show ?thesis
    by (intro reads_backI [OF assms(2) k v(3)])
      (use assms(1) v(2) in \<open>auto simp: match_names parseMatch_keys\<close>)
qed

lemma marshal_reads_back: "wf_match m \<Longrightarrow> Match_MarshalText m = Ok t \<Longrightarrow> reads_back m t"
  by (cases m)
    (simp_all add: reads_back_data_link reads_back_vlan reads_back_mac reads_back_flags reads_back_ipv4
      reads_back_ipv6 reads_back_port reads_back_masked reads_back_int)


section \<open>The interfaces this component provides\<close>

lemma Match_MarshalText_no_panic: "Match_MarshalText m \<noteq> Panic"
  by (cases m)
    (auto simp: match_marshalers matchTransportPort_def matchEthernetHardwareAddress_def
      matchIPv4AddressOrCIDR_def matchIPv6AddressOrCIDR_def and_then_eq_Panic Let_def
      split: option.splits if_splits)

interpretation match_text: text_marshaler Match_MarshalText
  by unfold_locales (rule Match_MarshalText_no_panic)

section \<open>Properties\<close>

text \<open>
  C5: reading back what a match is marshaled to. The text is \<open>key=value\<close> without white
  space, comma or a second equals sign; \<^verbatim>\<open>parseMatch\<close> accepts the two halves and returns the
  normalized match, and marshaling that again yields the same text.
\<close>

theorem match_round_trip:
  assumes "wf_match m" "Match_MarshalText m = Ok t"
  shows "t = key_value (match_key m) (match_value m) \<and> list_all plain (match_value m) \<and>
    parseMatch (match_key m) (match_value m) = Ok (normalize m) \<and>
    Match_MarshalText (normalize m) = Ok t"
  using marshal_reads_back [OF assms] by (simp add: reads_back_def Let_def)

theorem match_round_trip_witness:
  "parseMatch ''nw_src'' ''10.0.0.1'' = Ok (NetworkSource ''10.0.0.1'') \<and>
   parseMatch ''tp_dst'' ''0x0010/0xfff0'' = Ok (TransportDestinationMaskedPort 0x10 0xfff0)"
proof
  have w: "wf_match (NetworkSource ''010.0.0.1'')" by (simp add: NetworkSource_def)
  have m: "Match_MarshalText (NetworkSource ''010.0.0.1'') = Ok ''nw_src=10.0.0.1''"
    by code_simp
  then have "match_value (NetworkSource ''010.0.0.1'') = ''10.0.0.1''"
    by (simp add: match_value_def NetworkSource_def match_names)
  with match_round_trip [OF w m] show "parseMatch ''nw_src'' ''10.0.0.1'' = Ok (NetworkSource ''10.0.0.1'')"
    by (simp add: NetworkSource_def match_names)
  let ?p = "TransportDestinationMaskedPort 0x10 0xfff0"
  have w: "wf_match ?p" by (simp add: match_constructors)
  have m: "Match_MarshalText ?p = Ok ''tp_dst=0x0010/0xfff0''"
    by code_simp
  then have "match_value ?p = ''0x0010/0xfff0''"
    by (simp add: match_value_def match_constructors match_names)
  with match_round_trip [OF w m] show "parseMatch ''tp_dst'' ''0x0010/0xfff0'' = Ok ?p"
    by (simp add: match_constructors match_names)
qed

text \<open>
  \<^verbatim>\<open>parseMatch\<close> never panics (in particular \<^verbatim>\<open>values[1]\<close> is always in range); what it returns
  has the key that was asked for and one of the two directions; an unknown key is an error.
\<close>

theorem parseMatch_total:
  "parseMatch key v \<noteq> Panic \<and>
   (\<forall>m. parseMatch key v = Ok m \<longrightarrow> match_key m = key \<and> directed m) \<and>
   (key \<notin> {arpSHA, arpSPA, arpTHA, arpTPA, conjID, ctMark, ctState, ctZone, dlSRC, dlDST, dlType,
      dlVLAN, icmpType, ipv6DST, ipv6SRC, ndSLL, ndTLL, ndTarget, nwDST, nwProto, nwSRC, tcpFlags,
      tpDST, tpSRC, tunID, vlanTCI} \<longrightarrow> parseMatch key v = Err (ErrNoMatchParser key v))"
  using parseMatch_no_panic [of key v] parseMatch_key [of key v] by (simp add: parseMatch_def)

theorem parseMatch_total_witness:
  "parseMatch ''metadata'' ''1'' = Err (ErrNoMatchParser ''metadata'' ''1'')"
  using parseMatch_total [of "''metadata''" "''1''"] by (simp add: match_names)

text \<open>
  C32: the bounds of the numeric fields. A decimal number above the maximum of the field (8 bits for the ICMP type and the
  protocol, 16 for the zone and the ports, 32 for a conjunction) is rejected; every other number is accepted, a negative
  one too, which wraps to the width of the field. A hexadecimal EtherType may have up to 32 bits, of which the low 16 are
  kept.
\<close>

theorem parseMatch_wraps:
  assumes "int64 i" "LENGTH('a::len) \<le> 32"
  shows "parseMatch icmpType (Itoa i) =
      (if i \<le> MaxUint8 then Ok (icmpTypeMatch (word_of_int i)) else Err (ErrIntTooLarge i MaxUint8)) \<and>
    parseMatch nwProto (Itoa i) =
      (if i \<le> MaxUint8 then Ok (networkProtocolMatch (word_of_int i)) else Err (ErrIntTooLarge i MaxUint8)) \<and>
    parseMatch ctZone (Itoa i) =
      (if i \<le> MaxUint16 then Ok (connectionTrackingZoneMatch (word_of_int i)) else Err (ErrIntTooLarge i MaxUint16)) \<and>
    parseMatch tpSRC (Itoa i) =
      (if i \<le> MaxUint16 then Ok (transportPortMatch source (word_of_int i) 0) else Err (ErrIntTooLarge i MaxUint16)) \<and>
    parseMatch tpDST (Itoa i) =
      (if i \<le> MaxUint16 then Ok (transportPortMatch destination (word_of_int i) 0) else Err (ErrIntTooLarge i MaxUint16)) \<and>
    parseMatch conjID (Itoa i) =
      (if i \<le> MaxUint32 then Ok (conjunctionIDMatch (word_of_int i)) else Err (ErrIntTooLarge i MaxUint32)) \<and>
    parseMatch dlType (fmt_0x 0 (w :: 'a word)) = Ok (dataLinkTypeMatch (ucast w))"
proof -
  have c: "parseClampInt (Itoa i) mx = (if i \<le> mx then Ok i else Err (ErrIntTooLarge i mx))" for mx
    using assms(1) by (simp add: parseClampInt_def Atoi_def ParseInt_Itoa)
  have s: "Split (Itoa i) ''/'' = [Itoa i]"
    using number_texts(3) [of i] number_chars_safe(3) by (intro Split_chr_notin) blast
  have p: "ucast (word_of_int i :: 64 word) = (word_of_int i :: 16 word)"
    by (simp add: unsigned_ucast_eq ucast_down_wi is_down)
  show ?thesis
    using assms(2) by (simp add: number_matches parseHexUint16_def ParseUint_fmt_0x s p c)
qed

theorem parseMatch_wraps_witness:
  "parseMatch icmpType ''-1'' = Ok (icmpTypeMatch 255) \<and> parseMatch tpDST ''65536'' = Err (ErrIntTooLarge 65536 65535) \<and>
   parseMatch dlType ''0x10800'' = Ok (dataLinkTypeMatch 0x800)"
proof -
  have "Itoa (- 1) = ''-1''" "Itoa 65536 = ''65536''" "fmt_0x 0 (0x10800 :: 32 word) = ''0x10800''"
    by (simp_all add: Itoa_def fmt_0x_def zero_pad_def FormatUint.simps digit_char_def)
  moreover have "(word_of_int (- 1) :: 8 word) = 255" "ucast (0x10800 :: 32 word) = (0x800 :: 16 word)"
    by simp_all
  ultimately show ?thesis
    using parseMatch_wraps [of "- 1" "0x10800 :: 32 word"] parseMatch_wraps [of 65536 "0x10800 :: 32 word"]
    by (simp add: int64_def MaxUint8_def MaxUint16_def)
qed

text \<open>The ports a match selects.\<close>

fun selects :: "Match \<Rightarrow> 16 word \<Rightarrow> bool" where
  "selects (transportPortMatch _ port msk) p =
     (if msk = 0 then p = port else br_matches \<lparr>Value = port, Mask = msk\<rparr> p)"
| "selects _ _ = False"

text \<open>
  C18: a transport port range end to end. For a non-empty range of non-zero ports, the matches
  of \<^verbatim>\<open>MaskedPorts\<close> carry the direction of the range, each is printed as \<open>value/mask\<close> and read
  back unchanged by \<^verbatim>\<open>parseMatch\<close>, and together they select exactly the ports of the range.
\<close>

theorem MaskedPorts_end_to_end:
  assumes "0 < startPort pr" "startPort pr \<le> endPort pr"
    "pr_srcdst pr = source \<or> pr_srcdst pr = destination"
  shows "\<exists>ms. MaskedPorts pr = Ok ms \<and>
    (\<forall>p. (\<exists>m \<in> set ms. selects m p) \<longleftrightarrow> startPort pr \<le> p \<and> p \<le> endPort pr) \<and>
    (\<forall>m \<in> set ms. \<exists>v. Match_MarshalText m = Ok (key_value (''tp_'' @ pr_srcdst pr) v) \<and>
       parseMatch (''tp_'' @ pr_srcdst pr) v = Ok m)"
proof -
  obtain bs where bs: "BitwiseMatch \<lparr>Start = startPort pr, End = endPort pr\<rparr> = Ok bs"
    using assms bitwise.split_tiles by blast
  let ?mk = "\<lambda>b :: BitRange. transportPortMatch (pr_srcdst pr) (Value b) (Mask b)"
  have masks: "\<forall>b \<in> set bs. Mask b \<noteq> 0" using bitwise.split_masks [OF bs] by blast
  have sel: "selects (?mk b) p \<longleftrightarrow> br_matches b p" if "b \<in> set bs" for b p
    using masks that by simp
  have rt: "\<exists>v. Match_MarshalText m = Ok (key_value (''tp_'' @ pr_srcdst pr) v) \<and>
      parseMatch (''tp_'' @ pr_srcdst pr) v = Ok m" if m: "m \<in> ?mk ` set bs" for m
  proof -
    from m obtain b :: BitRange where b: "m = ?mk b" by blast
    then obtain t where t: "Match_MarshalText m = Ok t"
      by (cases "Mask b = 0") (simp_all add: match_marshalers matchTransportPort_def)
    have "wf_match m" using b assms(3) by simp
    from marshal_reads_back [OF this t] show ?thesis
      using b t by (auto simp: reads_back_def Let_def)
  qed
  have "MaskedPorts pr = Ok (map ?mk bs)" using bs by (simp add: MaskedPorts_def)
  moreover have "(\<exists>m \<in> set (map ?mk bs). selects m p) \<longleftrightarrow> startPort pr \<le> p \<and> p \<le> endPort pr" for p
    using bitwise.split_matches [OF bs, of p] sel by auto
  ultimately show ?thesis using rt by auto
qed

theorem MaskedPorts_end_to_end_witness:
  "\<exists>ms. MaskedPorts (TransportDestinationPortRange 6 8) = Ok ms \<and>
     (\<forall>p. (\<exists>m \<in> set ms. selects m p) \<longleftrightarrow> 6 \<le> p \<and> p \<le> 8)"
  using MaskedPorts_end_to_end [of "TransportDestinationPortRange 6 8"]
  by (auto simp: TransportDestinationPortRange_def)


end
