(* ===== verification/Ovs_Action.thy ===== *)
theory Ovs_Action
  imports Ovs_Match
begin

text \<open>
  \<^verbatim>\<open>ovs/action.go\<close>: the actions of a flow. As for matches, the interface is a datatype with one
  constructor per struct, each exported function builds a value, each \<^verbatim>\<open>MarshalText\<close> method is
  one definition, and \<open>Action_MarshalText\<close> dispatches.
\<close>

section \<open>Names and types\<close>

definition actionDrop :: string where "actionDrop = ''drop''"
definition actionFlood :: string where "actionFlood = ''flood''"
definition actionInPort :: string where "actionInPort = ''in_port''"
definition actionLocal :: string where "actionLocal = ''local''"
definition actionNormal :: string where "actionNormal = ''normal''"
definition actionStripVLAN :: string where "actionStripVLAN = ''strip_vlan''"

definition actionSetField :: int where "actionSetField = 0"
definition actionLoad :: int where "actionLoad = 1"

lemmas action_names = actionDrop_def actionFlood_def actionInPort_def actionLocal_def
  actionNormal_def actionStripVLAN_def

text \<open>The nil address of a \<^verbatim>\<open>modNetworkAction\<close> is \<open>None\<close>.\<close>

datatype Action =
    textAction string
  | ctAction string
  | modDataLinkAction string "byte list"
  | modNetworkAction string "byte list option"
  | modTransportPortAction string "16 word"
  | modVLANVIDAction int
  | outputAction int
  | conjunctionAction int int int
  | resubmitAction int int
  | resubmitPortAction int
  | loadSetFieldAction string string int
  | setTunnelAction "64 word"

section \<open>Exported constructors\<close>

definition Drop :: Action where "Drop = textAction actionDrop"
definition Flood :: Action where "Flood = textAction actionFlood"
definition InPort :: Action where "InPort = textAction actionInPort"
definition Local :: Action where "Local = textAction actionLocal"
definition Normal :: Action where "Normal = textAction actionNormal"
definition StripVLAN :: Action where "StripVLAN = textAction actionStripVLAN"

definition ConnectionTracking :: "string \<Rightarrow> Action" where
  "ConnectionTracking args = ctAction args"

definition ModDataLinkDestination :: "byte list \<Rightarrow> Action" where
  "ModDataLinkDestination addr = modDataLinkAction destination addr"

definition ModDataLinkSource :: "byte list \<Rightarrow> Action" where
  "ModDataLinkSource addr = modDataLinkAction source addr"

definition ModNetworkDestination :: "byte list \<Rightarrow> Action" where
  "ModNetworkDestination ip = modNetworkAction destination (To4 ip)"

definition ModNetworkSource :: "byte list \<Rightarrow> Action" where
  "ModNetworkSource ip = modNetworkAction source (To4 ip)"

definition ModTransportDestinationPort :: "16 word \<Rightarrow> Action" where
  "ModTransportDestinationPort port = modTransportPortAction destination port"

definition ModTransportSourcePort :: "16 word \<Rightarrow> Action" where
  "ModTransportSourcePort port = modTransportPortAction source port"

definition ModVLANVID :: "int \<Rightarrow> Action" where
  "ModVLANVID vid = modVLANVIDAction vid"

definition Output :: "int \<Rightarrow> Action" where
  "Output port = outputAction port"

definition Conjunction :: "int \<Rightarrow> int \<Rightarrow> int \<Rightarrow> Action" where
  "Conjunction n dimensionNumber dimensionSize = conjunctionAction n dimensionNumber dimensionSize"

definition Resubmit :: "int \<Rightarrow> int \<Rightarrow> Action" where
  "Resubmit port tbl = resubmitAction port tbl"

definition ResubmitPort :: "int \<Rightarrow> Action" where
  "ResubmitPort port = resubmitPortAction port"

definition SetField :: "string \<Rightarrow> string \<Rightarrow> Action" where
  "SetField v field = loadSetFieldAction v field actionSetField"

definition Load :: "string \<Rightarrow> string \<Rightarrow> Action" where
  "Load v field = loadSetFieldAction v field actionLoad"

definition SetTunnel :: "64 word \<Rightarrow> Action" where
  "SetTunnel tunnelID = setTunnelAction tunnelID"

lemmas action_constructors = Drop_def Flood_def InPort_def Local_def Normal_def StripVLAN_def
  ConnectionTracking_def ModDataLinkDestination_def ModDataLinkSource_def ModNetworkDestination_def
  ModNetworkSource_def ModTransportDestinationPort_def ModTransportSourcePort_def ModVLANVID_def
  Output_def Conjunction_def Resubmit_def ResubmitPort_def SetField_def Load_def SetTunnel_def

section \<open>Marshaling\<close>

text \<open>The literal parts of the printf-style patterns, which the parser shares.\<close>

definition patConnectionTracking :: string where "patConnectionTracking = ''ct(''"
definition patConjunction :: string where "patConjunction = ''conjunction(''"
definition patModDataLinkDestination :: string where "patModDataLinkDestination = ''mod_dl_dst:''"
definition patModDataLinkSource :: string where "patModDataLinkSource = ''mod_dl_src:''"
definition patModNetworkDestination :: string where "patModNetworkDestination = ''mod_nw_dst:''"
definition patModNetworkSource :: string where "patModNetworkSource = ''mod_nw_src:''"
definition patModTransportDestinationPort :: string where
  "patModTransportDestinationPort = ''mod_tp_dst:''"
definition patModTransportSourcePort :: string where "patModTransportSourcePort = ''mod_tp_src:''"
definition patModVLANVID :: string where "patModVLANVID = ''mod_vlan_vid:''"
definition patOutput :: string where "patOutput = ''output:''"
definition patResubmitPort :: string where "patResubmitPort = ''resubmit:''"
definition patResubmitPortTable :: string where "patResubmitPortTable = ''resubmit(''"

lemmas action_patterns = patConnectionTracking_def patConjunction_def patModDataLinkDestination_def
  patModDataLinkSource_def patModNetworkDestination_def patModNetworkSource_def
  patModTransportDestinationPort_def patModTransportSourcePort_def patModVLANVID_def patOutput_def
  patResubmitPort_def patResubmitPortTable_def

definition textAction_MarshalText :: "string \<Rightarrow> string result" where
  "textAction_MarshalText action = Ok action"

definition ctAction_MarshalText :: "string \<Rightarrow> string result" where
  "ctAction_MarshalText args =
     (if args = [] then Err ErrCTNoArguments else Ok (patConnectionTracking @ args @ '')''))"

definition modDataLinkAction_MarshalText :: "string \<Rightarrow> byte list \<Rightarrow> string result" where
  "modDataLinkAction_MarshalText srcdst addr =
     (if length addr \<noteq> ethernetAddrLen then Err (ErrHardwareAddrLen (length addr))
      else if srcdst = source then Ok (patModDataLinkSource @ HardwareAddrString addr)
      else Ok (patModDataLinkDestination @ HardwareAddrString addr))"

definition modNetworkAction_MarshalText :: "string \<Rightarrow> byte list option \<Rightarrow> string result" where
  "modNetworkAction_MarshalText srcdst ip =
     (case ip of
        None \<Rightarrow> Err ErrModNetworkInvalid
      | Some a \<Rightarrow>
          if srcdst = source then Ok (patModNetworkSource @ IPString a)
          else Ok (patModNetworkDestination @ IPString a))"

definition modTransportPortAction_MarshalText :: "string \<Rightarrow> 16 word \<Rightarrow> string result" where
  "modTransportPortAction_MarshalText srcdst port =
     (if srcdst = source then Ok (patModTransportSourcePort @ fmt_d port)
      else Ok (patModTransportDestinationPort @ fmt_d port))"

definition modVLANVIDAction_MarshalText :: "int \<Rightarrow> string result" where
  "modVLANVIDAction_MarshalText vid =
     (if \<not> validVLANVID vid then Err ErrInvalidVLANVID else Ok (patModVLANVID @ Itoa vid))"

definition outputAction_MarshalText :: "int \<Rightarrow> string result" where
  "outputAction_MarshalText port =
     (if port < 0 then Err ErrOutputNegativePort else Ok (patOutput @ Itoa port))"

definition conjunctionAction_MarshalText :: "int \<Rightarrow> int \<Rightarrow> int \<Rightarrow> string result" where
  "conjunctionAction_MarshalText n dimensionNumber dimensionSize =
     (if dimensionNumber > dimensionSize then Err ErrDimensionTooLarge
      else Ok (patConjunction @ Itoa n @ '','' @ Itoa dimensionNumber @ ''/'' @
             Itoa dimensionSize @ '')''))"

definition resubmitAction_MarshalText :: "int \<Rightarrow> int \<Rightarrow> string result" where
  "resubmitAction_MarshalText port tbl =
     (if port = 0 \<and> tbl = 0 then Err ErrResubmitPortTableZero
      else
        let p = (if port \<noteq> 0 then Itoa port else []); t = (if tbl \<noteq> 0 then Itoa tbl else [])
        in Ok (patResubmitPortTable @ p @ '','' @ t @ '')''))"

definition resubmitPortAction_MarshalText :: "int \<Rightarrow> string result" where
  "resubmitPortAction_MarshalText port =
     (if port < 0 \<or> port > 0xfffffeff then Err ErrResubmitPortInvalid
      else Ok (patResubmitPort @ Itoa port))"

definition loadSetFieldAction_MarshalText :: "string \<Rightarrow> string \<Rightarrow> int \<Rightarrow> string result" where
  "loadSetFieldAction_MarshalText v field typ =
     (if v = [] \<or> field = [] then Err ErrLoadSetFieldZero
      else if typ = actionLoad then Ok (''load:'' @ v @ ''->'' @ field)
      else Ok (''set_field:'' @ v @ ''->'' @ field))"

definition setTunnelAction_MarshalText :: "64 word \<Rightarrow> string result" where
  "setTunnelAction_MarshalText tunnelID = Ok (''set_tunnel:'' @ fmt_0x 0 tunnelID)"

fun Action_MarshalText :: "Action \<Rightarrow> string result" where
  "Action_MarshalText (textAction action) = textAction_MarshalText action"
| "Action_MarshalText (ctAction args) = ctAction_MarshalText args"
| "Action_MarshalText (modDataLinkAction srcdst addr) = modDataLinkAction_MarshalText srcdst addr"
| "Action_MarshalText (modNetworkAction srcdst ip) = modNetworkAction_MarshalText srcdst ip"
| "Action_MarshalText (modTransportPortAction srcdst port) =
     modTransportPortAction_MarshalText srcdst port"
| "Action_MarshalText (modVLANVIDAction vid) = modVLANVIDAction_MarshalText vid"
| "Action_MarshalText (outputAction port) = outputAction_MarshalText port"
| "Action_MarshalText (conjunctionAction n k d) = conjunctionAction_MarshalText n k d"
| "Action_MarshalText (resubmitAction port tbl) = resubmitAction_MarshalText port tbl"
| "Action_MarshalText (resubmitPortAction port) = resubmitPortAction_MarshalText port"
| "Action_MarshalText (loadSetFieldAction v field typ) = loadSetFieldAction_MarshalText v field typ"
| "Action_MarshalText (setTunnelAction tunnelID) = setTunnelAction_MarshalText tunnelID"

lemmas action_marshalers = textAction_MarshalText_def ctAction_MarshalText_def
  modDataLinkAction_MarshalText_def modNetworkAction_MarshalText_def
  modTransportPortAction_MarshalText_def modVLANVIDAction_MarshalText_def
  outputAction_MarshalText_def conjunctionAction_MarshalText_def resubmitAction_MarshalText_def
  resubmitPortAction_MarshalText_def loadSetFieldAction_MarshalText_def setTunnelAction_MarshalText_def

lemma Action_MarshalText_no_panic: "Action_MarshalText a \<noteq> Panic"
  by (cases a) (auto simp: action_marshalers Let_def split: option.splits)

interpretation action_text: text_marshaler Action_MarshalText
  by unfold_locales (rule Action_MarshalText_no_panic)

end
