(* ===== verification/Action_Parser.thy ===== *)
theory Action_Parser
  imports Ovs_Action
begin

text \<open>
  \<^verbatim>\<open>ovs/actionparser.go\<close>: the tokenizer, which cuts the text of a list of actions at the commas
  outside parentheses, and \<^verbatim>\<open>parseAction\<close>, which recognises one action. The regular
  expressions and \<^verbatim>\<open>fmt.Sscanf\<close> patterns of the code are modelled one by one.
\<close>

section \<open>Regular expressions\<close>

text \<open>
  The class \<^verbatim>\<open>\S\<close> of Go's \<^verbatim>\<open>regexp\<close>, and the leftmost match of an unanchored expression
  that starts with a literal: the first occurrence of the literal after which the rest of the
  expression matches.
\<close>

definition re_nonspace :: "char \<Rightarrow> bool" where
  "re_nonspace c \<longleftrightarrow> c \<notin> {CHR 0x09, CHR 0x0A, CHR 0x0C, CHR 0x0D, CHR '' ''}"

definition re_digit :: "char \<Rightarrow> bool" where
  "re_digit c \<longleftrightarrow> 48 \<le> (of_char c :: nat) \<and> (of_char c :: nat) \<le> 57"

fun leftmost :: "string \<Rightarrow> (string \<Rightarrow> 'a option) \<Rightarrow> string \<Rightarrow> 'a option" where
  "leftmost lit f [] = (if lit = [] then f [] else None)"
| "leftmost lit f (c # s) =
     (if HasPrefix (c # s) lit \<and> f (drop (length lit) (c # s)) \<noteq> None
      then f (drop (length lit) (c # s)) else leftmost lit f s)"

text \<open>
  The last position \<open>i \<ge> 1\<close> at which \<open>sub\<close> occurs with at least \<open>k\<close> bytes behind it: where a
  greedy \<^verbatim>\<open>(\S+)\<close> in front of the literal \<open>sub\<close> ends.
\<close>

definition greedy_end :: "string \<Rightarrow> nat \<Rightarrow> string \<Rightarrow> nat option" where
  "greedy_end sub k run =
     find (\<lambda>i. HasPrefix (drop i run) sub \<and> i + length sub + k \<le> length run) (rev [1..<length run])"

text \<open>\<^verbatim>\<open>ct\((\S+)\)\<close>\<close>

definition ctRe :: "string \<Rightarrow> string option" where
  "ctRe = leftmost ''ct('' (\<lambda>t.
     let run = takeWhile re_nonspace t in map_option (\<lambda>i. take i run) (greedy_end '')'' 0 run))"

text \<open>\<^verbatim>\<open>resubmit\((\d*),(\d*)\)\<close>\<close>

definition resubmitRe :: "string \<Rightarrow> (string \<times> string) option" where
  "resubmitRe = leftmost ''resubmit('' (\<lambda>t.
     let p = takeWhile re_digit t; t1 = dropWhile re_digit t;
         q = takeWhile re_digit (drop 1 t1); t2 = dropWhile re_digit (drop 1 t1)
     in if HasPrefix t1 '','' \<and> HasPrefix t2 '')'' then Some (p, q) else None)"

text \<open>\<^verbatim>\<open>resubmit:(\d+)\<close>\<close>

definition resubmitPortRe :: "string \<Rightarrow> string option" where
  "resubmitPortRe = leftmost ''resubmit:'' (\<lambda>t.
     let p = takeWhile re_digit t in if p \<noteq> [] then Some p else None)"

text \<open>\<^verbatim>\<open>load:(\S+)->(\S+)\<close> and \<^verbatim>\<open>set_field:(\S+)->(\S+)\<close>\<close>

definition arrow :: "string \<Rightarrow> (string \<times> string) option" where
  "arrow t =
     (let run = takeWhile re_nonspace t in
      map_option (\<lambda>i. (take i run, drop (i + 2) run)) (greedy_end ''->'' 1 run))"

definition loadRe :: "string \<Rightarrow> (string \<times> string) option" where
  "loadRe = leftmost ''load:'' arrow"

definition setFieldRe :: "string \<Rightarrow> (string \<times> string) option" where
  "setFieldRe = leftmost ''set_field:'' arrow"

section \<open>Scanning\<close>

text \<open>
  \<^verbatim>\<open>fmt.Sscanf\<close>: literals of the format must agree with the input; before an operand white
  space is skipped, but not a newline; the end of the input is \<^verbatim>\<open>io.EOF\<close> before an operand
  and \<^verbatim>\<open>io.ErrUnexpectedEOF\<close> inside a literal; what follows the last operand is only compared
  with the literals of the format, and input left after the format is ignored.
\<close>

function skip_space :: "string \<Rightarrow> string result" where
  "skip_space s =
     (if HasPrefix s [CHR 0x0A] then Err ErrScan
      else if s = [] \<or> space_width s = 0 then Ok s
      else skip_space (drop (space_width s) s))"
  by pat_completeness auto
termination
  by (relation "measure length") auto

declare skip_space.simps [simp del]

fun scan_literal :: "string \<Rightarrow> string \<Rightarrow> string result" where
  "scan_literal [] s = Ok s"
| "scan_literal (c # lit) [] = Err ErrUnexpectedEOF"
| "scan_literal (c # lit) (d # s) = (if c = d then scan_literal lit s else Err ErrScan)"

definition scan_word :: "string \<Rightarrow> string result" where
  "scan_word s =
     and_then (skip_space s) (\<lambda>t. if t = [] then Err ErrEOF else Ok (fst (take_field t)))"

definition scan_sign :: "string \<Rightarrow> string" where
  "scan_sign t = (if HasPrefix t ''+'' \<or> HasPrefix t ''-'' then take 1 t else [])"

definition scan_int :: "string \<Rightarrow> (int \<times> string) result" where
  "scan_int s =
     and_then (skip_space s) (\<lambda>t.
       let sign = scan_sign t; u = drop (length sign) t; ds = takeWhile re_digit u in
       if t = [] \<or> u = [] then Err ErrEOF
       else if ds = [] then Err ErrScan
       else and_then (ParseInt (sign @ ds) 10 64) (\<lambda>i. Ok (i, dropWhile re_digit u)))"

definition scan_uint16 :: "string \<Rightarrow> 16 word result" where
  "scan_uint16 s =
     and_then (skip_space s) (\<lambda>t.
       let ds = takeWhile re_digit t in
       if t = [] then Err ErrEOF
       else if ds = [] then Err ErrScan
       else and_then (ParseUint ds 10 64) (\<lambda>i. if i < 2 ^ 16 then Ok (of_nat i) else Err ErrScan))"

section \<open>One action\<close>

definition parse_mac_action :: "string \<Rightarrow> (byte list \<Rightarrow> Action) \<Rightarrow> string \<Rightarrow> Action result" where
  "parse_mac_action pat mk s =
     and_then (and_then (scan_literal pat s) scan_word) (\<lambda>addr.
       and_then (ParseMAC addr) (\<lambda>mac. Ok (mk mac)))"

definition parse_ip_action :: "string \<Rightarrow> (byte list \<Rightarrow> Action) \<Rightarrow> string \<Rightarrow> Action result" where
  "parse_ip_action pat mk s =
     and_then (and_then (scan_literal pat s) scan_word) (\<lambda>ip.
       case Option.bind (ParseIP ip) To4 of
         None \<Rightarrow> Err ErrActionIPv4
       | Some ip4 \<Rightarrow> Ok (mk ip4))"

definition parse_port_action :: "string \<Rightarrow> (16 word \<Rightarrow> Action) \<Rightarrow> string \<Rightarrow> Action result" where
  "parse_port_action pat mk s =
     and_then (and_then (scan_literal pat s) scan_uint16) (\<lambda>port. Ok (mk port))"

definition parse_int_action :: "string \<Rightarrow> (int \<Rightarrow> Action) \<Rightarrow> string \<Rightarrow> Action result" where
  "parse_int_action pat mk s =
     and_then (and_then (scan_literal pat s) scan_int) (\<lambda>(i, _). Ok (mk i))"

definition parse_conjunction :: "string \<Rightarrow> Action result" where
  "parse_conjunction s =
     and_then (and_then (scan_literal patConjunction s) scan_int) (\<lambda>(n, t1).
     and_then (and_then (scan_literal '','' t1) scan_int) (\<lambda>(dimensionNumber, t2).
     and_then (and_then (scan_literal ''/'' t2) scan_int) (\<lambda>(dimensionSize, t3).
     and_then (scan_literal '')'' t3) (\<lambda>_. Ok (Conjunction n dimensionNumber dimensionSize)))))"

definition optional_int :: "string \<Rightarrow> int result" where
  "optional_int s = (if s \<noteq> [] then Atoi s else Ok 0)"

definition parse_regex_action :: "string \<Rightarrow> Action result" where
  "parse_regex_action s =
     (case resubmitRe s of
        Some (p, t) \<Rightarrow>
          and_then (optional_int p) (\<lambda>port. and_then (optional_int t) (\<lambda>tbl. Ok (Resubmit port tbl)))
      | None \<Rightarrow>
      (case resubmitPortRe s of
        Some p \<Rightarrow> and_then (Atoi p) (\<lambda>port. Ok (ResubmitPort port))
      | None \<Rightarrow>
      (case loadRe s of
        Some (v, field) \<Rightarrow> Ok (Load v field)
      | None \<Rightarrow>
      (case setFieldRe s of
        Some (v, field) \<Rightarrow> Ok (SetField v field)
      | None \<Rightarrow> Err (ErrNoActionMatched s)))))"

definition parseAction :: "string \<Rightarrow> Action result" where
  "parseAction s =
     (let l = ToLower s in
      if l = actionDrop then Ok Drop
      else if l = actionFlood then Ok Flood
      else if l = actionInPort then Ok InPort
      else if l = actionLocal then Ok Local
      else if l = actionNormal then Ok Normal
      else if l = actionStripVLAN then Ok StripVLAN
      else case ctRe s of Some args \<Rightarrow> Ok (ConnectionTracking args) | None \<Rightarrow>
      if HasPrefix s patModDataLinkDestination then
        parse_mac_action patModDataLinkDestination ModDataLinkDestination s
      else if HasPrefix s patModDataLinkSource then
        parse_mac_action patModDataLinkSource ModDataLinkSource s
      else if HasPrefix s patModNetworkDestination then
        parse_ip_action patModNetworkDestination ModNetworkDestination s
      else if HasPrefix s patModNetworkSource then
        parse_ip_action patModNetworkSource ModNetworkSource s
      else if HasPrefix s patModTransportDestinationPort then
        parse_port_action patModTransportDestinationPort ModTransportDestinationPort s
      else if HasPrefix s patModTransportSourcePort then
        parse_port_action patModTransportSourcePort ModTransportSourcePort s
      else if HasPrefix s patModVLANVID then parse_int_action patModVLANVID ModVLANVID s
      else if HasPrefix s ''conjunction'' then parse_conjunction s
      else if HasPrefix s patOutput then parse_int_action patOutput Output s
      else parse_regex_action s)"

lemmas parseAction_unfold = parseAction_def [unfolded parse_regex_action_def]

section \<open>The tokenizer\<close>

text \<open>
  The reader delivers runes; the stack of open parentheses is its depth. A NUL rune is taken
  for the end of the input. Popping an empty stack slices out of bounds and panics.
\<close>

record actionParser =
  ap_r :: "string list"
  ap_s :: nat

definition newActionParser :: "string \<Rightarrow> actionParser" where
  "newActionParser s = \<lparr>ap_r = map snd (runes s), ap_s = 0\<rparr>"

definition eof :: string where "eof = [CHR 0x00]"

definition pop :: "nat \<Rightarrow> nat result" where
  "pop s = (if s = 0 then Panic else Ok (s - 1))"

fun read_action :: "string list \<Rightarrow> nat \<Rightarrow> string \<Rightarrow> (string \<times> string list \<times> nat) result" where
  "read_action [] s buf = (if buf = [] then Err ErrEOF else Ok (buf, [], s))"
| "read_action (ch # r) s buf =
     (if ch = '','' \<and> s = 0 then Ok (buf, r, s)
      else if ch = eof then (if buf = [] then Err ErrEOF else Ok (buf, r, s))
      else if ch = ''('' then read_action r (s + 1) (buf @ ch)
      else if ch = '')'' then and_then (pop s) (\<lambda>s'. read_action r s' (buf @ ch))
      else read_action r s (buf @ ch))"

definition actionParser_parseAction :: "actionParser \<Rightarrow> (Action \<times> string \<times> actionParser) result" where
  "actionParser_parseAction p =
     and_then (read_action (ap_r p) (ap_s p) []) (\<lambda>(buf, r, s).
       if s > 0 then Err (ErrUnbalanced buf)
       else and_then (parseAction buf) (\<lambda>act. Ok (act, buf, \<lparr>ap_r = r, ap_s = s\<rparr>)))"

lemma read_action_length:
  "read_action r s buf = Ok (b, r', s') \<Longrightarrow> length r' < length r \<or> r = [] \<and> buf \<noteq> []"
  by (induction r s buf rule: read_action.induct) (fastforce split: if_splits)+

text \<open>
  The loop of \<^verbatim>\<open>Parse\<close>. Any \<^verbatim>\<open>io.EOF\<close> ends it, also one that comes from the scanner inside
  \<^verbatim>\<open>parseAction\<close>.
\<close>

function Parse :: "actionParser \<Rightarrow> (Action list \<times> string list) result" where
  "Parse p =
     (case actionParser_parseAction p of
        Panic \<Rightarrow> Panic
      | Err e \<Rightarrow> if e = ErrEOF then Ok ([], []) else Err e
      | Ok (a, r, p') \<Rightarrow> and_then (Parse p') (\<lambda>(actions, raw). Ok (a # actions, r # raw)))"
  by pat_completeness auto
termination
  by (relation "measure (\<lambda>p. length (ap_r p))")
    (auto simp: actionParser_parseAction_def dest!: read_action_length split: if_splits)

declare Parse.simps [simp del]

section \<open>The tokenizer cuts at the top-level commas\<close>

text \<open>A text that is one token: parentheses match, and every comma is inside some.\<close>

fun token :: "nat \<Rightarrow> string \<Rightarrow> bool" where
  "token d [] = (d = 0)"
| "token d (c # s) =
     (if c = CHR '','' \<and> d = 0 then False
      else if c = CHR ''('' then token (d + 1) s
      else if c = CHR '')'' then d > 0 \<and> token (d - 1) s
      else token d s)"

definition char_runes :: "string \<Rightarrow> string list" where
  "char_runes s = map (\<lambda>c. [c]) s"

lemma char_runes_simps [simp]:
  "char_runes [] = []" "char_runes (c # s) = [c] # char_runes s"
  "char_runes (s @ t) = char_runes s @ char_runes t"
  by (simp_all add: char_runes_def)

lemma newActionParser_graphic:
  "list_all graphic s \<Longrightarrow> newActionParser s = \<lparr>ap_r = char_runes s, ap_s = 0\<rparr>"
  by (simp add: newActionParser_def char_runes_def runes_ascii list_all_iff graphic_ascii)

lemma graphic_not_eof: "graphic c \<Longrightarrow> [c] \<noteq> eof"
  by (auto simp: graphic_def eof_def)

lemma read_action_token:
  assumes "token s t" "list_all graphic t"
  shows "read_action (char_runes t @ r) s buf = read_action r 0 (buf @ t)"
  using assms
proof (induction t arbitrary: s buf)
  case (Cons c t)
  then show ?case by (auto simp: graphic_not_eof pop_def split: if_splits)
qed simp

lemma parse_token:
  assumes "token 0 t" "list_all graphic t" "t \<noteq> []" "r = [] \<or> r = '','' # r'"
  shows "actionParser_parseAction \<lparr>ap_r = char_runes t @ r, ap_s = 0\<rparr> =
    and_then (parseAction t) (\<lambda>a. Ok (a, t, \<lparr>ap_r = drop 1 r, ap_s = 0\<rparr>))"
  using assms by (auto simp: actionParser_parseAction_def read_action_token)

lemma Parse_empty: "Parse \<lparr>ap_r = [], ap_s = 0\<rparr> = Ok ([], [])"
  by (simp add: Parse.simps actionParser_parseAction_def)

definition token_texts :: "string list \<Rightarrow> bool" where
  "token_texts ts \<longleftrightarrow> (\<forall>t \<in> set ts. token 0 t \<and> list_all graphic t \<and> t \<noteq> [] \<and> parseAction t \<noteq> Err ErrEOF)"

lemma Parse_tokens:
  "token_texts ts \<Longrightarrow> Parse \<lparr>ap_r = char_runes (Join ts '',''), ap_s = 0\<rparr> =
     and_then (each parseAction ts) (\<lambda>as. Ok (as, ts))"
proof (induction ts rule: induct_list012)
  case 1
  show ?case by (simp add: Parse_empty)
next
  case (2 t)
  then have "actionParser_parseAction \<lparr>ap_r = char_runes t, ap_s = 0\<rparr> =
      and_then (parseAction t) (\<lambda>a. Ok (a, t, \<lparr>ap_r = [], ap_s = 0\<rparr>))"
    using parse_token [of t "[]"] by (simp add: token_texts_def)
  with 2 show ?case
    by (cases "parseAction t") (simp_all add: Parse.simps [of "\<lparr>ap_r = char_runes t, ap_s = 0\<rparr>"] Parse_empty token_texts_def)
next
  case (3 t u ts)
  let ?r = "char_runes (Join (u # ts) '','')"
  have "actionParser_parseAction \<lparr>ap_r = char_runes t @ '','' # ?r, ap_s = 0\<rparr> =
      and_then (parseAction t) (\<lambda>a. Ok (a, t, \<lparr>ap_r = ?r, ap_s = 0\<rparr>))"
    using 3(3) parse_token [of t "'','' # ?r" ?r] by (simp add: token_texts_def)
  moreover have "Parse \<lparr>ap_r = ?r, ap_s = 0\<rparr> = and_then (each parseAction (u # ts)) (\<lambda>as. Ok (as, u # ts))"
    using 3 by (simp add: token_texts_def)
  moreover have "parseAction t \<noteq> Err ErrEOF" using 3(3) by (simp add: token_texts_def)
  ultimately show ?case
    by (cases "parseAction t")
      (simp_all add: Parse.simps [of "\<lparr>ap_r = char_runes t @ '','' # ?r, ap_s = 0\<rparr>"] and_then_assoc)
qed

lemma Parse_sound: "Parse p = Ok (as, raw) \<Longrightarrow> each parseAction raw = Ok as"
proof (induction p arbitrary: as raw rule: Parse.induct)
  case (1 p)
  show ?case
  proof (cases "actionParser_parseAction p")
    case (Ok x)
    then obtain a r p' where x: "actionParser_parseAction p = Ok (a, r, p')" by (cases x) auto
    then obtain as' raw' where "Parse p' = Ok (as', raw')" "as = a # as'" "raw = r # raw'"
      using 1(2) by (auto simp: Parse.simps [of p])
    moreover have "parseAction r = Ok a"
      using x by (auto simp: actionParser_parseAction_def split: if_splits)
    ultimately show ?thesis using 1(1) [OF x] by auto
  qed (use 1(2) in \<open>auto simp: Parse.simps [of p] split: if_splits\<close>)
qed

text \<open>No closing parenthesis without an open one: then the stack is never popped when empty.\<close>

fun closes_ok :: "nat \<Rightarrow> string list \<Rightarrow> bool" where
  "closes_ok d [] = True"
| "closes_ok d (ch # r) =
     (if ch = ''('' then closes_ok (d + 1) r
      else if ch = '')'' then d > 0 \<and> closes_ok (d - 1) r
      else closes_ok d r)"

lemma read_action_no_panic: "closes_ok s r \<Longrightarrow> read_action r s buf \<noteq> Panic"
  by (induction r s buf rule: read_action.induct) (auto simp: pop_def split: if_splits)

lemma read_action_closes:
  "closes_ok s r \<Longrightarrow> read_action r s buf = Ok (b, r', s') \<Longrightarrow> closes_ok s' r'"
  by (induction r s buf rule: read_action.induct) (auto simp: pop_def eof_def split: if_splits)

lemma skip_space_no_panic: "skip_space s \<noteq> Panic"
  by (induction s rule: skip_space.induct) (subst skip_space.simps, auto)

lemma scan_literal_no_panic: "scan_literal lit s \<noteq> Panic"
  by (induction lit s rule: scan_literal.induct) auto

lemma scanners_no_panic:
  "scan_word s \<noteq> Panic" "scan_int s \<noteq> Panic" "scan_uint16 s \<noteq> Panic" "optional_int s \<noteq> Panic"
  by (auto simp: scan_word_def scan_int_def scan_uint16_def optional_int_def skip_space_no_panic
      and_then_eq_Panic Let_def split: if_splits)

lemma parseAction_no_panic: "parseAction s \<noteq> Panic"
  by (auto simp: parseAction_unfold parse_mac_action_def parse_ip_action_def parse_port_action_def
      parse_int_action_def parse_conjunction_def scanners_no_panic scan_literal_no_panic
      and_then_eq_Panic Let_def split: option.splits prod.splits)

lemma Parse_no_panic: "closes_ok (ap_s p) (ap_r p) \<Longrightarrow> Parse p \<noteq> Panic"
proof (induction p rule: Parse.induct)
  case (1 p)
  show ?case
  proof (cases "actionParser_parseAction p")
    case (Ok x)
    then obtain a r p' where x: "actionParser_parseAction p = Ok (a, r, p')" by (cases x) auto
    then have "closes_ok (ap_s p') (ap_r p')"
      using read_action_closes [OF 1(2)] by (auto simp: actionParser_parseAction_def split: if_splits)
    then have "Parse p' \<noteq> Panic" using 1(1) [OF x] by simp
    then show ?thesis using x by (auto simp: Parse.simps [of p] and_then_eq_Panic)
  next
    case Panic
    then show ?thesis using 1(2) read_action_no_panic parseAction_no_panic
      by (auto simp: actionParser_parseAction_def and_then_eq_Panic split: if_splits)
  qed (simp add: Parse.simps [of p])
qed

section \<open>Reading back one action\<close>

lemma leftmost_notin:
  assumes "c \<in> set lit" "c \<notin> set s"
  shows "leftmost lit f s = None"
  using assms(2)
proof (induction s)
  case (Cons a s)
  then have "\<not> HasPrefix (a # s) lit"
    using assms(1) by (metis HasPrefix_iff UnCI set_append)
  with Cons show ?case by simp
qed (use assms(1) in auto)

lemma leftmost_absent: "Index s lit = None \<Longrightarrow> leftmost lit f s = None"
  by (induction s) (auto split: if_splits)

lemma leftmost_start: "f s = Some x \<Longrightarrow> leftmost lit f (lit @ s) = Some x"
  using HasPrefix_append [of lit s] append_eq_conv_conj [of lit s "lit @ s"]
  by (cases "lit @ s") (auto simp del: HasPrefix_append)

lemma lower_byte_special [simp]: "lower_byte CHR '':'' = CHR '':''" "lower_byte CHR ''('' = CHR ''(''"
  by (simp_all add: lower_byte_def)

lemma ToLower_ascii: "list_all ascii s \<Longrightarrow> ToLower s = map lower_byte s"
  by (induction s) (auto simp: ascii_def)

lemma ToLower_special:
  assumes "list_all ascii s" "c \<in> set s" "c = CHR '':'' \<or> c = CHR ''(''"
  shows "c \<in> set (ToLower s)"
  using assms by (auto simp: ToLower_ascii intro: rev_image_eqI)

lemma action_names_plain:
  assumes "CHR '':'' \<in> set l \<or> CHR ''('' \<in> set l"
  shows "l \<noteq> actionDrop" "l \<noteq> actionFlood" "l \<noteq> actionInPort" "l \<noteq> actionLocal"
    "l \<noteq> actionNormal" "l \<noteq> actionStripVLAN"
  using assms by (auto simp: action_names)

text \<open>Texts with a colon or a parenthesis are none of the names.\<close>

lemma parseAction_arguments:
  assumes "list_all graphic s" "CHR '':'' \<in> set s \<or> CHR ''('' \<in> set s"
  shows "ToLower s \<noteq> actionDrop" "ToLower s \<noteq> actionFlood" "ToLower s \<noteq> actionInPort"
    "ToLower s \<noteq> actionLocal" "ToLower s \<noteq> actionNormal" "ToLower s \<noteq> actionStripVLAN"
proof -
  have "list_all ascii s" using assms(1) by (auto simp: list_all_iff graphic_ascii)
  then have "CHR '':'' \<in> set (ToLower s) \<or> CHR ''('' \<in> set (ToLower s)"
    using assms(2) ToLower_special by blast
  from action_names_plain [OF this] show "ToLower s \<noteq> actionDrop" "ToLower s \<noteq> actionFlood"
    "ToLower s \<noteq> actionInPort" "ToLower s \<noteq> actionLocal" "ToLower s \<noteq> actionNormal"
    "ToLower s \<noteq> actionStripVLAN" by simp_all
qed

lemma ctRe_no_paren: "CHR ''('' \<notin> set s \<Longrightarrow> ctRe s = None"
  unfolding ctRe_def by (rule leftmost_notin) auto

lemma resubmitRe_no_paren: "CHR ''('' \<notin> set s \<Longrightarrow> resubmitRe s = None"
  unfolding resubmitRe_def by (rule leftmost_notin) auto

lemma skip_space_graphic: "s = [] \<or> graphic (hd s) \<Longrightarrow> skip_space s = Ok s"
  by (cases s; subst skip_space.simps) (auto simp: space_width_graphic HasPrefix_iff graphic_def)

lemma scan_literal_append [simp]: "scan_literal lit (lit @ s) = Ok s"
  by (induction lit) auto

lemma scan_word_graphic: "list_all graphic s \<Longrightarrow> s \<noteq> [] \<Longrightarrow> scan_word s = Ok s"
  by (cases s) (auto simp: scan_word_def skip_space_graphic take_field_clean space_width_graphic)

lemma re_digit_dec: "c \<in> set dec_digits \<Longrightarrow> re_digit c"
  by (auto simp: dec_digits_def re_digit_def)

lemma digits_FormatUint: "\<forall>c \<in> set (FormatUint n 10). re_digit c"
  using FormatUint_dec [of n] re_digit_dec by blast

lemma span_digits:
  assumes "\<forall>c \<in> set ds. re_digit c" "r = [] \<or> \<not> re_digit (hd r)"
  shows "takeWhile re_digit (ds @ r) = ds" "dropWhile re_digit (ds @ r) = r"
  using assms by (cases r; simp add: takeWhile_append2 dropWhile_append2)+

lemma graphic_Itoa: "list_all graphic (Itoa i)"
  using number_plain(1) plain_graphic by blast

lemma re_digit_sign [simp]: "\<not> re_digit CHR ''-''" "\<not> re_digit CHR ''+''"
  by (simp_all add: re_digit_def)

lemma scan_int_Itoa:
  assumes "int64 i" "r = [] \<or> \<not> re_digit (hd r)"
  shows "scan_int (Itoa i @ r) = Ok (i, r)"
proof -
  have p: "ParseInt (Itoa i) 10 64 = Ok i"
    using ParseInt_Itoa [OF assms(1)] by (simp add: ParseInt_def)
  have "graphic (hd (Itoa i @ r))" using graphic_Itoa [of i] by (cases "Itoa i") auto
  then have sk: "skip_space (Itoa i @ r) = Ok (Itoa i @ r)" by (intro skip_space_graphic) simp
  obtain c t where ct: "FormatUint (nat \<bar>i\<bar>) 10 = c # t"
    using FormatUint_nonempty by (cases "FormatUint (nat \<bar>i\<bar>) 10") auto
  have c: "c \<noteq> CHR ''+''" "c \<noteq> CHR ''-''" using FormatUint_dec_hd [of "nat \<bar>i\<bar>"] ct by auto
  have d: "takeWhile re_digit ((c # t) @ r) = c # t" "dropWhile re_digit ((c # t) @ r) = r"
    using span_digits [of "c # t" r] digits_FormatUint [of "nat \<bar>i\<bar>"] ct assms(2) by auto
  show ?thesis
  proof (cases "i < 0")
    case True
    then have I: "Itoa i = CHR ''-'' # c # t" using ct by (simp add: Itoa_def abs_if)
    show ?thesis using sk p d by (simp add: scan_int_def scan_sign_def I Let_def)
  next
    case False
    then have I: "Itoa i = c # t" using ct by (simp add: Itoa_def abs_if)
    show ?thesis using sk p d c by (simp add: scan_int_def scan_sign_def I Let_def)
  qed
qed

lemma scan_uint16_fmt_d: "scan_uint16 (fmt_d p) = Ok p"
proof -
  have g: "list_all graphic (fmt_d p)" using number_plain(2) plain_graphic by blast
  have "takeWhile re_digit (fmt_d p) = fmt_d p"
    using span_digits [of "fmt_d p" "[]"] digits_FormatUint by (simp add: fmt_d_def)
  moreover have "ParseUint (fmt_d p) 10 64 = Ok (unat p)"
    unfolding fmt_d_def using unat16_less [of p] by (intro ParseUint_FormatUint) auto
  moreover have "skip_space (fmt_d p) = Ok (fmt_d p)"
    using g by (intro skip_space_graphic) (cases "fmt_d p"; simp)
  ultimately show ?thesis using unat16_less [of p] by (simp add: scan_uint16_def Let_def del: takeWhile_eq_all_conv)
qed

lemma find_rev_upt:
  "m \<le> i \<Longrightarrow> i < n \<Longrightarrow> P i \<Longrightarrow> (\<And>j. i < j \<Longrightarrow> j < n \<Longrightarrow> \<not> P j) \<Longrightarrow> find P (rev [m..<n]) = Some i"
proof (induction n)
  case (Suc n)
  then show ?case by (cases "i = n") auto
qed simp

lemma Index_None_drop: "Index s sub = None \<Longrightarrow> sub \<noteq> [] \<Longrightarrow> \<not> HasPrefix (drop i s) sub"
proof (induction s arbitrary: i)
  case (Cons c s)
  then show ?case by (cases i) (auto split: if_splits)
qed (simp add: HasPrefix_def)

lemma greedy_end_last: "a \<noteq> [] \<Longrightarrow> greedy_end [c] 0 (a @ [c]) = Some (length a)"
  unfolding greedy_end_def by (rule find_rev_upt) (simp_all add: Suc_leI)

lemma greedy_end_arrow:
  assumes "v \<noteq> []" "field \<noteq> []" "Index field ''->'' = None"
  shows "greedy_end ''->'' 1 (v @ ''->'' @ field) = Some (length v)"
  unfolding greedy_end_def
proof (rule find_rev_upt)
  fix j assume j: "length v < j" "j < length (v @ ''->'' @ field)"
  have "\<not> HasPrefix (drop j (v @ ''->'' @ field)) ''->''"
  proof (cases "j = Suc (length v)")
    case False
    then have "j = length v + 2 + (j - length v - 2)" using j(1) by simp
    then obtain i where "j = length v + 2 + i" ..
    then show ?thesis using Index_None_drop [OF assms(3), of i] by simp
  qed simp
  then show "\<not> (HasPrefix (drop j (v @ ''->'' @ field)) ''->'' \<and>
      j + length ''->'' + 1 \<le> length (v @ ''->'' @ field))" by simp
qed (use assms in \<open>auto simp: Suc_le_eq neq_Nil_conv\<close>)

lemma graphic_nonspace: "graphic c \<Longrightarrow> re_nonspace c"
  by (auto simp: graphic_def re_nonspace_def)

lemma takeWhile_graphic: "list_all graphic s \<Longrightarrow> takeWhile re_nonspace s = s"
  by (auto simp: list_all_iff graphic_nonspace)

lemma ctRe_text:
  assumes "list_all graphic args" "args \<noteq> []"
  shows "ctRe (''ct('' @ args @ '')'') = Some args"
proof -
  have "list_all graphic (args @ '')'')" using assms(1) by (simp add: graphic_def)
  from takeWhile_graphic [OF this] show ?thesis
    unfolding ctRe_def using greedy_end_last [OF assms(2), of "CHR '')''"]
    by (intro leftmost_start) (simp add: Let_def del: takeWhile_eq_all_conv)
qed

lemma arrow_text:
  assumes "list_all graphic v" "list_all graphic field" "v \<noteq> []" "field \<noteq> []" "Index field ''->'' = None"
  shows "arrow (v @ ''->'' @ field) = Some (v, field)"
proof -
  have "list_all graphic (v @ ''->'' @ field)" using assms by (simp add: graphic_def)
  from takeWhile_graphic [OF this] show ?thesis
    using greedy_end_arrow [OF assms(3-5)] by (simp add: arrow_def Let_def del: takeWhile_eq_all_conv)
qed

text \<open>
  Actions whose text can be read back. Connection-tracking arguments and register names are
  free text in the code: they must be visible ASCII, form one token, and not hold a text that
  an earlier rule of \<^verbatim>\<open>parseAction\<close> takes for its own. \<^verbatim>\<open>resubmit\<close> is read back only with
  non-negative numbers, \<^verbatim>\<open>set_tunnel\<close> not at all.
\<close>

fun wf_action :: "Action \<Rightarrow> bool" where
  "wf_action (textAction n) =
     (n \<in> {actionDrop, actionFlood, actionInPort, actionLocal, actionNormal, actionStripVLAN})"
| "wf_action (ctAction args) = (list_all graphic args \<and> token 1 (args @ '')''))"
| "wf_action (modDataLinkAction sd _) = (sd = source \<or> sd = destination)"
| "wf_action (modNetworkAction sd ip) =
     ((sd = source \<or> sd = destination) \<and> (\<forall>a. ip = Some a \<longrightarrow> length a = 4))"
| "wf_action (modTransportPortAction sd _) = (sd = source \<or> sd = destination)"
| "wf_action (modVLANVIDAction _) = True"
| "wf_action (outputAction port) = int64 port"
| "wf_action (conjunctionAction n k d) = (int64 n \<and> int64 k \<and> int64 d)"
| "wf_action (resubmitAction port tbl) = (0 \<le> port \<and> int64 port \<and> 0 \<le> tbl \<and> int64 tbl)"
| "wf_action (resubmitPortAction port) = True"
| "wf_action (loadSetFieldAction v field typ) =
     ((typ = actionLoad \<or> typ = actionSetField) \<and> list_all graphic (v @ field) \<and>
      CHR ''('' \<notin> set (v @ field) \<and> CHR '')'' \<notin> set (v @ field) \<and> CHR '','' \<notin> set (v @ field) \<and>
      Index field ''->'' = None \<and> Index (v @ ''->'' @ field) ''resubmit:'' = None \<and>
      Index (v @ ''->'' @ field) ''load:'' = None)"
| "wf_action (setTunnelAction _) = False"

lemmas parse_steps = parse_mac_action_def parse_ip_action_def parse_port_action_def
  parse_int_action_def

lemma ToLower_names:
  "ToLower ''drop'' = ''drop''" "ToLower ''flood'' = ''flood''" "ToLower ''in_port'' = ''in_port''"
  "ToLower ''local'' = ''local''" "ToLower ''normal'' = ''normal''"
  "ToLower ''strip_vlan'' = ''strip_vlan''"
  by code_simp+

lemma parseAction_names:
  "n \<in> {actionDrop, actionFlood, actionInPort, actionLocal, actionNormal, actionStripVLAN} \<Longrightarrow>
   parseAction n = Ok (textAction n)"
  by (elim insertE)
    (simp_all add: parseAction_unfold action_names action_constructors Let_def ToLower_names del: ToLower.simps)

lemma graphic_literals [simp]:
  "graphic CHR ''m''" "graphic CHR ''o''" "graphic CHR ''d''" "graphic CHR ''_''" "graphic CHR ''l''"
  "graphic CHR ''s''" "graphic CHR ''t''" "graphic CHR ''r''" "graphic CHR ''c''" "graphic CHR '':''"
  "graphic CHR ''n''" "graphic CHR ''w''" "graphic CHR ''p''" "graphic CHR ''v''" "graphic CHR ''a''"
  "graphic CHR ''i''" "graphic CHR ''u''" "graphic CHR ''f''" "graphic CHR ''e''" "graphic CHR ''-''"
  "graphic CHR ''>''" "graphic CHR ''(''" "graphic CHR '')''" "graphic CHR '',''" "graphic CHR ''/''"
  "graphic CHR ''b''" "graphic CHR ''j''" "graphic CHR ''x''" "graphic CHR ''0''"
  by (simp_all add: graphic_def)

lemma parseAction_prefix:
  assumes "list_all graphic t" "CHR ''('' \<notin> set t"
  shows "parseAction (''mod_dl_dst:'' @ t) = parse_mac_action ''mod_dl_dst:'' ModDataLinkDestination (''mod_dl_dst:'' @ t)"
    "parseAction (''mod_dl_src:'' @ t) = parse_mac_action ''mod_dl_src:'' ModDataLinkSource (''mod_dl_src:'' @ t)"
    "parseAction (''mod_nw_dst:'' @ t) = parse_ip_action ''mod_nw_dst:'' ModNetworkDestination (''mod_nw_dst:'' @ t)"
    "parseAction (''mod_nw_src:'' @ t) = parse_ip_action ''mod_nw_src:'' ModNetworkSource (''mod_nw_src:'' @ t)"
    "parseAction (''mod_tp_dst:'' @ t) = parse_port_action ''mod_tp_dst:'' ModTransportDestinationPort (''mod_tp_dst:'' @ t)"
    "parseAction (''mod_tp_src:'' @ t) = parse_port_action ''mod_tp_src:'' ModTransportSourcePort (''mod_tp_src:'' @ t)"
    "parseAction (''mod_vlan_vid:'' @ t) = parse_int_action ''mod_vlan_vid:'' ModVLANVID (''mod_vlan_vid:'' @ t)"
    "parseAction (''output:'' @ t) = parse_int_action ''output:'' Output (''output:'' @ t)"
  using assms
  by (simp_all add: parseAction_unfold parseAction_arguments ctRe_no_paren Let_def action_patterns
      del: ToLower.simps)

definition no_special :: "string \<Rightarrow> bool" where
  "no_special s \<longleftrightarrow> CHR ''('' \<notin> set s \<and> CHR '')'' \<notin> set s \<and> CHR '','' \<notin> set s"

lemma token_plain: "no_special s \<Longrightarrow> token d (s @ t) = token d t" "no_special s \<Longrightarrow> token d s = (d = 0)"
  by (induction s) (auto simp: no_special_def)

lemma token_comma: "0 < d \<Longrightarrow> token d (CHR '','' # s) = token d s"
  by simp

lemma number_no_special [simp]: "no_special (Itoa i)" "no_special (fmt_d w)" "no_special (fmt_0x k w)"
  using number_texts number_chars_safe unfolding no_special_def by blast+

lemma number_graphic [simp]:
  "list_all graphic (Itoa i)" "list_all graphic (fmt_d w)" "list_all graphic (fmt_0x k w)"
  using number_plain plain_graphic by blast+

lemma mac_text: "list_all graphic (HardwareAddrString a)" "no_special (HardwareAddrString a)"
  using mac_plain [of a] plain_graphic set_HardwareAddrString [of a]
  by (auto simp: no_special_def hex_digits_def)

lemma ipv4_text:
  assumes "length a = 4"
  shows "IPString a = ipv4_string a" "list_all graphic (IPString a)" "no_special (IPString a)"
proof -
  show s: "IPString a = ipv4_string a" using assms by (auto simp: IPString_def To4_def)
  have "set (ipv4_string a) \<subseteq> insert (CHR ''.'') (set hex_digits)"
    unfolding ipv4_string_def using hex_alphabet(2) by (intro set_Join_subset) fastforce+
  then show "list_all graphic (IPString a)" "no_special (IPString a)"
    unfolding s no_special_def by (auto simp: list_all_iff hex_digits_def graphic_def)
qed

lemma To4_mapped: "length a = 4 \<Longrightarrow> To4 (v4InV6Prefix @ a) = Some a" "length a = 4 \<Longrightarrow> To4 a = Some a"
  by (simp_all add: To4_def v4InV6Prefix_def)

text \<open>What one action must satisfy to be read back from a list.\<close>

definition reads_action :: "Action \<Rightarrow> string \<Rightarrow> bool" where
  "reads_action a t \<longleftrightarrow> parseAction t = Ok a \<and> token 0 t \<and> list_all graphic t \<and> t \<noteq> []"

lemma reads_text: "wf_action (textAction n) \<Longrightarrow> reads_action (textAction n) n"
  by (auto simp: reads_action_def parseAction_names simp del: insert_iff)
     (auto simp: action_names graphic_def)

lemma reads_ct:
  assumes "list_all graphic args" "token 1 (args @ '')'')" "args \<noteq> []"
  shows "reads_action (ctAction args) (''ct('' @ args @ '')'')"
proof -
  have "parseAction (''ct('' @ args @ '')'') = Ok (ctAction args)"
    using assms ctRe_text [OF assms(1,3)]
    by (simp add: parseAction_unfold parseAction_arguments ConnectionTracking_def Let_def del: ToLower.simps)
  then show ?thesis using assms by (simp add: reads_action_def)
qed

lemma reads_prefixed:
  assumes "parseAction (lit @ t) = Ok a" "list_all graphic (lit @ t)" "no_special (lit @ t)" "lit \<noteq> []"
  shows "reads_action a (lit @ t)"
  using assms token_plain(2) [OF assms(3), of 0] by (simp add: reads_action_def)

lemma no_special_append [simp]: "no_special (s @ t) \<longleftrightarrow> no_special s \<and> no_special t"
  by (auto simp: no_special_def)

lemma no_special_Cons [simp]:
  "no_special (c # s) \<longleftrightarrow> c \<noteq> CHR ''('' \<and> c \<noteq> CHR '')'' \<and> c \<noteq> CHR '','' \<and> no_special s"
  by (auto simp: no_special_def)

lemma no_special_Nil [simp]: "no_special []"
  by (simp add: no_special_def)

lemma no_specialD: "no_special s \<Longrightarrow> CHR ''('' \<notin> set s"
  by (simp add: no_special_def)

lemma reads_mac:
  assumes "length a = ethernetAddrLen"
  shows "reads_action (modDataLinkAction source a) (''mod_dl_src:'' @ HardwareAddrString a)"
    "reads_action (modDataLinkAction destination a) (''mod_dl_dst:'' @ HardwareAddrString a)"
proof -
  have "a \<noteq> []" using assms by (auto simp: ethernetAddrLen_def)
  then have "HardwareAddrString a \<noteq> []" using length_HardwareAddrString [of a] by (cases a) auto
  then have w: "scan_word (HardwareAddrString a) = Ok (HardwareAddrString a)"
    using mac_text(1) by (intro scan_word_graphic)
  have p: "ParseMAC (HardwareAddrString a) = Ok a"
    using assms by (intro ParseMAC_String) (simp add: ethernetAddrLen_def mac_sizes_def)
  note pre = parseAction_prefix [OF mac_text(1) no_specialD [OF mac_text(2)], of a]
  show "reads_action (modDataLinkAction source a) (''mod_dl_src:'' @ HardwareAddrString a)"
    by (rule reads_prefixed) (use pre(2) w p mac_text in \<open>simp_all add: parse_steps action_constructors\<close>)
  show "reads_action (modDataLinkAction destination a) (''mod_dl_dst:'' @ HardwareAddrString a)"
    by (rule reads_prefixed) (use pre(1) w p mac_text in \<open>simp_all add: parse_steps action_constructors\<close>)
qed

lemma reads_ip:
  assumes "length a = 4"
  shows "reads_action (modNetworkAction source (Some a)) (''mod_nw_src:'' @ IPString a)"
    "reads_action (modNetworkAction destination (Some a)) (''mod_nw_dst:'' @ IPString a)"
proof -
  note t = ipv4_text [OF assms]
  have p: "ParseIP (IPString a) = Some (v4InV6Prefix @ a)"
    using t(1) ParseIP_ipv4_string [OF assms] by simp
  then have "IPString a \<noteq> []" by (auto simp: ParseIP_def)
  then have w: "scan_word (IPString a) = Ok (IPString a)" using t(2) by (intro scan_word_graphic)
  note pre = parseAction_prefix [OF t(2) no_specialD [OF t(3)]]
  show "reads_action (modNetworkAction source (Some a)) (''mod_nw_src:'' @ IPString a)"
    by (rule reads_prefixed)
      (use pre(4) w p t(2,3) To4_mapped [OF assms] in \<open>simp_all add: parse_steps action_constructors\<close>)
  show "reads_action (modNetworkAction destination (Some a)) (''mod_nw_dst:'' @ IPString a)"
    by (rule reads_prefixed)
      (use pre(3) w p t(2,3) To4_mapped [OF assms] in \<open>simp_all add: parse_steps action_constructors\<close>)
qed

lemma reads_port:
  "reads_action (modTransportPortAction source p) (''mod_tp_src:'' @ fmt_d p)"
  "reads_action (modTransportPortAction destination p) (''mod_tp_dst:'' @ fmt_d p)"
proof -
  note pre = parseAction_prefix [OF number_graphic(2) no_specialD [OF number_no_special(2)], of p]
  show "reads_action (modTransportPortAction source p) (''mod_tp_src:'' @ fmt_d p)"
    by (rule reads_prefixed) (use pre(6) in \<open>simp_all add: parse_steps action_constructors scan_uint16_fmt_d\<close>)
  show "reads_action (modTransportPortAction destination p) (''mod_tp_dst:'' @ fmt_d p)"
    by (rule reads_prefixed) (use pre(5) in \<open>simp_all add: parse_steps action_constructors scan_uint16_fmt_d\<close>)
qed

lemma reads_int:
  assumes "int64 i"
  shows "reads_action (modVLANVIDAction i) (''mod_vlan_vid:'' @ Itoa i)"
    "reads_action (outputAction i) (''output:'' @ Itoa i)"
proof -
  have s: "scan_int (Itoa i) = Ok (i, [])" using scan_int_Itoa [OF assms, of "[]"] by simp
  note pre = parseAction_prefix [OF number_graphic(1) no_specialD [OF number_no_special(1)], of i]
  show "reads_action (modVLANVIDAction i) (''mod_vlan_vid:'' @ Itoa i)"
    by (rule reads_prefixed) (use pre(7) s in \<open>simp_all add: parse_steps action_constructors\<close>)
  show "reads_action (outputAction i) (''output:'' @ Itoa i)"
    by (rule reads_prefixed) (use pre(8) s in \<open>simp_all add: parse_steps action_constructors\<close>)
qed

lemma reads_conjunction:
  assumes "int64 n" "int64 k" "int64 d"
  shows "reads_action (conjunctionAction n k d)
    (''conjunction('' @ Itoa n @ '','' @ Itoa k @ ''/'' @ Itoa d @ '')'')" (is "reads_action _ ?t")
proof -
  have "ctRe ?t = None"
  proof -
    have "CHR ''('' \<notin> set (Itoa n @ '','' @ Itoa k @ ''/'' @ Itoa d @ '')'')"
      using number_no_special(1) by (simp add: no_special_def)
    from leftmost_notin [OF _ this, of "''ct(''"] show ?thesis by (simp add: ctRe_def)
  qed
  moreover have "\<not> re_digit CHR '',''" "\<not> re_digit CHR ''/''" "\<not> re_digit CHR '')''"
    by (simp_all add: re_digit_def)
  ultimately have "parseAction ?t = Ok (conjunctionAction n k d)"
    using assms
    by (simp add: parseAction_unfold parseAction_arguments parse_conjunction_def action_patterns Let_def
        scan_int_Itoa action_constructors del: ToLower.simps)
  then show ?thesis by (simp add: reads_action_def token_plain)
qed


lemma ctRe_literal:
  "CHR ''('' \<notin> set t \<Longrightarrow> ctRe (''resubmit('' @ t) = None"
  using leftmost_notin [of "CHR ''(''" "''ct(''" t] by (simp add: ctRe_def)

lemma digits_Itoa: "0 \<le> i \<Longrightarrow> \<forall>c \<in> set (Itoa i). re_digit c"
  using set_Itoa_nonneg re_digit_dec by blast

definition zero_blank :: "int \<Rightarrow> string" where
  "zero_blank i = (if i \<noteq> 0 then Itoa i else [])"

lemma zero_blank_text:
  assumes "0 \<le> i" "int64 i"
  shows "\<forall>c \<in> set (zero_blank i). re_digit c" "optional_int (zero_blank i) = Ok i"
    "no_special (zero_blank i)" "list_all graphic (zero_blank i)"
  using assms digits_Itoa [of i]
  by (simp_all add: zero_blank_def optional_int_def Atoi_def ParseInt_Itoa)

lemma reads_resubmit:
  assumes "0 \<le> p" "int64 p" "0 \<le> t" "int64 t"
  shows "reads_action (resubmitAction p t) (''resubmit('' @ zero_blank p @ '','' @ zero_blank t @ '')'')"
    (is "reads_action _ (_ @ ?r)")
proof -
  note P = zero_blank_text [OF assms(1,2)] and T = zero_blank_text [OF assms(3,4)]
  have n: "\<not> re_digit CHR '',''" "\<not> re_digit CHR '')''" by (simp_all add: re_digit_def)
  have "takeWhile re_digit ?r = zero_blank p" "dropWhile re_digit ?r = CHR '','' # zero_blank t @ '')''"
    using span_digits [OF P(1), of "CHR '','' # zero_blank t @ '')''"] n by simp_all
  moreover have "takeWhile re_digit (zero_blank t @ '')'') = zero_blank t"
    "dropWhile re_digit (zero_blank t @ '')'') = '')''"
    using span_digits [OF T(1), of "'')''"] n by simp_all
  ultimately have re: "resubmitRe (''resubmit('' @ ?r) = Some (zero_blank p, zero_blank t)"
    unfolding resubmitRe_def by (intro leftmost_start) (simp add: Let_def)
  have ct: "ctRe (''resubmit('' @ ?r) = None"
    using no_specialD P(3) T(3) by (intro ctRe_literal) auto
  have "parseAction (''resubmit('' @ ?r) = Ok (resubmitAction p t)"
    using ct re P T
    by (simp add: parseAction_unfold parseAction_arguments action_patterns Let_def action_constructors
        del: ToLower.simps)
  then show ?thesis using P T by (simp add: reads_action_def token_plain)
qed

lemma reads_resubmit_port:
  assumes "0 \<le> p" "int64 p"
  shows "reads_action (resubmitPortAction p) (''resubmit:'' @ Itoa p)"
proof (rule reads_prefixed)
  have n: "CHR ''('' \<notin> set (Itoa p)" using no_specialD number_no_special(1) .
  have "takeWhile re_digit (Itoa p) = Itoa p"
    using digits_Itoa [OF assms(1)] by simp
  then have "resubmitPortRe (''resubmit:'' @ Itoa p) = Some (Itoa p)"
    unfolding resubmitPortRe_def by (intro leftmost_start) (simp add: Let_def del: takeWhile_eq_all_conv)
  then show "parseAction (''resubmit:'' @ Itoa p) = Ok (resubmitPortAction p)"
    using n assms
    by (simp add: parseAction_unfold parseAction_arguments ctRe_no_paren resubmitRe_no_paren action_patterns
        Let_def action_constructors Atoi_def ParseInt_Itoa del: ToLower.simps)
qed simp_all

lemma resubmitPortRe_absent: "Index s ''resubmit:'' = None \<Longrightarrow> resubmitPortRe s = None"
  unfolding resubmitPortRe_def by (rule leftmost_absent)

lemma reads_load:
  assumes "wf_action (loadSetFieldAction v field typ)" "v \<noteq> []" "field \<noteq> []"
  shows "reads_action (loadSetFieldAction v field actionLoad) (''load:'' @ v @ ''->'' @ field)"
    "reads_action (loadSetFieldAction v field actionSetField) (''set_field:'' @ v @ ''->'' @ field)"
proof -
  let ?x = "v @ ''->'' @ field"
  have g: "list_all graphic v" "list_all graphic field" "no_special v" "no_special field"
    "CHR ''('' \<notin> set v" "CHR ''('' \<notin> set field"
    and i: "Index field ''->'' = None" "Index ?x ''resubmit:'' = None" "Index ?x ''load:'' = None"
    using assms(1) by (auto simp: no_special_def)
  note a = arrow_text [OF g(1,2) assms(2,3) i(1)]
  have "loadRe (''load:'' @ ?x) = Some (v, field)"
    unfolding loadRe_def using a by (rule leftmost_start)
  moreover have "setFieldRe (''set_field:'' @ ?x) = Some (v, field)"
    unfolding setFieldRe_def using a by (rule leftmost_start)
  moreover have "resubmitPortRe (''load:'' @ ?x) = None" "resubmitPortRe (''set_field:'' @ ?x) = None"
    using i(2) by (auto intro!: resubmitPortRe_absent)
  moreover have "loadRe (''set_field:'' @ ?x) = None"
    unfolding loadRe_def using i(3) by (intro leftmost_absent) simp
  ultimately have p: "parseAction (''load:'' @ ?x) = Ok (loadSetFieldAction v field actionLoad)"
    "parseAction (''set_field:'' @ ?x) = Ok (loadSetFieldAction v field actionSetField)"
    using g
    by (simp_all add: parseAction_unfold parseAction_arguments ctRe_no_paren resubmitRe_no_paren
        action_patterns Let_def action_constructors del: ToLower.simps)
  show "reads_action (loadSetFieldAction v field actionLoad) (''load:'' @ ?x)"
    by (rule reads_prefixed [OF p(1)]) (use g in simp_all)
  show "reads_action (loadSetFieldAction v field actionSetField) (''set_field:'' @ ?x)"
    by (rule reads_prefixed [OF p(2)]) (use g in simp_all)
qed

lemma marshal_reads_action:
  assumes "wf_action a" "Action_MarshalText a = Ok t"
  shows "reads_action a t"
proof (cases a)
  case (textAction n)
  then show ?thesis using assms reads_text [of n] by (simp add: action_marshalers)
next
  case (ctAction args)
  then show ?thesis using assms reads_ct [of args]
    by (auto simp: action_marshalers action_patterns split: if_splits)
next
  case (modDataLinkAction sd addr)
  then show ?thesis using assms reads_mac [of addr]
    by (auto simp: action_marshalers action_patterns split: if_splits)
next
  case (modNetworkAction sd ip)
  then show ?thesis using assms reads_ip
    by (auto simp: action_marshalers action_patterns split: if_splits option.splits)
next
  case (modTransportPortAction sd p)
  then show ?thesis using assms reads_port [of p]
    by (auto simp: action_marshalers action_patterns split: if_splits)
next
  case (modVLANVIDAction vid)
  moreover have "validVLANVID vid \<Longrightarrow> int64 vid" by (simp add: validVLANVID_def int64_def)
  ultimately show ?thesis using assms reads_int(1) [of vid]
    by (auto simp: action_marshalers action_patterns split: if_splits)
next
  case (outputAction p)
  then show ?thesis using assms reads_int(2) [of p]
    by (auto simp: action_marshalers action_patterns split: if_splits)
next
  case (conjunctionAction n k d)
  then show ?thesis using assms reads_conjunction [of n k d]
    by (auto simp: action_marshalers action_patterns split: if_splits)
next
  case (resubmitAction p tb)
  then show ?thesis using assms reads_resubmit [of p tb]
    by (auto simp: action_marshalers action_patterns zero_blank_def Let_def split: if_splits)
next
  case (resubmitPortAction p)
  moreover have "0 \<le> p \<Longrightarrow> p \<le> 0xfffffeff \<Longrightarrow> int64 p" by (simp add: int64_def)
  ultimately show ?thesis using assms reads_resubmit_port [of p]
    by (auto simp: action_marshalers action_patterns split: if_splits)
next
  case (loadSetFieldAction v field ty)
  then show ?thesis using assms reads_load [of v field ty]
    by (auto simp: action_marshalers actionLoad_def actionSetField_def split: if_splits)
qed (use assms(1) in simp)

section \<open>The interface this component provides\<close>

text \<open>Printing and parsing one action is a text codec on the well-formed, printable actions.\<close>

definition printed :: "(Action \<Rightarrow> string result) \<Rightarrow> Action \<Rightarrow> string" where
  "printed marshal a = (case marshal a of Ok t \<Rightarrow> t | _ \<Rightarrow> [])"

definition readable :: "Action \<Rightarrow> bool" where
  "readable a \<longleftrightarrow> wf_action a \<and> is_ok (Action_MarshalText a)"

lemma readable_text:
  assumes "readable a"
  shows "Action_MarshalText a = Ok (printed Action_MarshalText a)"
    "reads_action a (printed Action_MarshalText a)"
proof -
  from assms obtain t where t: "Action_MarshalText a = Ok t" "wf_action a"
    by (auto simp: readable_def is_ok_iff)
  then show "Action_MarshalText a = Ok (printed Action_MarshalText a)"
    "reads_action a (printed Action_MarshalText a)"
    using marshal_reads_action by (simp_all add: printed_def)
qed

interpretation action_codec: text_codec "printed Action_MarshalText" parseAction readable
  by unfold_locales (use readable_text(2) in \<open>simp add: reads_action_def\<close>)

lemma readable_list:
  assumes "list_all readable as"
  shows "each Action_MarshalText as = Ok (map (printed Action_MarshalText) as)"
    "token_texts (map (printed Action_MarshalText) as)"
  using assms readable_text
  by (auto simp: list_all_iff each_Ok_iff list_all2_map2 token_texts_def reads_action_def intro!: list.rel_refl_strong)

lemma set_Join_graphic:
  "\<forall>t \<in> set ts. list_all graphic t \<Longrightarrow> list_all graphic sep \<Longrightarrow> list_all graphic (Join ts sep)"
  using set_Join [of ts sep] by (fastforce simp: list_all_iff)

lemma Parse_printed:
  assumes "list_all readable as"
  shows "Parse (newActionParser (Join (map (printed Action_MarshalText) as) '','')) =
    Ok (as, map (printed Action_MarshalText) as)"
proof -
  note t = readable_list(2) [OF assms]
  then have "list_all graphic (Join (map (printed Action_MarshalText) as) '','')"
    by (intro set_Join_graphic) (auto simp: token_texts_def graphic_def)
  then show ?thesis
    using Parse_tokens [OF t] action_codec.dec_enc_each [OF assms]
    by (simp add: newActionParser_graphic)
qed

section \<open>Actions that are not read back\<close>

text \<open>Two kinds of actions are marshaled, but \<^verbatim>\<open>parseAction\<close> has no rule for their text.\<close>

fun unread_action :: "Action \<Rightarrow> bool" where
  "unread_action (setTunnelAction _) = True"
| "unread_action (resubmitAction port tbl) = (int64 port \<and> int64 tbl \<and> (port < 0 \<or> tbl < 0))"
| "unread_action _ = False"

lemma set_tunnel_text:
  "parseAction (''set_tunnel:'' @ fmt_0x 0 n) = Err (ErrNoActionMatched (''set_tunnel:'' @ fmt_0x 0 n))"
proof -
  let ?t = "''set_tunnel:'' @ fmt_0x 0 n"
  have g: "list_all graphic ?t" "CHR ''('' \<notin> set ?t"
    using number_no_special(3) [of 0 n] by (simp_all add: no_special_def)
  have c: "CHR ''-'' \<notin> set (fmt_0x 0 n)" "CHR ''s'' \<notin> set (fmt_0x 0 n)" "CHR ''l'' \<notin> set (fmt_0x 0 n)"
    using set_fmt_0x [of 0 n] by (auto simp: hex_digits_def)
  have "resubmitPortRe ?t = None" "loadRe ?t = None" "setFieldRe ?t = None"
    using leftmost_notin [of "CHR ''s''" "''resubmit:''" "fmt_0x 0 n"]
      leftmost_notin [of "CHR ''l''" "''load:''" "fmt_0x 0 n"]
      leftmost_notin [of "CHR ''s''" "''set_field:''" "fmt_0x 0 n"] c
    by (simp_all add: resubmitPortRe_def loadRe_def setFieldRe_def)
  then show ?thesis
    using g
    by (simp add: parseAction_unfold parseAction_arguments ctRe_no_paren resubmitRe_no_paren
        action_patterns Let_def del: ToLower.simps)
qed

lemma zero_blank_chars:
  "list_all graphic (zero_blank i)" "no_special (zero_blank i)" "CHR '':'' \<notin> set (zero_blank i)"
proof -
  have "CHR '':'' \<notin> set number_chars" by code_simp
  then have "CHR '':'' \<notin> set (Itoa i)" using number_texts(3) [of i] by blast
  then show "list_all graphic (zero_blank i)" "no_special (zero_blank i)" "CHR '':'' \<notin> set (zero_blank i)"
    by (simp_all add: zero_blank_def)
qed

lemma zero_blank_negative: "i < 0 \<Longrightarrow> \<exists>s. zero_blank i = CHR ''-'' # s"
  by (simp add: zero_blank_def Itoa_def)

lemma resubmit_literal:
  "f r = None \<Longrightarrow> CHR ''('' \<notin> set r \<Longrightarrow> leftmost ''resubmit('' f (''resubmit('' @ r) = None"
  using leftmost_notin [of "CHR ''(''" "''resubmit(''" r f] by (simp add: HasPrefix_def)

lemma resubmitRe_negative:
  assumes "int64 p" "int64 t" "p < 0 \<or> t < 0"
  shows "resubmitRe (''resubmit('' @ zero_blank p @ '','' @ zero_blank t @ '')'') = None"
proof -
  let ?r = "zero_blank p @ '','' @ zero_blank t @ '')''"
  let ?f = "\<lambda>t. let p = takeWhile re_digit t; t1 = dropWhile re_digit t;
         q = takeWhile re_digit (drop 1 t1); t2 = dropWhile re_digit (drop 1 t1)
     in if HasPrefix t1 '','' \<and> HasPrefix t2 '')'' then Some (p, q) else None"
  have d: "\<not> re_digit CHR ''-''" "\<not> re_digit CHR '',''" by (simp_all add: re_digit_def)
  have "?f ?r = None"
  proof (cases "p < 0")
    case True
    then obtain s where "zero_blank p = CHR ''-'' # s" using zero_blank_negative by blast
    then show ?thesis using d by (simp add: Let_def HasPrefix_def)
  next
    case False
    then obtain s where s: "zero_blank t = CHR ''-'' # s" using zero_blank_negative assms(3) by blast
    have "dropWhile re_digit ?r = '','' @ zero_blank t @ '')''"
      using span_digits [OF zero_blank_text(1), of p "'','' @ zero_blank t @ '')''"] False assms(1) d by simp
    then show ?thesis using d by (simp add: Let_def HasPrefix_def s)
  qed
  moreover have "CHR ''('' \<notin> set ?r" using zero_blank_chars(2) [of p] zero_blank_chars(2) [of t] by (simp add: no_special_def)
  ultimately show ?thesis unfolding resubmitRe_def by (rule resubmit_literal)
qed

lemma resubmit_negative_text:
  assumes "int64 p" "int64 t" "p < 0 \<or> t < 0"
  shows "parseAction (''resubmit('' @ zero_blank p @ '','' @ zero_blank t @ '')'') =
    Err (ErrNoActionMatched (''resubmit('' @ zero_blank p @ '','' @ zero_blank t @ '')''))"
proof -
  let ?r = "zero_blank p @ '','' @ zero_blank t @ '')''"
  have c: "CHR ''('' \<notin> set ?r" "CHR '':'' \<notin> set (''resubmit('' @ ?r)"
    using zero_blank_chars(2,3) [of p] zero_blank_chars(2,3) [of t] by (auto simp: no_special_def)
  have "resubmitPortRe (''resubmit('' @ ?r) = None" "loadRe (''resubmit('' @ ?r) = None" "setFieldRe (''resubmit('' @ ?r) = None"
    unfolding resubmitPortRe_def loadRe_def setFieldRe_def
    by (rule leftmost_notin [OF _ c(2)]; simp)+
  then show ?thesis
    using ctRe_literal [OF c(1)] resubmitRe_negative [OF assms] zero_blank_chars(1)
    by (simp add: parseAction_unfold parseAction_arguments action_patterns Let_def del: ToLower.simps)
qed

lemma unread_text:
  assumes "unread_action a" "Action_MarshalText a = Ok t"
  shows "parseAction t = Err (ErrNoActionMatched t)" "token 0 t" "list_all graphic t" "t \<noteq> []"
proof -
  have "parseAction t = Err (ErrNoActionMatched t) \<and> token 0 t \<and> list_all graphic t \<and> t \<noteq> []"
  proof (cases a)
    case (setTunnelAction n)
    then have t: "t = ''set_tunnel:'' @ fmt_0x 0 n" using assms(2) by (simp add: action_marshalers)
    show ?thesis using set_tunnel_text [of n] unfolding t by (simp add: token_plain)
  next
    case (resubmitAction p tb)
    then have t: "t = ''resubmit('' @ zero_blank p @ '','' @ zero_blank tb @ '')''"
      using assms(2) by (auto simp: action_marshalers action_patterns zero_blank_def Let_def split: if_splits)
    show ?thesis using resubmit_negative_text [of p tb] assms(1) zero_blank_chars unfolding t resubmitAction
      by (simp add: token_plain)
  qed (use assms(1) in simp_all)
  then show "parseAction t = Err (ErrNoActionMatched t)" "token 0 t" "list_all graphic t" "t \<noteq> []" by simp_all
qed

section \<open>Properties\<close>

text \<open>
  C6: which lists of actions are read back from their text. The actions are marshaled one by one and joined with
  commas; the tokenizer cuts the text into exactly these pieces, also where an action has commas inside parentheses, and
  \<^verbatim>\<open>Parse\<close> returns the same actions in order, unless one is a \<^verbatim>\<open>SetTunnel\<close> or a \<^verbatim>\<open>Resubmit\<close> with a negative number: then it
  fails with the text of the first of these. Free text in an action must be visible ASCII: connection-tracking
  arguments with balanced parentheses; values and fields of \<^verbatim>\<open>Load\<close> and \<^verbatim>\<open>SetField\<close> without commas and parentheses,
  without \<^verbatim>\<open>resubmit:\<close> and \<^verbatim>\<open>load:\<close>, and the field without an arrow.
\<close>

theorem action_list_round_trip:
  assumes "list_all (\<lambda>a. wf_action a \<or> unread_action a) as" "each Action_MarshalText as = Ok ts"
  shows "Parse (newActionParser (Join ts '','')) =
    (case find (\<lambda>(a, t). unread_action a) (zip as ts) of None \<Rightarrow> Ok (as, ts) | Some (a, t) \<Rightarrow> Err (ErrNoActionMatched t))"
proof -
  have texts: "parseAction t = (if unread_action a then Err (ErrNoActionMatched t) else Ok a) \<and> token 0 t \<and> list_all graphic t \<and> t \<noteq> []"
    if "wf_action a \<or> unread_action a" "Action_MarshalText a = Ok t" for a t
    using that unread_text [of a t] marshal_reads_action [of a t] by (auto simp: reads_action_def)
  have l: "list_all2 (\<lambda>a t. (wf_action a \<or> unread_action a) \<and> Action_MarshalText a = Ok t) as ts"
    using assms by (simp add: each_Ok_iff list_all2_conv_all_nth list_all_length)
  then have "each parseAction ts = (case find (\<lambda>(a, t). unread_action a) (zip as ts) of None \<Rightarrow> Ok as | Some (a, t) \<Rightarrow> Err (ErrNoActionMatched t))"
    by (induction rule: list_all2_induct) (auto simp: texts split: option.splits)
  moreover have t: "token_texts ts"
    using l texts unfolding token_texts_def
    by (induction rule: list_all2_induct) fastforce+
  moreover have "list_all graphic (Join ts '','')"
    using t by (intro set_Join_graphic) (auto simp: token_texts_def graphic_def)
  ultimately show ?thesis
    using Parse_tokens [OF t] by (simp add: newActionParser_graphic split: option.split)
qed

theorem action_list_round_trip_witness:
  "Parse (newActionParser ''ct(commit,zone=5),resubmit(,25),conjunction(7,1/2)'') =
     Ok ([ConnectionTracking ''commit,zone=5'', Resubmit 0 25, Conjunction 7 1 2],
         [''ct(commit,zone=5)'', ''resubmit(,25)'', ''conjunction(7,1/2)'']) \<and>
   Parse (newActionParser ''drop,resubmit(-1,25),set_tunnel:0x7'') = Err (ErrNoActionMatched ''resubmit(-1,25)'')"
proof -
  let ?as = "[ConnectionTracking ''commit,zone=5'', Resubmit 0 25, Conjunction 7 1 2]" and ?bs = "[Drop, Resubmit (- 1) 25, SetTunnel 7]"
  have "list_all (\<lambda>a. wf_action a \<or> unread_action a) ?as" "list_all (\<lambda>a. wf_action a \<or> unread_action a) ?bs"
    by (simp_all add: action_constructors int64_def graphic_def)
  moreover have "each Action_MarshalText ?as = Ok [''ct(commit,zone=5)'', ''resubmit(,25)'', ''conjunction(7,1/2)'']"
    "each Action_MarshalText ?bs = Ok [''drop'', ''resubmit(-1,25)'', ''set_tunnel:0x7'']"
    by code_simp+
  ultimately show ?thesis
    using action_list_round_trip [of ?as "[''ct(commit,zone=5)'', ''resubmit(,25)'', ''conjunction(7,1/2)'']"]
      action_list_round_trip [of ?bs "[''drop'', ''resubmit(-1,25)'', ''set_tunnel:0x7'']"]
    by (simp add: action_constructors int64_def)
qed

text \<open>
  C29: the tokenizer is sound: every action it returns is what \<^verbatim>\<open>parseAction\<close> makes of the raw
  text returned beside it, and it cannot panic while no closing parenthesis comes before its
  opening one.
\<close>

theorem Parse_sound_total:
  "(Parse p = Ok (as, raw) \<longrightarrow> each parseAction raw = Ok as \<and> length raw = length as) \<and>
   (closes_ok (ap_s p) (ap_r p) \<longrightarrow> Parse p \<noteq> Panic)"
  using Parse_sound [of p as raw] Parse_no_panic [of p] each_length [of parseAction raw as] by auto

theorem Parse_sound_total_witness:
  "Parse (newActionParser ''drop,ct(a(b)'') \<noteq> Panic"
  using Parse_sound_total [of "newActionParser ''drop,ct(a(b)''"]
  by (simp add: newActionParser_def ascii_def)

text \<open>
  A closing parenthesis without an opening one pops the empty stack: whatever
  well-formed text stands before it in the same action, and whatever follows, \<^verbatim>\<open>Parse\<close> panics.
\<close>

theorem Parse_unmatched_paren_panics:
  assumes "token 0 t" "list_all graphic t"
  shows "Parse (newActionParser (t @ '')'' @ r)) = Panic"
proof -
  have "list_all ascii t" using assms(2) by (auto simp: list_all_iff graphic_ascii)
  then have "newActionParser (t @ '')'' @ r) =
      \<lparr>ap_r = char_runes t @ '')'' # map snd (runes r), ap_s = 0\<rparr>"
    by (simp add: newActionParser_def runes_ascii_append char_runes_def ascii_def)
  then show ?thesis
    using read_action_token [OF assms, of "'')'' # map snd (runes r)" "[]"]
    by (simp add: Parse.simps actionParser_parseAction_def pop_def eof_def)
qed

theorem Parse_unmatched_paren_panics_witness: "Parse (newActionParser ''output:1)'') = Panic"
  using Parse_unmatched_paren_panics [of "''output:1''" "[]"] by (simp add: graphic_def)

text \<open>
  An action that ends where its number should be makes the scanner report \<^verbatim>\<open>io.EOF\<close>, which
  \<^verbatim>\<open>Parse\<close> takes for the end of the list: the action and everything behind it are dropped
  without an error.
\<close>

theorem Parse_swallows_truncated_action:
  "Parse (newActionParser (''output:,'' @ r)) = Ok ([], []) \<and>
   Parse (newActionParser (''mod_vlan_vid:,'' @ r)) = Ok ([], [])"
proof -
  have a: "newActionParser (t @ '','' @ r) = \<lparr>ap_r = char_runes t @ '','' # map snd (runes r), ap_s = 0\<rparr>"
    if "list_all ascii t" for t
    using that by (simp add: newActionParser_def runes_ascii_append char_runes_def ascii_def)
  have p: "parseAction ''output:'' = Err ErrEOF" "parseAction ''mod_vlan_vid:'' = Err ErrEOF"
    by code_simp+
  show ?thesis
    using a [of "''output:''"] a [of "''mod_vlan_vid:''"] p
    by (simp add: Parse.simps actionParser_parseAction_def ascii_def eof_def)
qed

text \<open>
  The text of \<^verbatim>\<open>SetTunnel\<close> is not recognised by \<^verbatim>\<open>parseAction\<close>: a flow with this action is
  marshaled but cannot be unmarshaled.
\<close>

theorem set_tunnel_not_parsed:
  "\<exists>t. Action_MarshalText (SetTunnel n) = Ok t \<and> parseAction t = Err (ErrNoActionMatched t)"
  using set_tunnel_text [of n] by (simp add: action_marshalers SetTunnel_def)

end
