(* ===== verification/Ovs_Flow.thy ===== *)
theory Ovs_Flow
  imports Match_Parser Action_Parser
begin

text \<open>
  \<^verbatim>\<open>ovs/flow.go\<close> and \<^verbatim>\<open>ovs/matchflow.go\<close>: a flow, its text, and the reduced form used to select
  flows for deletion. Marshaling and unmarshaling follow the code statement by statement; the
  lemmas restate the text as a comma-separated list of fields, from which the round trip and
  the shape of the texts follow.
\<close>

section \<open>Flows\<close>

type_synonym Protocol = string

record Flow =
  f_Priority :: int
  f_Protocol :: Protocol
  f_InPort :: int
  f_Matches :: "Match list"
  f_Table :: int
  f_IdleTimeout :: int
  f_Cookie :: "64 word"
  f_Actions :: "Action list"

definition zero_Flow :: Flow where
  "zero_Flow = \<lparr>f_Priority = 0, f_Protocol = [], f_InPort = 0, f_Matches = [], f_Table = 0,
     f_IdleTimeout = 0, f_Cookie = 0, f_Actions = []\<rparr>"

definition PortLOCAL :: int where "PortLOCAL = -1"

definition priorityString :: string where "priorityString = ''priority=''"
definition priority :: string where "priority = ''priority''"
definition cookie :: string where "cookie = ''cookie''"
definition keyActions :: string where "keyActions = ''actions''"
definition idleTimeout :: string where "idleTimeout = ''idle_timeout''"
definition inPort :: string where "inPort = ''in_port''"
definition table :: string where "table = ''table''"
definition duration :: string where "duration = ''duration''"
definition nPackets :: string where "nPackets = ''n_packets''"
definition nBytes :: string where "nBytes = ''n_bytes''"
definition hardAge :: string where "hardAge = ''hard_age''"
definition idleAge :: string where "idleAge = ''idle_age''"
definition portLOCAL :: string where "portLOCAL = ''LOCAL''"

lemmas flow_names = priorityString_def priority_def cookie_def keyActions_def idleTimeout_def
  inPort_def table_def duration_def nPackets_def nBytes_def hardAge_def idleAge_def portLOCAL_def

definition paddedHexUint64 :: "64 word \<Rightarrow> string" where
  "paddedHexUint64 i = fmt_0x 16 i"

text \<open>\<^verbatim>\<open>marshalFunctions\<close>, and its two uses.\<close>

definition marshalFunctions :: "('a \<Rightarrow> string result) \<Rightarrow> 'a list \<Rightarrow> string list result" where
  "marshalFunctions fn xs = each fn xs"

definition marshalActions :: "Flow \<Rightarrow> string list result" where
  "marshalActions f = marshalFunctions Action_MarshalText (f_Actions f)"

definition marshalMatches :: "Flow \<Rightarrow> string list result" where
  "marshalMatches f = marshalFunctions Match_MarshalText (f_Matches f)"

definition in_port_text :: "int \<Rightarrow> string" where
  "in_port_text p = (if p = PortLOCAL then portLOCAL else Itoa p)"

definition Flow_MarshalText :: "Flow \<Rightarrow> string result" where
  "Flow_MarshalText f =
     (if length (f_Actions f) = 0 then Err (FlowError [] ErrNoActions)
      else
        and_then (marshalActions f) (\<lambda>actions.
        and_then (marshalMatches f) (\<lambda>matches.
          if length actions > 1 \<and> (\<exists>a \<in> set actions. a = actionDrop)
          then Err (FlowError [] ErrActionsWithDrop)
          else
            let b = priorityString;
                b = b @ Itoa (f_Priority f);
                b = (if f_Protocol f \<noteq> [] then b @ '','' @ f_Protocol f else b);
                b = (if f_InPort f \<noteq> 0 then b @ '','' @ inPort @ ''='' @ in_port_text (f_InPort f) else b);
                b = (if length matches > 0 then b @ '','' @ Join matches '','' else b);
                b = b @ '','' @ table @ ''='' @ Itoa (f_Table f);
                b = b @ '','' @ idleTimeout @ ''='' @ Itoa (f_IdleTimeout f);
                b = (if f_Cookie f > 0 then b @ '','' @ cookie @ ''='' @ paddedHexUint64 (f_Cookie f) else b);
                b = b @ '','' @ keyActions @ ''='' @ Join actions '',''
            in Ok b)))"

text \<open>
  \<^verbatim>\<open>UnmarshalText\<close> fills the receiver; the loop over the comma-separated fields is
  \<open>flow_fields\<close>, its body \<open>flow_field\<close>.
\<close>

fun flow_error :: "string \<Rightarrow> 'a result \<Rightarrow> 'a result" where
  "flow_error s (Ok x) = Ok x"
| "flow_error s (Err e) = Err (FlowError s e)"
| "flow_error s Panic = Panic"

definition flow_field :: "Flow \<Rightarrow> string \<Rightarrow> Flow result" where
  "flow_field f s =
     (if \<not> Contains s ''='' then Ok (if s \<noteq> [] then f\<lparr>f_Protocol := s\<rparr> else f)
      else
        let kv = Split s ''='' in
        if length kv \<noteq> 2 then Ok f
        else
          let v = TrimSpace (kv ! 1); k = TrimSpace (kv ! 0) in
          if k = priority then
            and_then (flow_error v (ParseInt v 10 0)) (\<lambda>pri. Ok (f\<lparr>f_Priority := pri\<rparr>))
          else if k = cookie then
            and_then (flow_error v (ParseUint v 0 64)) (\<lambda>c. Ok (f\<lparr>f_Cookie := of_nat c\<rparr>))
          else if k = keyActions then Ok f
          else if k = inPort then
            (if TrimSpace v = portLOCAL then Ok (f\<lparr>f_InPort := PortLOCAL\<rparr>)
             else and_then (flow_error v (ParseInt v 10 0)) (\<lambda>port. Ok (f\<lparr>f_InPort := port\<rparr>)))
          else if k = idleTimeout then
            and_then (flow_error v (ParseInt v 10 0)) (\<lambda>t. Ok (f\<lparr>f_IdleTimeout := t\<rparr>))
          else if k = table then
            and_then (flow_error v (ParseInt v 10 0)) (\<lambda>t. Ok (f\<lparr>f_Table := t\<rparr>))
          else if k \<in> {duration, nPackets, nBytes, hardAge, idleAge} then Ok f
          else and_then (parseMatch (kv ! 0) v) (\<lambda>m. Ok (f\<lparr>f_Matches := f_Matches f @ [m]\<rparr>)))"

fun flow_fields :: "Flow \<Rightarrow> string list \<Rightarrow> Flow result" where
  "flow_fields f [] = Ok f"
| "flow_fields f (s # ss) = and_then (flow_field f s) (\<lambda>f'. flow_fields f' ss)"

definition Flow_UnmarshalText :: "Flow \<Rightarrow> string \<Rightarrow> Flow result" where
  "Flow_UnmarshalText f s =
     (let ss = Split s (keyActions @ ''='') in
      if length ss \<noteq> 2 \<or> ss ! 1 = [] then Err (FlowError [] ErrNoActions)
      else
        let matchers = TrimSpace (ss ! 0); actions = TrimSpace (ss ! 1) in
        and_then (flow_fields (f\<lparr>f_Matches := []\<rparr>) (Split matchers '','')) (\<lambda>f1.
          case Parse (newActionParser actions) of
            Panic \<Rightarrow> Panic
          | Err _ \<Rightarrow> Err (FlowError actions ErrInvalidActions)
          | Ok (out, raw) \<Rightarrow>
              if length raw > 1 \<and> (\<exists>a \<in> set raw. a = actionDrop)
              then Err (FlowError [] ErrActionsWithDrop)
              else Ok (f1\<lparr>f_Actions := out\<rparr>)))"

section \<open>Flows for deletion\<close>

record MatchFlow =
  mf_Protocol :: Protocol
  mf_InPort :: int
  mf_Matches :: "Match list"
  mf_Table :: int
  mf_Cookie :: "64 word"
  mf_CookieMask :: "64 word"

definition AnyTable :: int where "AnyTable = -1"

definition Flow_MatchFlow :: "Flow \<Rightarrow> MatchFlow" where
  "Flow_MatchFlow f =
     \<lparr>mf_Protocol = f_Protocol f, mf_InPort = f_InPort f, mf_Matches = f_Matches f,
      mf_Table = f_Table f, mf_Cookie = f_Cookie f, mf_CookieMask = 0\<rparr>"

definition MatchFlow_marshalMatches :: "MatchFlow \<Rightarrow> string list result" where
  "MatchFlow_marshalMatches f = marshalFunctions Match_MarshalText (mf_Matches f)"

definition MatchFlow_MarshalText :: "MatchFlow \<Rightarrow> string result" where
  "MatchFlow_MarshalText f =
     and_then (MatchFlow_marshalMatches f) (\<lambda>matches.
       let b = [];
           b = (if mf_Protocol f \<noteq> [] then b @ mf_Protocol f @ '','' else b);
           b = (if mf_InPort f \<noteq> 0
                then b @ inPort @ ''='' @ in_port_text (mf_InPort f) @ '','' else b);
           b = (if length matches > 0 then b @ Join matches '','' @ '','' else b);
           b = (if mf_Cookie f > 0 then
                  b @ cookie @ ''='' @ paddedHexUint64 (mf_Cookie f) @ ''/'' @
                  (if mf_CookieMask f = 0 then ''-1'' else paddedHexUint64 (mf_CookieMask f)) @ '',''
                else b);
           b = (if mf_Table f \<noteq> AnyTable then b @ table @ ''='' @ Itoa (mf_Table f) else b);
           b = TrimCommas b
       in if length b = 0 then Err (MatchFlowError [] ErrEmptyMatchFlow) else Ok b)"

section \<open>Searching across separators\<close>

lemma HasPrefix_sep: "c \<notin> set sub \<Longrightarrow> HasPrefix (a @ c # b) sub \<longleftrightarrow> HasPrefix a sub"
proof (induction a arbitrary: sub)
  case Nil
  then show ?case by (cases sub) auto
next
  case (Cons x a)
  then show ?case by (cases sub) auto
qed

lemma Index_sep:
  assumes "c \<notin> set sub" "sub \<noteq> []"
  shows "Index (a @ c # b) sub =
    (case Index a sub of Some i \<Rightarrow> Some i | None \<Rightarrow> map_option (\<lambda>j. Suc (length a + j)) (Index b sub))"
proof (induction a)
  case Nil
  then show ?case using assms by (cases sub) (auto simp: option.map_comp comp_def)
next
  case (Cons x a)
  then show ?case using HasPrefix_sep [OF assms(1), of "x # a" b]
    by (auto simp: option.map_comp comp_def split: option.splits)
qed

lemma Index_prefix: "Index (sub @ t) sub = Some 0"
  using HasPrefix_append [of sub t] by (cases "sub @ t") (auto simp del: HasPrefix_append)

lemma Split_at:
  assumes "Index a sub = None" "c \<notin> set sub" "sub \<noteq> []" "Index t sub = None"
  shows "Split (a @ c # sub @ t) sub = [a @ [c], t]"
proof -
  have "Index (a @ c # sub @ t) sub = Some (length a + 1)"
    using assms by (simp add: Index_sep Index_prefix)
  then show ?thesis using Split_once [of "a @ c # sub @ t" sub] assms by simp
qed

lemma Index_Join:
  assumes "c \<notin> set sub" "sub \<noteq> []" "\<forall>x \<in> set xs. Index x sub = None"
  shows "Index (Join xs [c]) sub = None"
  using assms(3) by (induction xs rule: induct_list012) (use assms(1,2) in \<open>auto simp: Index_sep\<close>)

lemma Index_key_value:
  assumes "c \<notin> set k" "c \<notin> set v" "\<not> HasSuffix k p"
  shows "Index (k @ c # v) (p @ [c]) = None"
proof (rule ccontr)
  assume "Index (k @ c # v) (p @ [c]) \<noteq> None"
  then obtain i where "Index (k @ c # v) (p @ [c]) = Some i" by blast
  from Index_SomeD [OF this] obtain x y where "k @ c # v = (x @ p) @ c # y"
    by (metis append.assoc append_Cons append_Nil)
  then have "k = x @ p" using append_Cons_eq_iff [OF assms(1,2)] by metis
  then show False using assms(3) by (simp add: HasSuffix_iff)
qed

section \<open>The text of a flow is a list of fields\<close>

definition field :: "string \<Rightarrow> string \<Rightarrow> string" where
  "field k v = k @ ''='' @ v"

definition optional :: "bool \<Rightarrow> 'a \<Rightarrow> 'a list" where
  "optional b x = (if b then [x] else [])"

definition flow_field_texts :: "Flow \<Rightarrow> string list \<Rightarrow> string list" where
  "flow_field_texts f matches =
     [field priority (Itoa (f_Priority f))] @
     optional (f_Protocol f \<noteq> []) (f_Protocol f) @
     optional (f_InPort f \<noteq> 0) (field inPort (in_port_text (f_InPort f))) @
     matches @
     [field table (Itoa (f_Table f)), field idleTimeout (Itoa (f_IdleTimeout f))] @
     optional (f_Cookie f > 0) (field cookie (paddedHexUint64 (f_Cookie f)))"

lemma Join_append: "xs \<noteq> [] \<Longrightarrow> ys \<noteq> [] \<Longrightarrow> Join (xs @ ys) sep = Join xs sep @ sep @ Join ys sep"
  by (induction xs rule: induct_list012) (auto simp: Join_append1)

lemma Join_snoc: "xs \<noteq> [] \<Longrightarrow> Join (xs @ [y]) sep = Join xs sep @ sep @ y"
  by (simp add: Join_append)

lemma flow_text_fields:
  assumes "Flow_MarshalText f = Ok t"
  obtains matches actions where
    "each Match_MarshalText (f_Matches f) = Ok matches"
    "each Action_MarshalText (f_Actions f) = Ok actions" "actions \<noteq> []"
    "length actions > 1 \<longrightarrow> actionDrop \<notin> set actions"
    "t = Join (flow_field_texts f matches) '','' @ CHR '','' # (keyActions @ ''='') @ Join actions '',''"
proof -
  from assms obtain matches actions where
    m: "each Match_MarshalText (f_Matches f) = Ok matches"
    and a: "each Action_MarshalText (f_Actions f) = Ok actions" "f_Actions f \<noteq> []"
    and d: "\<not> (length actions > 1 \<and> (\<exists>a \<in> set actions. a = actionDrop))"
    by (auto simp: Flow_MarshalText_def marshalActions_def marshalMatches_def marshalFunctions_def
        split: if_splits)
  have "actions \<noteq> []" using a each_length [OF a(1)] by auto
  moreover have "t = Join (flow_field_texts f matches) '','' @ CHR '','' # (keyActions @ ''='') @ Join actions '',''"
    using assms m a d
    by (cases "matches = []")
      (auto simp: Flow_MarshalText_def marshalActions_def marshalMatches_def marshalFunctions_def
        flow_field_texts_def optional_def field_def Join_append Join_append1 priorityString_def priority_def
        Let_def split: if_splits)
  ultimately show thesis using that m a d by blast
qed


section \<open>Reading the fields back\<close>

text \<open>A flow whose text can be read back.\<close>

definition wf_flow :: "Flow \<Rightarrow> bool" where
  "wf_flow f \<longleftrightarrow> int64 (f_Priority f) \<and> int64 (f_InPort f) \<and> int64 (f_Table f) \<and>
     int64 (f_IdleTimeout f) \<and> list_all plain (f_Protocol f) \<and>
     list_all wf_match (f_Matches f) \<and> list_all wf_action (f_Actions f)"

definition normalize_flow :: "Flow \<Rightarrow> Flow" where
  "normalize_flow f = f\<lparr>f_Matches := map normalize (f_Matches f)\<rparr>"

lemma plain_chars [simp]: "plain CHR ''-''" "plain CHR ''_''"
  by (simp_all add: plain_def graphic_def)

lemma in_port_text_plain [simp]: "list_all plain (in_port_text p)"
  using number_plain(1) by (auto simp: in_port_text_def portLOCAL_def plain_def graphic_def)

lemma padded_plain [simp]: "list_all plain (paddedHexUint64 c)"
  by (simp add: paddedHexUint64_def number_plain)

lemma match_key_plain: "directed m \<Longrightarrow> list_all plain (match_key m) \<and> \<not> HasSuffix (match_key m) keyActions"
  by (cases m) (auto simp: match_names keyActions_def plain_def graphic_def HasSuffix_def)

lemma wf_match_directed: "wf_match m \<Longrightarrow> directed m"
  by (cases m) auto

lemma match_text_field:
  assumes "wf_match m" "Match_MarshalText m = Ok t"
  shows "t = field (match_key m) (match_value m)" "list_all plain (match_key m)"
    "list_all plain (match_value m)" "\<not> HasSuffix (match_key m) keyActions"
    "parseMatch (match_key m) (match_value m) = Ok (normalize m)"
  using marshal_reads_back [OF assms] match_key_plain [OF wf_match_directed [OF assms(1)]]
  by (simp_all add: reads_back_def field_def key_value_def Let_def)

lemma Split_field: "list_all plain k \<Longrightarrow> list_all plain v \<Longrightarrow> Split (field k v) ''='' = [k, v]"
  unfolding field_def using plain_notin(2) by (simp add: Split_chr_append Split_chr_notin)

lemma flow_field_simps:
  assumes "list_all plain k" "list_all plain v"
  shows "Contains (field k v) ''=''" "TrimSpace k = k" "TrimSpace v = v"
  using assms by (auto simp: field_def TrimSpace_clean plain_graphic)

lemma flow_field_int:
  assumes "int64 i"
  shows "flow_field f (field priority (Itoa i)) = Ok (f\<lparr>f_Priority := i\<rparr>)"
    "flow_field f (field table (Itoa i)) = Ok (f\<lparr>f_Table := i\<rparr>)"
    "flow_field f (field idleTimeout (Itoa i)) = Ok (f\<lparr>f_IdleTimeout := i\<rparr>)"
  using assms number_plain(1) [of i] plain_graphic [OF number_plain(1), of i]
  by (auto simp: flow_field_def Split_field flow_field_simps(1) TrimSpace_clean ParseInt_Itoa flow_names
      plain_def graphic_def Let_def simp del: Contains_chr)


lemma Itoa_not_LOCAL: "Itoa p \<noteq> portLOCAL"
proof
  assume "Itoa p = portLOCAL"
  then have "CHR ''L'' \<in> set (Itoa p)" by (simp add: portLOCAL_def)
  then show False using set_Itoa [of p] by (auto simp: dec_digits_def)
qed

lemma flow_field_in_port:
  assumes "int64 p"
  shows "flow_field f (field inPort (in_port_text p)) = Ok (f\<lparr>f_InPort := p\<rparr>)"
proof -
  have pl: "list_all plain inPort" by (simp add: inPort_def plain_def graphic_def)
  note in_port_text_plain [of p]
  moreover have "TrimSpace inPort = inPort" "TrimSpace (in_port_text p) = in_port_text p"
    using pl by (simp_all add: TrimSpace_clean plain_graphic)
  moreover have "inPort \<noteq> priority" "inPort \<noteq> cookie" "inPort \<noteq> keyActions"
    by (simp_all add: flow_names)
  ultimately show ?thesis
    using pl assms Itoa_not_LOCAL [of p]
    by (auto simp: flow_field_def Split_field flow_field_simps(1) ParseInt_Itoa in_port_text_def Let_def
        simp del: Contains_chr)
qed

lemma flow_field_cookie: "flow_field f (field cookie (paddedHexUint64 c)) = Ok (f\<lparr>f_Cookie := c\<rparr>)"
proof -
  have pl: "list_all plain cookie" by (simp add: cookie_def plain_def graphic_def)
  have "ParseUint (paddedHexUint64 c) 0 64 = Ok (unat c)"
    unfolding paddedHexUint64_def fmt_0x_def using unsigned_less [of c, where 'a = nat]
    by (intro ParseUint_0x) auto
  moreover have "cookie \<noteq> priority" by (simp add: flow_names)
  ultimately show ?thesis
    using pl by (simp add: flow_field_def Split_field flow_field_simps(1) TrimSpace_clean plain_graphic
        Let_def del: Contains_chr)
qed

lemma flow_field_protocol:
  "list_all plain s \<Longrightarrow> s \<noteq> [] \<Longrightarrow> flow_field f s = Ok (f\<lparr>f_Protocol := s\<rparr>)"
  using plain_notin(2) [of s] by (simp add: flow_field_def)

lemma match_key_not_flow_name:
  "directed m \<Longrightarrow> match_key m \<notin> {priority, cookie, keyActions, inPort, idleTimeout, table, duration,
     nPackets, nBytes, hardAge, idleAge}"
  by (cases m) (auto simp: match_names flow_names)

lemma flow_field_match:
  assumes "wf_match m" "Match_MarshalText m = Ok t"
  shows "flow_field f t = Ok (f\<lparr>f_Matches := f_Matches f @ [normalize m]\<rparr>)"
  using match_text_field [OF assms] match_key_not_flow_name [OF wf_match_directed [OF assms(1)]]
  by (simp add: flow_field_def Split_field flow_field_simps Let_def del: Contains_chr)

lemma flow_fields_append: "flow_fields f (xs @ ys) = and_then (flow_fields f xs) (\<lambda>f'. flow_fields f' ys)"
  by (induction xs arbitrary: f) (simp_all add: and_then_assoc)

lemma flow_fields_matches:
  "list_all wf_match ms \<Longrightarrow> each Match_MarshalText ms = Ok ts \<Longrightarrow>
   flow_fields f ts = Ok (f\<lparr>f_Matches := f_Matches f @ map normalize ms\<rparr>)"
proof (induction ms arbitrary: f ts)
  case (Cons m ms)
  then show ?case by (auto simp: flow_field_match)
qed simp

lemma flow_fields_optional:
  "(b \<Longrightarrow> flow_field f x = Ok (g f)) \<Longrightarrow> (\<not> b \<Longrightarrow> g f = f) \<Longrightarrow> flow_fields f (optional b x) = Ok (g f)"
  by (simp add: optional_def)

lemma flow_fields_texts:
  assumes "wf_flow f" "each Match_MarshalText (f_Matches f) = Ok ts"
  shows "flow_fields (zero_Flow\<lparr>f_Matches := []\<rparr>) (flow_field_texts f ts) =
    Ok ((normalize_flow f)\<lparr>f_Actions := []\<rparr>)"
proof -
  have w: "int64 (f_Priority f)" "int64 (f_InPort f)" "int64 (f_Table f)" "int64 (f_IdleTimeout f)"
    "list_all plain (f_Protocol f)" "list_all wf_match (f_Matches f)"
    using assms(1) by (auto simp: wf_flow_def)
  show ?thesis
    using flow_fields_matches [OF w(6) assms(2)] w
    by (cases f)
      (simp add: flow_field_texts_def flow_fields_append optional_def flow_field_int flow_field_in_port
        flow_field_cookie flow_field_protocol zero_Flow_def normalize_flow_def word_gt_0)
qed


text \<open>No field holds a comma, white space, or the key of the actions.\<close>

definition field_text :: "string \<Rightarrow> bool" where
  "field_text s \<longleftrightarrow> list_all graphic s \<and> CHR '','' \<notin> set s \<and> s \<noteq> [] \<and> Index s (keyActions @ ''='') = None"

lemma field_text_field:
  assumes "list_all plain k" "list_all plain v" "\<not> HasSuffix k keyActions"
  shows "field_text (field k v)"
proof -
  have "Index (k @ CHR ''='' # v) (keyActions @ ''='') = None"
    using assms plain_notin by (intro Index_key_value) auto
  then show ?thesis
    using assms plain_graphic plain_notin(1) by (auto simp: field_text_def field_def graphic_def)
qed

lemma field_text_protocol:
  assumes "list_all plain s" "s \<noteq> []"
  shows "field_text s"
proof -
  have n: "CHR ''='' \<notin> set s" using assms(1) by (rule plain_notin(2))
  have "Index s (keyActions @ ''='') = None"
  proof (rule ccontr)
    assume "Index s (keyActions @ ''='') \<noteq> None"
    then obtain i where "Index s (keyActions @ ''='') = Some i" by blast
    from Index_SomeD [OF this] have "CHR ''='' \<in> set s"
      by (metis UnCI append.assoc in_set_conv_decomp append_Cons append_Nil)
    then show False using n by simp
  qed
  then show ?thesis using assms plain_graphic plain_notin(1) by (simp add: field_text_def)
qed

lemma flow_names_plain:
  "list_all plain priority" "list_all plain cookie" "list_all plain inPort"
  "list_all plain idleTimeout" "list_all plain table"
  by (simp_all add: flow_names plain_def graphic_def)

lemma flow_names_suffix:
  "\<not> HasSuffix priority keyActions" "\<not> HasSuffix cookie keyActions" "\<not> HasSuffix inPort keyActions"
  "\<not> HasSuffix idleTimeout keyActions" "\<not> HasSuffix table keyActions"
  by (simp_all add: flow_names HasSuffix_def)

lemma match_texts_fields:
  assumes "list_all wf_match ms" "each Match_MarshalText ms = Ok ts"
  shows "\<forall>t \<in> set ts. field_text t"
proof
  fix t assume "t \<in> set ts"
  then obtain i where i: "i < length ts" "t = ts ! i" by (auto simp: in_set_conv_nth)
  then have m: "wf_match (ms ! i)" "Match_MarshalText (ms ! i) = Ok t"
    using assms each_nth [OF assms(2)] each_length [OF assms(2)] by (auto simp: list_all_length)
  show "field_text t"
    unfolding match_text_field(1) [OF m] using match_text_field(2-4) [OF m] by (rule field_text_field)
qed

lemma flow_fields_text:
  assumes "wf_flow f" "each Match_MarshalText (f_Matches f) = Ok ts"
  shows "\<forall>t \<in> set (flow_field_texts f ts). field_text t"
proof -
  have w: "list_all plain (f_Protocol f)" "list_all wf_match (f_Matches f)"
    using assms(1) by (auto simp: wf_flow_def)
  show ?thesis
    using match_texts_fields [OF w(2) assms(2)] w(1) flow_names_plain flow_names_suffix number_plain(1)
    by (auto simp: flow_field_texts_def optional_def field_text_field field_text_protocol)
qed

lemma fields_graphic: "\<forall>t \<in> set ts. field_text t \<Longrightarrow> list_all graphic (Join ts '','')"
  by (rule set_Join_graphic) (auto simp: field_text_def graphic_def)

lemma fields_no_actions: "\<forall>t \<in> set ts. field_text t \<Longrightarrow> Index (Join ts '','') (keyActions @ ''='') = None"
  by (rule Index_Join) (auto simp: field_text_def keyActions_def)

lemma Split_fields:
  assumes "\<forall>t \<in> set ts. field_text t" "ts \<noteq> []"
  shows "Split (Join ts '','' @ '','') '','' = ts @ [[]]"
proof -
  have "Join ts '','' @ '','' = Join (ts @ [[]]) '',''" using assms(2) by (simp add: Join_snoc)
  then show ?thesis using assms(1) by (simp add: Split_Join field_text_def)
qed

lemma flow_action_texts:
  assumes "wf_flow f" "each Action_MarshalText (f_Actions f) = Ok as"
  shows "list_all readable (f_Actions f)" "as = map (printed Action_MarshalText) (f_Actions f)"
    "token_texts as" "list_all graphic (Join as '','')" "as \<noteq> [] \<Longrightarrow> Join as '','' \<noteq> []"
proof -
  show ra: "list_all readable (f_Actions f)"
    using assms each_is_ok [of Action_MarshalText "f_Actions f"]
    by (auto simp: list_all_iff readable_def wf_flow_def)
  show ast: "as = map (printed Action_MarshalText) (f_Actions f)"
    using readable_list(1) [OF ra] assms(2) by simp
  show tok: "token_texts as" using readable_list(2) [OF ra] ast by simp
  show "list_all graphic (Join as '','')"
    using tok by (intro set_Join_graphic) (auto simp: token_texts_def graphic_def)
  show "Join as '','' \<noteq> []" if "as \<noteq> []"
    using that tok by (cases as rule: list.exhaust; cases "tl as") (auto simp: token_texts_def)
qed

lemma flow_text_graphic:
  assumes "wf_flow f" "Flow_MarshalText f = Ok t"
  shows "list_all graphic t" "HasPrefix t priorityString"
proof -
  obtain ms as where ms: "each Match_MarshalText (f_Matches f) = Ok ms"
    and as: "each Action_MarshalText (f_Actions f) = Ok as" "as \<noteq> []"
    and t: "t = Join (flow_field_texts f ms) '','' @ CHR '','' # (keyActions @ ''='') @ Join as '',''"
    using assms(2) by (rule flow_text_fields)
  show "list_all graphic t"
    using fields_graphic [OF flow_fields_text [OF assms(1) ms]] flow_action_texts(4) [OF assms(1) as(1)]
    by (simp add: t graphic_def keyActions_def)
  show "HasPrefix t priorityString"
    by (simp add: t flow_field_texts_def field_def priority_def priorityString_def Join_append1)
qed

lemma Flow_round_trip_aux:
  assumes "wf_flow f" "Flow_MarshalText f = Ok t"
    "\<And>as. each Action_MarshalText (f_Actions f) = Ok as \<Longrightarrow> Index (Join as '','') (keyActions @ ''='') = None"
  shows "Flow_UnmarshalText zero_Flow t = Ok (normalize_flow f)"
proof -
  let ?key = "keyActions @ ''=''"
  obtain ms as where ms: "each Match_MarshalText (f_Matches f) = Ok ms"
    and as: "each Action_MarshalText (f_Actions f) = Ok as" "as \<noteq> []"
    and d: "length as > 1 \<longrightarrow> actionDrop \<notin> set as"
    and t: "t = Join (flow_field_texts f ms) '','' @ CHR '','' # ?key @ Join as '',''"
    using assms(2) by (rule flow_text_fields)
  let ?fs = "flow_field_texts f ms"
  have ft: "\<forall>t \<in> set ?fs. field_text t" using flow_fields_text [OF assms(1) ms] .
  have ne: "?fs \<noteq> []" by (simp add: flow_field_texts_def)
  note at = flow_action_texts [OF assms(1) as(1)]
  have sp: "Split t ?key = [Join ?fs '','' @ '','', Join as '','']"
    unfolding t using fields_no_actions [OF ft] assms(3) [OF as(1)]
    by (intro Split_at) (auto simp: keyActions_def)
  have tm: "TrimSpace (Join ?fs '','' @ '','') = Join ?fs '','' @ '',''"
    using fields_graphic [OF ft] by (intro TrimSpace_clean) (simp add: graphic_def)
  have "flow_fields (zero_Flow\<lparr>f_Matches := []\<rparr>) (?fs @ [[]]) = Ok ((normalize_flow f)\<lparr>f_Actions := []\<rparr>)"
    using flow_fields_texts [OF assms(1) ms] by (simp add: flow_fields_append flow_field_def)
  moreover have "Parse (newActionParser (Join as '','')) = Ok (f_Actions f, as)"
    using Parse_printed [OF at(1)] at(2) by simp
  ultimately show ?thesis
    using sp tm TrimSpace_clean [OF at(4)] at(5) [OF as(2)] Split_fields [OF ft ne] d
    by (auto simp: Flow_UnmarshalText_def normalize_flow_def Let_def)
qed

section \<open>The text of a match flow is a list of fields\<close>

definition cookie_mask_text :: "MatchFlow \<Rightarrow> string" where
  "cookie_mask_text f =
     paddedHexUint64 (mf_Cookie f) @ ''/'' @
     (if mf_CookieMask f = 0 then ''-1'' else paddedHexUint64 (mf_CookieMask f))"

definition match_flow_field_texts :: "MatchFlow \<Rightarrow> string list \<Rightarrow> string list" where
  "match_flow_field_texts f matches =
     optional (mf_Protocol f \<noteq> []) (mf_Protocol f) @
     optional (mf_InPort f \<noteq> 0) (field inPort (in_port_text (mf_InPort f))) @
     matches @
     optional (mf_Cookie f > 0) (field cookie (cookie_mask_text f)) @
     optional (mf_Table f \<noteq> AnyTable) (field table (Itoa (mf_Table f)))"

definition wf_match_flow :: "MatchFlow \<Rightarrow> bool" where
  "wf_match_flow f \<longleftrightarrow> list_all plain (mf_Protocol f) \<and> list_all wf_match (mf_Matches f)"

lemma match_flow_fields_text:
  assumes "wf_match_flow f" "each Match_MarshalText (mf_Matches f) = Ok ts"
  shows "\<forall>t \<in> set (match_flow_field_texts f ts). field_text t"
proof -
  have w: "list_all plain (mf_Protocol f)" "list_all wf_match (mf_Matches f)"
    using assms(1) by (auto simp: wf_match_flow_def)
  have "plain CHR ''1''" by (simp add: plain_def graphic_def)
  then have "list_all plain (cookie_mask_text f)" by (simp add: cookie_mask_text_def)
  then show ?thesis
    using match_texts_fields [OF w(2) assms(2)] w(1) flow_names_plain flow_names_suffix number_plain(1)
    by (auto simp: match_flow_field_texts_def optional_def field_text_field field_text_protocol)
qed

text \<open>The code ends every field but the last with a comma and then trims commas.\<close>

definition comma_ended :: "string list \<Rightarrow> string" where
  "comma_ended xs = concat (map (\<lambda>x. x @ '','') xs)"

lemma comma_ended_Join: "xs \<noteq> [] \<Longrightarrow> comma_ended xs = Join xs '','' @ '',''"
  by (induction xs rule: induct_list012) (auto simp: comma_ended_def)

lemma comma_ended_simps [simp]:
  "comma_ended [] = []" "comma_ended (xs @ ys) = comma_ended xs @ comma_ended ys"
  "comma_ended (optional b x) = (if b then x @ '','' else [])"
  by (simp_all add: comma_ended_def optional_def)

lemma hd_last_Join:
  assumes "xs \<noteq> []" "\<forall>x \<in> set xs. x \<noteq> [] \<and> c \<notin> set x"
  shows "Join xs sep \<noteq> []" "hd (Join xs sep) \<noteq> c" "last (Join xs sep) \<noteq> c"
proof -
  obtain x ys where xs: "xs = x # ys" using assms(1) by (cases xs) auto
  then obtain y t where x: "x = y # t" using assms(2) by (cases x) auto
  show "Join xs sep \<noteq> []" "hd (Join xs sep) \<noteq> c"
    using assms(2) by (cases ys; auto simp: xs x)+
  obtain zs z where zs: "xs = zs @ [z]" using assms(1) by (cases xs rule: rev_cases) auto
  have "z \<noteq> []" "c \<notin> set z" using assms(2) zs by auto
  then have "last z \<noteq> c" using last_in_set by metis
  then show "last (Join xs sep) \<noteq> c"
    using \<open>z \<noteq> []\<close> by (cases "zs = []") (simp_all add: zs Join_snoc)
qed

lemma TrimCommas_clean:
  assumes "s \<noteq> []" "hd s \<noteq> CHR '',''" "last s \<noteq> CHR '',''"
  shows "TrimCommas s = s" "TrimCommas (s @ '','') = s"
proof -
  obtain c t where s: "s = c # t" using assms(1) by (cases s) auto
  obtain d u where "rev s = d # u" using assms(1) by (cases "rev s") auto
  moreover then have "d \<noteq> CHR '',''" using assms(3) by (metis last_rev list.sel(1) rev_rev_ident)
  moreover have "c \<noteq> CHR '',''" using assms(2) s by simp
  ultimately show "TrimCommas s = s" "TrimCommas (s @ '','') = s"
    by (simp_all add: TrimCommas_def s) (metis rev.simps(2) rev_rev_ident)+
qed

lemma match_flow_text:
  assumes "wf_match_flow f" "each Match_MarshalText (mf_Matches f) = Ok ts"
  shows "MatchFlow_MarshalText f =
    (if match_flow_field_texts f ts = [] then Err (MatchFlowError [] ErrEmptyMatchFlow)
     else Ok (Join (match_flow_field_texts f ts) '',''))"
proof -
  let ?fs = "match_flow_field_texts f ts"
  let ?init = "optional (mf_Protocol f \<noteq> []) (mf_Protocol f) @
     optional (mf_InPort f \<noteq> 0) (field inPort (in_port_text (mf_InPort f))) @ ts @
     optional (mf_Cookie f > 0) (field cookie (cookie_mask_text f))"
  let ?b = "comma_ended ?init @ (if mf_Table f \<noteq> AnyTable then field table (Itoa (mf_Table f)) else [])"
  have m: "MatchFlow_MarshalText f =
      (if TrimCommas ?b = [] then Err (MatchFlowError [] ErrEmptyMatchFlow) else Ok (TrimCommas ?b))"
    using assms(2)
    by (cases "ts = []")
      (simp_all add: MatchFlow_MarshalText_def MatchFlow_marshalMatches_def marshalFunctions_def
        comma_ended_Join field_def cookie_mask_text_def Let_def)
  have fs: "?fs = ?init @ optional (mf_Table f \<noteq> AnyTable) (field table (Itoa (mf_Table f)))"
    by (simp add: match_flow_field_texts_def)
  show ?thesis
  proof (cases "?fs = []")
    case True
    then have i: "?init = []" and t: "mf_Table f = AnyTable"
      unfolding fs by (auto simp: optional_def split: if_splits)
    have "?b = []" unfolding i using t by simp
    then have "MatchFlow_MarshalText f = Err (MatchFlowError [] ErrEmptyMatchFlow)"
      unfolding m by (simp add: TrimCommas_def)
    then show ?thesis using True by simp
  next
    case False
    have "\<forall>x \<in> set ?fs. x \<noteq> [] \<and> CHR '','' \<notin> set x"
      using match_flow_fields_text [OF assms] by (auto simp: field_text_def)
    from hd_last_Join [OF False this] have J: "Join ?fs '','' \<noteq> []" "hd (Join ?fs '','') \<noteq> CHR '',''"
      "last (Join ?fs '','') \<noteq> CHR '',''" by this+
    have "?b = Join ?fs '','' \<or> ?b = Join ?fs '','' @ '',''"
    proof (cases "mf_Table f = AnyTable")
      case True
      then have "?fs = ?init" unfolding fs by (simp add: optional_def)
      then show ?thesis using True False comma_ended_Join [of ?init] by simp
    next
      case nt: False
      show ?thesis
      proof (cases "?init = []")
        case True
        then show ?thesis unfolding fs True using nt by (simp add: optional_def comma_ended_def)
      next
        case False
        have "Join ?fs '','' = Join ?init '','' @ '','' @ field table (Itoa (mf_Table f))"
          unfolding fs using nt Join_snoc [OF False] by (simp add: optional_def)
        then show ?thesis using nt comma_ended_Join [OF False] by simp
      qed
    qed
    then have "TrimCommas ?b = Join ?fs '',''"
      using TrimCommas_clean [OF J] by (elim disjE) (simp_all only:)
    then show ?thesis using m J(1) False by simp
  qed
qed


section \<open>The interfaces this component provides\<close>

lemma Flow_MarshalText_no_panic: "Flow_MarshalText f \<noteq> Panic"
  using action_text.marshal_each_no_panic match_text.marshal_each_no_panic
  by (auto simp: Flow_MarshalText_def marshalActions_def marshalMatches_def marshalFunctions_def
      and_then_eq_Panic Let_def split: if_splits)

interpretation flow_text: text_marshaler Flow_MarshalText
  by unfold_locales (rule Flow_MarshalText_no_panic)

lemma MatchFlow_MarshalText_no_panic: "MatchFlow_MarshalText f \<noteq> Panic"
  using match_text.marshal_each_no_panic
  by (auto simp: MatchFlow_MarshalText_def MatchFlow_marshalMatches_def marshalFunctions_def
      and_then_eq_Panic Let_def split: if_splits)

interpretation match_flow_text: text_marshaler MatchFlow_MarshalText
  by unfold_locales (rule MatchFlow_MarshalText_no_panic)

lemma flow_error_eq [simp]: "flow_error v r = Panic \<longleftrightarrow> r = Panic" "flow_error v r = Ok x \<longleftrightarrow> r = Ok x"
  by (cases r; simp)+

lemma flow_field_no_panic: "flow_field f s \<noteq> Panic"
  by (auto simp: flow_field_def and_then_eq_Panic parseMatch_no_panic Let_def split: if_splits)

lemma flow_fields_no_panic: "flow_fields f ss \<noteq> Panic"
  by (induction ss arbitrary: f) (auto simp: and_then_eq_Panic flow_field_no_panic)

section \<open>Properties\<close>

text \<open>
  C2: a flow is read back from its text. For a well-formed flow that marshals, unmarshaling
  the text into a zero flow succeeds and yields every field of the original: priority,
  protocol, input port (with the special value for the local port), table, idle timeout,
  cookie, the matches in order (normalized), and the actions in order.
\<close>

theorem Flow_round_trip:
  assumes "wf_flow f" "Flow_MarshalText f = Ok t"
    "each Action_MarshalText (f_Actions f) = Ok as" "\<not> Contains (Join as '','') (keyActions @ ''='')"
  shows "Flow_UnmarshalText zero_Flow t = Ok (f\<lparr>f_Matches := map normalize (f_Matches f)\<rparr>)"
  using Flow_round_trip_aux [OF assms(1,2)] assms(3,4)
  by (simp add: normalize_flow_def Contains_def)

definition sample_flow :: Flow where
  "sample_flow = \<lparr>f_Priority = 100, f_Protocol = ''tcp'', f_InPort = PortLOCAL,
     f_Matches = [NetworkSource ''10.0.0.0/8'', TransportDestinationPort 80], f_Table = 3,
     f_IdleTimeout = 0, f_Cookie = 0xdead, f_Actions = [ModVLANVID 10, Resubmit 0 25]\<rparr>"

theorem Flow_round_trip_witness:
  "Flow_UnmarshalText zero_Flow
     ''priority=100,tcp,in_port=LOCAL,nw_src=10.0.0.0/8,tp_dst=80,table=3,idle_timeout=0,cookie=0x000000000000dead,actions=mod_vlan_vid:10,resubmit(,25)''
   = Ok sample_flow"
proof -
  have w: "wf_flow sample_flow"
    by (simp add: wf_flow_def sample_flow_def int64_def PortLOCAL_def plain_def graphic_def
        match_constructors action_constructors)
  have t: "Flow_MarshalText sample_flow = Ok ''priority=100,tcp,in_port=LOCAL,nw_src=10.0.0.0/8,tp_dst=80,table=3,idle_timeout=0,cookie=0x000000000000dead,actions=mod_vlan_vid:10,resubmit(,25)''"
    by code_simp
  have a: "each Action_MarshalText (f_Actions sample_flow) = Ok [''mod_vlan_vid:10'', ''resubmit(,25)'']"
    by code_simp
  have n: "\<not> Contains (Join [''mod_vlan_vid:10'', ''resubmit(,25)''] '','') (keyActions @ ''='')"
    by code_simp
  have "map normalize (f_Matches sample_flow) = f_Matches sample_flow" by code_simp
  then show ?thesis using Flow_round_trip [OF w t a n] by simp
qed

text \<open>
  C28: marshaling a flow never panics, and succeeds exactly when there is an action, every
  action and every match can be marshaled, and no \<^verbatim>\<open>drop\<close> stands among several actions.
\<close>

theorem Flow_MarshalText_ok_iff:
  "Flow_MarshalText f \<noteq> Panic \<and>
   (is_ok (Flow_MarshalText f) \<longleftrightarrow>
      f_Actions f \<noteq> [] \<and> (\<forall>a \<in> set (f_Actions f). is_ok (Action_MarshalText a)) \<and>
      (\<forall>m \<in> set (f_Matches f). is_ok (Match_MarshalText m)) \<and>
      (length (f_Actions f) > 1 \<longrightarrow> (\<forall>a \<in> set (f_Actions f). Action_MarshalText a \<noteq> Ok actionDrop)))"
proof -
  have drops: "actionDrop \<in> set ts \<longleftrightarrow> (\<exists>a \<in> set as. Action_MarshalText a = Ok actionDrop)"
    if "each Action_MarshalText as = Ok ts" for as ts
    using that by (induction as arbitrary: ts) auto
  have unf: "is_ok (Flow_MarshalText f) \<longleftrightarrow> f_Actions f \<noteq> [] \<and>
      (\<exists>ts. each Action_MarshalText (f_Actions f) = Ok ts \<and>
        (\<exists>ms. each Match_MarshalText (f_Matches f) = Ok ms) \<and>
        \<not> (length ts > 1 \<and> actionDrop \<in> set ts))"
    by (auto simp: Flow_MarshalText_def marshalActions_def marshalMatches_def marshalFunctions_def
        is_ok_and_then Let_def)
  have acts: "(\<exists>ts. each Action_MarshalText (f_Actions f) = Ok ts) \<longleftrightarrow>
      (\<forall>a \<in> set (f_Actions f). is_ok (Action_MarshalText a))"
    using each_is_ok [of Action_MarshalText "f_Actions f"] by (simp add: is_ok_iff)
  have mats: "(\<exists>ms. each Match_MarshalText (f_Matches f) = Ok ms) \<longleftrightarrow>
      (\<forall>m \<in> set (f_Matches f). is_ok (Match_MarshalText m))"
    using each_is_ok [of Match_MarshalText "f_Matches f"] by (simp add: is_ok_iff)
  show ?thesis
  proof (cases "each Action_MarshalText (f_Actions f)")
    case (Ok ts)
    then show ?thesis
      using unf acts mats drops [OF Ok] each_length [OF Ok] Flow_MarshalText_no_panic [of f] by auto
  qed (use unf acts Flow_MarshalText_no_panic [of f] in auto)
qed

theorem Flow_MarshalText_ok_iff_witness: "is_ok (Flow_MarshalText sample_flow)"
proof -
  have "\<forall>a \<in> set (f_Actions sample_flow). is_ok (Action_MarshalText a) \<and> Action_MarshalText a \<noteq> Ok actionDrop"
    "\<forall>m \<in> set (f_Matches sample_flow). is_ok (Match_MarshalText m)" "f_Actions sample_flow \<noteq> []"
    by code_simp+
  then show ?thesis using Flow_MarshalText_ok_iff [of sample_flow] by blast
qed

text \<open>
  Unmarshaling a flow panics only through the tokenizer, on actions in which a closing
  parenthesis precedes its opening one.
\<close>

theorem Flow_UnmarshalText_panic:
  assumes "Flow_UnmarshalText f s = Panic"
  shows "\<exists>m a. Split s (keyActions @ ''='') = [m, a] \<and> \<not> closes_ok 0 (map snd (runes (TrimSpace a)))"
proof -
  let ?ss = "Split s (keyActions @ ''='')"
  have len: "length ?ss = 2" and p: "Parse (newActionParser (TrimSpace (?ss ! 1))) = Panic"
    using assms flow_fields_no_panic
    by (cases "Parse (newActionParser (TrimSpace (?ss ! 1)))";
        auto simp: Flow_UnmarshalText_def and_then_eq_Panic Let_def split: if_splits)+
  obtain m a where ss: "?ss = [m, a]" using len by (auto simp: numeral_2_eq_2 length_Suc_conv)
  then show ?thesis using p Parse_no_panic [of "newActionParser (TrimSpace a)"]
    by (auto simp: newActionParser_def)
qed

theorem Flow_UnmarshalText_panic_witness:
  "\<exists>m a. Split ''actions=)'' (keyActions @ ''='') = [m, a] \<and> \<not> closes_ok 0 (map snd (runes (TrimSpace a)))"
proof -
  have "Flow_UnmarshalText zero_Flow ''actions=)'' = Panic" by code_simp
  then show ?thesis by (rule Flow_UnmarshalText_panic)
qed

text \<open>
  The check that \<^verbatim>\<open>drop\<close> stands alone compares the raw text, while \<^verbatim>\<open>parseAction\<close> ignores
  case: a capitalised \<^verbatim>\<open>DROP\<close> beside another action is accepted by \<^verbatim>\<open>UnmarshalText\<close>, and the
  flow it yields is refused by \<^verbatim>\<open>MarshalText\<close>.
\<close>

theorem Flow_drop_case_sensitive:
  "\<exists>f. Flow_UnmarshalText zero_Flow ''priority=1,actions=DROP,output:2'' = Ok f \<and>
     f_Actions f = [Drop, Output 2] \<and>
     Flow_MarshalText f = Err (FlowError [] ErrActionsWithDrop)"
proof -
  let ?f = "zero_Flow\<lparr>f_Priority := 1, f_Actions := [Drop, Output 2]\<rparr>"
  have "Flow_UnmarshalText zero_Flow ''priority=1,actions=DROP,output:2'' = Ok ?f" by code_simp
  moreover have "Flow_MarshalText ?f = Err (FlowError [] ErrActionsWithDrop)" by code_simp
  ultimately show ?thesis by auto
qed

text \<open>
  The text of a match flow. When the matches can be marshaled, the text is the list of the
  fields that are set, separated by single commas, without a comma at either end (in the order
  protocol, port, matches, cookie and mask, table); the error for an empty match flow is
  returned exactly when no field is set.
\<close>

theorem MatchFlow_text:
  assumes "wf_match_flow f" "each Match_MarshalText (mf_Matches f) = Ok ts"
  shows "MatchFlow_MarshalText f =
    (if mf_Protocol f = [] \<and> mf_InPort f = 0 \<and> mf_Matches f = [] \<and> mf_Cookie f = 0 \<and>
        mf_Table f = AnyTable
     then Err (MatchFlowError [] ErrEmptyMatchFlow)
     else Ok (Join (match_flow_field_texts f ts) '',''))"
proof -
  have "ts = [] \<longleftrightarrow> mf_Matches f = []" using each_length [OF assms(2)] by auto
  then have "match_flow_field_texts f ts = [] \<longleftrightarrow> mf_Protocol f = [] \<and> mf_InPort f = 0 \<and>
      mf_Matches f = [] \<and> mf_Cookie f = 0 \<and> mf_Table f = AnyTable"
    by (auto simp: match_flow_field_texts_def optional_def word_gt_0)
  then show ?thesis using match_flow_text [OF assms] by simp
qed

theorem MatchFlow_text_witness:
  "MatchFlow_MarshalText (Flow_MatchFlow sample_flow) =
     Ok ''tcp,in_port=LOCAL,nw_src=10.0.0.0/8,tp_dst=80,cookie=0x000000000000dead/-1,table=3''"
proof -
  have w: "wf_match_flow (Flow_MatchFlow sample_flow)"
    by (simp add: wf_match_flow_def Flow_MatchFlow_def sample_flow_def plain_def graphic_def match_constructors)
  have m: "each Match_MarshalText (mf_Matches (Flow_MatchFlow sample_flow)) = Ok [''nw_src=10.0.0.0/8'', ''tp_dst=80'']"
    by code_simp
  have "Join (match_flow_field_texts (Flow_MatchFlow sample_flow) [''nw_src=10.0.0.0/8'', ''tp_dst=80'']) '','' =
      ''tcp,in_port=LOCAL,nw_src=10.0.0.0/8,tp_dst=80,cookie=0x000000000000dead/-1,table=3''"
    by code_simp
  with MatchFlow_text [OF w m] show ?thesis by (simp add: Flow_MatchFlow_def sample_flow_def)
qed

end
