(* ===== verification/Ovs_Stats.thy ===== *)
theory Ovs_Stats
  imports Ovs_Flow
begin

text \<open>
  \<^verbatim>\<open>ovs/flowstats.go\<close>, \<^verbatim>\<open>ovs/portstats.go\<close> and \<^verbatim>\<open>ovs/table.go\<close>: reading the statistics that
  \<^verbatim>\<open>ovs-ofctl\<close> prints. The lemmas show that the documented output formats are read to the
  printed values, whatever the blanks between the words, and where the code can panic.
\<close>

section \<open>Flow statistics\<close>

record FlowStats =
  PacketCount :: "64 word"
  ByteCount :: "64 word"

definition packetCount :: string where "packetCount = ''packet_count''"
definition byteCount :: string where "byteCount = ''byte_count''"
definition flowCount :: string where "flowCount = ''flow_count''"

definition FlowStats_UnmarshalText :: "string \<Rightarrow> FlowStats result" where
  "FlowStats_UnmarshalText s =
     (case Index s packetCount of
        None \<Rightarrow> Err ErrInvalidFlowStats
      | Some idx \<Rightarrow>
          let ss = Fields (drop idx s); fields = [packetCount, byteCount, flowCount] in
          if length ss \<noteq> length fields then Err ErrInvalidFlowStats
          else and_then
            (each (\<lambda>(str, field).
               let kv = Split str ''='' in
               if length kv \<noteq> 2 then Err ErrInvalidFlowStats
               else if kv ! 0 \<noteq> field then Err ErrInvalidFlowStats
               else and_then (ParseUint (kv ! 1) 10 64) (\<lambda>n. Ok (of_nat n))) (zip ss fields))
            (\<lambda>values. Ok \<lparr>PacketCount = values ! 0, ByteCount = values ! 1\<rparr>))"

section \<open>Port statistics\<close>

record PortStatsReceive =
  r_Packets :: "64 word"
  r_Bytes :: "64 word"
  r_Dropped :: "64 word"
  r_Errors :: "64 word"
  r_Frame :: "64 word"
  r_Over :: "64 word"
  r_CRC :: "64 word"

record PortStatsTransmit =
  t_Packets :: "64 word"
  t_Bytes :: "64 word"
  t_Dropped :: "64 word"
  t_Errors :: "64 word"
  t_Collisions :: "64 word"

record PortStats =
  PortID :: int
  Received :: PortStatsReceive
  Transmitted :: PortStatsTransmit

text \<open>
  The map of maps \<^verbatim>\<open>out\<close>: reading an absent key gives 0; the outer keys are \<^verbatim>\<open>rx\<close> and \<^verbatim>\<open>tx\<close>,
  and writing under another outer key writes to a nil map, which panics.
\<close>

type_synonym counters = "string \<Rightarrow> string \<Rightarrow> 64 word"

definition put_counter :: "counters \<Rightarrow> string \<Rightarrow> string \<Rightarrow> 64 word \<Rightarrow> counters result" where
  "put_counter out pre k n =
     (if pre = ''rx'' \<or> pre = ''tx'' then Ok (out(pre := (out pre)(k := n))) else Panic)"

fun port_counters :: "string \<Rightarrow> counters \<Rightarrow> string list \<Rightarrow> counters result" where
  "port_counters pre out [] = Ok out"
| "port_counters pre out (w # ws) =
     (let str = TrimSuffix w '','' in
      if str = ''rx'' then port_counters ''rx'' out ws
      else if str = ''tx'' then port_counters ''tx'' out ws
      else
        let pair = Split str ''='' in
        if length pair \<noteq> 2 then Err ErrInvalidPortStats
        else if pair ! 1 = ''?'' then
          and_then (put_counter out pre (pair ! 0) 0) (\<lambda>out'. port_counters pre out' ws)
        else and_then (ParseUint (pair ! 1) 10 64) (\<lambda>n.
          and_then (put_counter out pre (pair ! 0) (of_nat n)) (\<lambda>out'. port_counters pre out' ws)))"

definition PortStats_UnmarshalText :: "string \<Rightarrow> PortStats result" where
  "PortStats_UnmarshalText s =
     (let ss = Fields s in
      if length ss \<noteq> 16 then Err ErrInvalidPortStats
      else if ss ! 0 \<noteq> ''port'' then Err ErrInvalidPortStats
      else if ss ! 2 \<noteq> ''rx'' then Err ErrInvalidPortStats
      else if ss ! 10 \<noteq> ''tx'' then Err ErrInvalidPortStats
      else
        let portID = TrimSuffix (ss ! 1) '':'' in
        and_then (if portID = portLOCAL then Ok PortLOCAL else ParseInt portID 10 0) (\<lambda>pid.
        and_then (port_counters [] (\<lambda>_ _. 0) (drop 2 ss)) (\<lambda>out.
          Ok \<lparr>PortID = pid,
              Received = \<lparr>r_Packets = out ''rx'' ''pkts'', r_Bytes = out ''rx'' ''bytes'',
                r_Dropped = out ''rx'' ''drop'', r_Errors = out ''rx'' ''errs'',
                r_Frame = out ''rx'' ''frame'', r_Over = out ''rx'' ''over'', r_CRC = out ''rx'' ''crc''\<rparr>,
              Transmitted = \<lparr>t_Packets = out ''tx'' ''pkts'', t_Bytes = out ''tx'' ''bytes'',
                t_Dropped = out ''tx'' ''drop'', t_Errors = out ''tx'' ''errs'',
                t_Collisions = out ''tx'' ''coll''\<rparr>\<rparr>)))"

section \<open>Tables\<close>

record Table =
  ID :: int
  Name :: string
  Wild :: string
  Max :: int
  Active :: int
  Lookup :: "64 word"
  Matched :: "64 word"

text \<open>
  The loop over the key/value words: the first value is kept as text, the others are numbers.
\<close>

definition table_pair :: "string \<Rightarrow> string list result" where
  "table_pair w =
     (let pair = Split (TrimSuffix w '','') ''='' in
      if length pair \<noteq> 2 then Err ErrInvalidTable else Ok pair)"

definition table_number :: "string \<Rightarrow> 64 word result" where
  "table_number w =
     and_then (table_pair w) (\<lambda>pair. and_then (ParseUint (pair ! 1) 10 64) (\<lambda>n. Ok (of_nat n)))"

definition table_values :: "string list \<Rightarrow> (string \<times> 64 word list) result" where
  "table_values ws =
     (case ws of
        [] \<Rightarrow> Ok ([], [])
      | w # ws' \<Rightarrow>
          and_then (table_pair w) (\<lambda>pair.
            and_then (each table_number ws') (\<lambda>out. Ok (pair ! 1, out))))"

definition Table_UnmarshalText :: "string \<Rightarrow> Table result" where
  "Table_UnmarshalText s =
     (let ss = Fields s in
      if length ss \<noteq> 7 \<and> length ss \<noteq> 8 then Err ErrInvalidTable
      else
        and_then (ParseInt (TrimSuffix (ss ! 0) '':'') 10 0) (\<lambda>tid.
          let idx = (if \<not> HasSuffix (ss ! 1) '':'' then 3 else 2) in
          and_then (table_values (drop idx ss)) (\<lambda>(wild, out).
            if length out < 4 then Panic
            else Ok \<lparr>ID = tid, Name = TrimSuffix (ss ! 1) '':'', Wild = wild,
                     Max = sint (out ! 0), Active = sint (out ! 1),
                     Lookup = out ! 2, Matched = out ! 3\<rparr>)))"

section \<open>Reading numbers in words\<close>

text \<open>A counter as printed: a number, or a question mark.\<close>

definition counter_text :: "64 word option \<Rightarrow> string" where
  "counter_text c = (case c of None \<Rightarrow> ''?'' | Some w \<Rightarrow> fmt_d w)"

definition counter :: "64 word option \<Rightarrow> 64 word" where
  "counter c = (case c of None \<Rightarrow> 0 | Some w \<Rightarrow> w)"

lemma ParseUint_fmt_d: "ParseUint (fmt_d (w :: 64 word)) 10 64 = Ok (unat w)"
  unfolding fmt_d_def using unsigned_less [of w, where 'a = nat] by (intro ParseUint_FormatUint) auto

lemma counter_text_plain: "list_all plain (counter_text c)"
  by (cases c) (auto simp: counter_text_def number_plain plain_def graphic_def)

lemma fmt_d_not_question: "fmt_d w \<noteq> ''?''"
  using set_fmt_d [of w] by (auto simp: dec_digits_def)

lemma last_plain: "list_all plain s \<Longrightarrow> s \<noteq> [] \<Longrightarrow> last s \<noteq> CHR '',''"
  using last_in_set plain_notin(1) by metis

lemma counter_text_nonempty: "counter_text c \<noteq> []"
  by (cases c) (simp_all add: counter_text_def)

text \<open>One word \<open>key=value\<close>, with or without the comma that \<^verbatim>\<open>ovs-ofctl\<close> puts behind it.\<close>

lemma trim_pair:
  assumes "list_all plain k" "list_all plain v" "v \<noteq> []" "x = [] \<or> x = '',''"
  shows "TrimSuffix (field k v @ x) '','' = field k v" "Split (field k v) ''='' = [k, v]"
proof -
  have "last (field k v) \<noteq> CHR '',''" using assms(2,3) last_plain by (simp add: field_def)
  then have "TrimSuffix (field k v) '','' = field k v" by (intro TrimSuffix_id) simp
  then show "TrimSuffix (field k v @ x) '','' = field k v" using assms(4) by auto
  show "Split (field k v) ''='' = [k, v]" using assms(1,2) by (rule Split_field)
qed

lemma field_not_prefix: "field k v \<noteq> ''rx''" "field k v \<noteq> ''tx''"
proof -
  have "CHR ''='' \<in> set (field k v)" by (simp add: field_def)
  then show "field k v \<noteq> ''rx''" "field k v \<noteq> ''tx''" by auto
qed

lemma counter_parse:
  "(if counter_text c = ''?'' then f 0 else and_then (ParseUint (counter_text c) 10 64) (\<lambda>n. f (of_nat n))) =
   f (counter c)"
  by (cases c) (simp_all add: counter_text_def counter_def ParseUint_fmt_d fmt_d_not_question)

lemma port_counters_pair:
  assumes "list_all plain k" "x = [] \<or> x = '',''" "pre = ''rx'' \<or> pre = ''tx''"
  shows "port_counters pre out ((field k (counter_text c) @ x) # ws) =
    port_counters pre (out(pre := (out pre)(k := counter c))) ws"
proof -
  note t = trim_pair [OF assms(1) counter_text_plain [of c] counter_text_nonempty [of c] assms(2)]
  show ?thesis
    using counter_parse [of c "\<lambda>n. port_counters pre (out(pre := (out pre)(k := n))) ws"] assms(3)
    by (auto simp: t field_not_prefix put_counter_def Let_def split: if_splits)
qed

text \<open>The first word of the remaining ones is \<^verbatim>\<open>rx\<close>, so the nil map is never written.\<close>

lemma port_counters_no_panic:
  "pre = ''rx'' \<or> pre = ''tx'' \<Longrightarrow> port_counters pre out ws \<noteq> Panic"
  by (induction pre out ws rule: port_counters.induct)
    (auto simp: put_counter_def and_then_eq_Panic Let_def)

lemma PortStats_UnmarshalText_no_panic: "PortStats_UnmarshalText s \<noteq> Panic"
proof -
  have "port_counters [] out (drop 2 ss) \<noteq> Panic" if "length ss = 16" "ss ! 2 = ''rx''" for out ss
  proof -
    have "drop 2 ss = ''rx'' # drop 3 ss" using that Cons_nth_drop_Suc [of 2 ss] by (simp add: numeral_3_eq_3)
    moreover have "TrimSuffix ''rx'' '','' = ''rx''" by (simp add: TrimSuffix_id)
    ultimately show ?thesis using port_counters_no_panic by simp
  qed
  then show ?thesis by (auto simp: PortStats_UnmarshalText_def and_then_eq_Panic Let_def split: if_splits)
qed

section \<open>The documented formats\<close>

text \<open>The words of one port in the output of \<^verbatim>\<open>ovs-ofctl dump-ports\<close>.\<close>

definition counter_word :: "string \<Rightarrow> 64 word option \<Rightarrow> string" where
  "counter_word k c = field k (counter_text c) @ '',''"

definition port_words ::
  "int \<Rightarrow> 64 word option \<times> 64 word option \<times> 64 word option \<times> 64 word option \<times> 64 word option \<times> 64 word option \<times> 64 word option \<Rightarrow>
   64 word option \<times> 64 word option \<times> 64 word option \<times> 64 word option \<times> 64 word option \<Rightarrow> string list" where
  "port_words pid =
     (\<lambda>(rp, rb, rd, re, rf, ro, rc) (tp, tb, td, te, tc).
       [''port'', in_port_text pid @ '':'', ''rx'', counter_word ''pkts'' rp, counter_word ''bytes'' rb,
        counter_word ''drop'' rd, counter_word ''errs'' re, counter_word ''frame'' rf,
        counter_word ''over'' ro, field ''crc'' (counter_text rc), ''tx'', counter_word ''pkts'' tp,
        counter_word ''bytes'' tb, counter_word ''drop'' td, counter_word ''errs'' te,
        field ''coll'' (counter_text tc)])"

lemma counter_keys_plain:
  "list_all plain ''pkts''" "list_all plain ''bytes''" "list_all plain ''drop''" "list_all plain ''errs''"
  "list_all plain ''frame''" "list_all plain ''over''" "list_all plain ''crc''" "list_all plain ''coll''"
  by (simp_all add: plain_def graphic_def)

lemma port_counters_prefix:
  "port_counters pre out (''rx'' # ws) = port_counters ''rx'' out ws"
  "port_counters pre out (''tx'' # ws) = port_counters ''tx'' out ws"
  by (simp_all add: TrimSuffix_id)

lemma port_counters_last:
  "list_all plain k \<Longrightarrow> pre = ''rx'' \<or> pre = ''tx'' \<Longrightarrow>
   port_counters pre out (field k (counter_text c) # ws) = port_counters pre (out(pre := (out pre)(k := counter c))) ws"
  using port_counters_pair [of k "[]" pre out c ws] by simp

lemma port_counters_word:
  "list_all plain k \<Longrightarrow> pre = ''rx'' \<or> pre = ''tx'' \<Longrightarrow>
   port_counters pre out (counter_word k c # ws) = port_counters pre (out(pre := (out pre)(k := counter c))) ws"
  using port_counters_pair [of k "'',''" pre out c ws] by (simp add: counter_word_def)

lemmas port_steps = counter_keys_plain [THEN port_counters_word] counter_keys_plain [THEN port_counters_last]
  port_counters_prefix

lemma port_id_text:
  assumes "int64 pid"
  shows "(if in_port_text pid = portLOCAL then Ok PortLOCAL else ParseInt (in_port_text pid) 10 0) = Ok pid"
  using assms Itoa_not_LOCAL by (auto simp: in_port_text_def ParseInt_Itoa)

text \<open>
  Port statistics. Text whose words are those that \<^verbatim>\<open>ovs-ofctl dump-ports\<close> prints for a
  port, with any white space between them, is read to exactly the printed counters; a counter
  printed as a question mark is read as 0.
\<close>

theorem PortStats_reads:
  assumes "Fields s = port_words pid (rp, rb, rd, re, rf, ro, rc) (tp, tb, td, te, tc)" "int64 pid"
  shows "PortStats_UnmarshalText s =
    Ok \<lparr>PortID = pid,
        Received = \<lparr>r_Packets = counter rp, r_Bytes = counter rb, r_Dropped = counter rd,
          r_Errors = counter re, r_Frame = counter rf, r_Over = counter ro, r_CRC = counter rc\<rparr>,
        Transmitted = \<lparr>t_Packets = counter tp, t_Bytes = counter tb, t_Dropped = counter td,
          t_Errors = counter te, t_Collisions = counter tc\<rparr>\<rparr>"
  using port_id_text [OF assms(2)]
  by (simp add: PortStats_UnmarshalText_def assms(1) port_words_def port_steps del: port_counters.simps(2))

theorem PortStats_reads_witness:
  "PortStats_UnmarshalText ''  port LOCAL: rx pkts=7, bytes=8, drop=?, errs=0, frame=0, over=0, crc=1           tx pkts=2, bytes=3, drop=4, errs=5, coll=6'' =
    Ok \<lparr>PortID = PortLOCAL,
        Received = \<lparr>r_Packets = 7, r_Bytes = 8, r_Dropped = 0, r_Errors = 0, r_Frame = 0, r_Over = 0, r_CRC = 1\<rparr>,
        Transmitted = \<lparr>t_Packets = 2, t_Bytes = 3, t_Dropped = 4, t_Errors = 5, t_Collisions = 6\<rparr>\<rparr>"
proof -
  have "Fields ''  port LOCAL: rx pkts=7, bytes=8, drop=?, errs=0, frame=0, over=0, crc=1           tx pkts=2, bytes=3, drop=4, errs=5, coll=6'' =
    port_words PortLOCAL (Some 7, Some 8, None, Some 0, Some 0, Some 0, Some 1) (Some 2, Some 3, Some 4, Some 5, Some 6)"
    by code_simp
  from PortStats_reads [OF this] show ?thesis by (simp add: PortLOCAL_def int64_def counter_def)
qed

text \<open>
  Reading port statistics never panics: the loop sees the word \<^verbatim>\<open>rx\<close> before any counter, so
  no counter is written to a map that was not made; text without the expected sixteen words
  and sentinels is refused.
\<close>

theorem PortStats_no_panic:
  "PortStats_UnmarshalText s \<noteq> Panic \<and>
   (length (Fields s) = 16 \<and> Fields s ! 0 = ''port'' \<and> Fields s ! 2 = ''rx'' \<and> Fields s ! 10 = ''tx'' \<or>
    PortStats_UnmarshalText s = Err ErrInvalidPortStats)"
  using PortStats_UnmarshalText_no_panic [of s]
  by (intro conjI) (auto simp: PortStats_UnmarshalText_def Let_def)

section \<open>Tables\<close>

lemma table_pair_field:
  assumes "list_all plain k" "list_all plain v" "v \<noteq> []" "x = [] \<or> x = '',''"
  shows "table_pair (field k v @ x) = Ok [k, v]"
  using trim_pair [OF assms] by (simp add: table_pair_def)

lemma table_number_field:
  assumes "list_all plain k" "x = [] \<or> x = '',''"
  shows "table_number (field k (fmt_d (n :: 64 word)) @ x) = Ok n"
  using table_pair_field [OF assms(1) number_plain(2) [of n] fmt_d_nonempty [of n] assms(2)]
  by (simp add: table_number_def ParseUint_fmt_d)

definition table_words :: "int \<Rightarrow> string \<Rightarrow> string \<Rightarrow> 64 word \<Rightarrow> 64 word \<Rightarrow> 64 word \<Rightarrow> 64 word \<Rightarrow> string list" where
  "table_words tid nm wild mx active lookup matched =
     [Itoa tid @ '':'', nm @ '':'', field ''wild'' wild @ '','', field ''max'' (fmt_d mx) @ '','',
      field ''active'' (fmt_d active), field ''lookup'' (fmt_d lookup) @ '','', field ''matched'' (fmt_d matched)]"

lemma table_number_last: "list_all plain k \<Longrightarrow> table_number (field k (fmt_d (n :: 64 word))) = Ok n"
  using table_number_field [of k "[]"] by simp

lemma table_pair_no_panic [simp]: "table_pair w \<noteq> Panic"
  by (simp add: table_pair_def Let_def)

lemma table_values_panic: "table_values ws \<noteq> Panic"
  using each_no_panic [of _ table_number]
  by (auto simp: table_values_def table_number_def and_then_eq_Panic split: list.splits dest!: each_panic)

lemma Table_words_read:
  assumes "Fields s = table_words tid nm wild mx active lookup matched"
    "int64 tid" "list_all plain wild" "wild \<noteq> []"
  shows "Table_UnmarshalText s =
    Ok \<lparr>ID = tid, Name = nm, Wild = wild, Max = sint mx, Active = sint active, Lookup = lookup,
        Matched = matched\<rparr>"
proof -
  have k: "list_all plain ''wild''" "list_all plain ''max''" "list_all plain ''active''"
    "list_all plain ''lookup''" "list_all plain ''matched''"
    by (simp_all add: plain_def graphic_def)
  have "HasSuffix (nm @ '':'') '':''" by (auto simp: HasSuffix_iff)
  then show ?thesis
    using assms(2) table_pair_field [OF k(1) assms(3,4)]
    by (simp add: Table_UnmarshalText_def assms(1) table_words_def table_values_def
        k [THEN table_number_field, of "'',''"] k [THEN table_number_last] ParseInt_Itoa numeral_2_eq_2
        numeral_3_eq_3)
qed

text \<open>
  Tables. Text whose words are those that \<^verbatim>\<open>ovs-ofctl dump-tables\<close> prints for a table whose
  name ends with a colon is read to the printed values; the two bounded numbers pass from
  unsigned to signed 64-bit integers.
\<close>

theorem Table_reads:
  assumes "Fields s = table_words tid nm wild mx active lookup matched"
    "int64 tid" "list_all plain wild" "wild \<noteq> []"
  shows "Table_UnmarshalText s =
    Ok \<lparr>ID = tid, Name = nm, Wild = wild, Max = sint mx, Active = sint active, Lookup = lookup,
        Matched = matched\<rparr>"
  by (rule Table_words_read [OF assms])

theorem Table_reads_witness:
  "Table_UnmarshalText ''0: classifier: wild=0x3fffff, max=1000000, active=1   lookup=5, matched=6'' =
    Ok \<lparr>ID = 0, Name = ''classifier'', Wild = ''0x3fffff'', Max = 1000000, Active = 1, Lookup = 5, Matched = 6\<rparr>"
proof -
  have "Fields ''0: classifier: wild=0x3fffff, max=1000000, active=1   lookup=5, matched=6'' =
      table_words 0 ''classifier'' ''0x3fffff'' 1000000 1 5 6"
    by code_simp
  from Table_reads [OF this] show ?thesis by (simp add: int64_def plain_def graphic_def)
qed

text \<open>
  Where reading a table panics: exactly on seven words with a name that does not end with
  a colon and the last four of them key/value words with numbers behind the first, so that
  \<^verbatim>\<open>out\<close> has three elements and \<^verbatim>\<open>out[3]\<close> is out of range.
\<close>

theorem Table_panic_iff:
  "Table_UnmarshalText s = Panic \<longleftrightarrow>
     length (Fields s) = 7 \<and> \<not> HasSuffix (Fields s ! 1) '':'' \<and>
     is_ok (ParseInt (TrimSuffix (Fields s ! 0) '':'') 10 0) \<and> is_ok (table_values (drop 3 (Fields s)))"
proof -
  have len: "length out + 1 = length ws" if "table_values ws = Ok (w, out)" "ws \<noteq> []" for ws w out
    using that by (auto simp: table_values_def dest: each_length split: list.splits)
  have short: "length out < 4 \<longleftrightarrow> length ws < 5"
    if "table_values ws = Ok (w, out)" "ws \<noteq> []" for ws w out
    using len [OF that] by auto
  show ?thesis
    using table_values_panic short [of "drop 2 (Fields s)"] short [of "drop 3 (Fields s)"]
    by (auto simp: Table_UnmarshalText_def and_then_eq_Panic is_ok_iff Let_def split: if_splits) blast
qed

text \<open>
  Aggregate flow statistics. Whatever header precedes them, the last three words of
  \<^verbatim>\<open>ovs-ofctl dump-aggregate\<close> are read to the packet and byte counts.
\<close>

theorem FlowStats_reads:
  assumes "Index hdr packetCount = None" "c \<notin> set packetCount"
    "Fields t = [field packetCount (fmt_d p), field byteCount (fmt_d b), field flowCount (fmt_d (n :: 64 word))]"
    "t = packetCount @ u"
  shows "FlowStats_UnmarshalText (hdr @ c # t) = Ok \<lparr>PacketCount = p, ByteCount = b\<rparr>"
proof -
  have k: "list_all plain packetCount" "list_all plain byteCount" "list_all plain flowCount"
    by (simp_all add: packetCount_def byteCount_def flowCount_def plain_def graphic_def)
  have "Index (hdr @ c # t) packetCount = Some (Suc (length hdr))"
    using assms(1,2,4) Index_prefix [of packetCount u] by (simp add: Index_sep packetCount_def)
  moreover have "drop (Suc (length hdr)) (hdr @ c # t) = t" by simp
  ultimately show ?thesis
    using assms(3) k
    by (simp add: FlowStats_UnmarshalText_def Split_field number_plain ParseUint_fmt_d Let_def
        del: drop_append)
qed

theorem FlowStats_reads_witness:
  "FlowStats_UnmarshalText ''NXST_AGGREGATE reply (xid=0x4): packet_count=642800 byte_count=141379644 flow_count=2'' =
    Ok \<lparr>PacketCount = 642800, ByteCount = 141379644\<rparr>"
proof -
  have a: "Index ''NXST_AGGREGATE reply (xid=0x4):'' packetCount = None" "CHR '' '' \<notin> set packetCount"
    "Fields ''packet_count=642800 byte_count=141379644 flow_count=2'' =
       [field packetCount (fmt_d (642800 :: 64 word)), field byteCount (fmt_d (141379644 :: 64 word)), field flowCount (fmt_d (2 :: 64 word))]"
    "''packet_count=642800 byte_count=141379644 flow_count=2'' = packetCount @ ''=642800 byte_count=141379644 flow_count=2''"
    by code_simp+
  show ?thesis using FlowStats_reads [OF a] by simp
qed

end
