(* ===== verification/Ovs_Client.thy ===== *)
theory Ovs_Client
  imports Go_Net
begin

text \<open>
  \<^verbatim>\<open>ovs/client.go\<close> and the error type of \<^verbatim>\<open>ovs/ovs.go\<close>: how the client runs the Open vSwitch
  control programs. The functions that run a program (\<^verbatim>\<open>ExecFunc\<close>, \<^verbatim>\<open>PipeFunc\<close>) are fields of the
  client in the code and parameters here: they take the command line and a state \<open>'w\<close> of the
  outside world, and return the program's output (\<open>None\<close> for a nil slice), its error if any,
  and the new state. Debug output is added in \<open>Client_Debug\<close>.
\<close>

section \<open>The client\<close>

type_synonym 'w exec_func = "string \<Rightarrow> string list \<Rightarrow> 'w \<Rightarrow> (string option \<times> error option) \<times> 'w"

type_synonym 'w pipe_func =
  "string \<Rightarrow> string \<Rightarrow> string list \<Rightarrow> 'w \<Rightarrow> (string option \<times> error option) \<times> 'w"

record 'w Client =
  flags :: "string list"
  ofctlFlags :: "string list"
  debug :: bool
  sudo :: bool
  execFunc :: "'w exec_func"
  pipeFunc :: "'w pipe_func"

text \<open>What both \<^verbatim>\<open>exec\<close> and \<^verbatim>\<open>pipe\<close> make of a command and its arguments.\<close>

definition command_line :: "'w Client \<Rightarrow> string \<Rightarrow> string list \<Rightarrow> string \<times> string list" where
  "command_line c cmd args =
     (let fl = flags c @ args in if sudo c then (''sudo'', cmd # fl) else (cmd, fl))"

definition Client_exec :: "'w Client \<Rightarrow> string \<Rightarrow> string list \<Rightarrow> 'w \<Rightarrow> string result \<times> 'w" where
  "Client_exec c cmd args w =
     (let (cmd', fl) = command_line c cmd args;
          ((out, err), w') = execFunc c cmd' fl w;
          out' = map_option TrimSpace out
      in case err of
           Some e \<Rightarrow> (Err (ExecError out' e), w')
         | None \<Rightarrow> (Ok (case out' of None \<Rightarrow> [] | Some b \<Rightarrow> b), w'))"

definition Client_pipe :: "'w Client \<Rightarrow> string \<Rightarrow> string \<Rightarrow> string list \<Rightarrow> 'w \<Rightarrow> unit result \<times> 'w" where
  "Client_pipe c stdin cmd args w =
     (let (cmd', fl) = command_line c cmd args;
          ((out, err), w') = pipeFunc c stdin cmd' fl w
      in case err of
           Some e \<Rightarrow> (Err (PipeError out e), w')
         | None \<Rightarrow> (Ok (), w'))"

text \<open>\<^verbatim>\<open>_, err := exec(...)\<close>, and a further step on the output.\<close>

definition no_output :: "'a result \<times> 'w \<Rightarrow> unit result \<times> 'w" where
  "no_output r = (and_then (fst r) (\<lambda>_. Ok ()), snd r)"

definition with_output :: "('a \<Rightarrow> 'b result) \<Rightarrow> 'a result \<times> 'w \<Rightarrow> 'b result \<times> 'w" where
  "with_output f r = (and_then (fst r) f, snd r)"

text \<open>An early return before any command is run leaves the world as it is.\<close>

fun guarded :: "'a result \<Rightarrow> ('a \<Rightarrow> 'w \<Rightarrow> 'b result \<times> 'w) \<Rightarrow> 'w \<Rightarrow> 'b result \<times> 'w" where
  "guarded (Ok x) k w = k x w"
| "guarded (Err e) k w = (Err e, w)"
| "guarded Panic k w = (Panic, w)"

section \<open>Options\<close>

text \<open>
  \<^verbatim>\<open>New\<close> starts from a client that runs programs through the shell and applies the options in
  order. The shell functions are parameters.
\<close>

type_synonym 'w option_func = "'w Client \<Rightarrow> 'w Client"

definition New :: "'w exec_func \<Rightarrow> 'w pipe_func \<Rightarrow> 'w option_func list \<Rightarrow> 'w Client" where
  "New shellExec shellPipe options =
     fold (\<lambda>opt c. opt c) options
       \<lparr>flags = [], ofctlFlags = [], debug = False, sudo = False,
        execFunc = shellExec, pipeFunc = shellPipe\<rparr>"

definition Timeout :: "int \<Rightarrow> 'w option_func" where
  "Timeout seconds c = c\<lparr>flags := flags c @ [''--timeout='' @ Itoa seconds]\<rparr>"

definition Debug :: "bool \<Rightarrow> 'w option_func" where
  "Debug enable c = c\<lparr>debug := enable\<rparr>"

definition Exec :: "'w exec_func \<Rightarrow> 'w option_func" where
  "Exec fn c = c\<lparr>execFunc := fn\<rparr>"

definition Pipe :: "'w pipe_func \<Rightarrow> 'w option_func" where
  "Pipe fn c = c\<lparr>pipeFunc := fn\<rparr>"

definition FlowFormat :: "string \<Rightarrow> 'w option_func" where
  "FlowFormat format c = c\<lparr>ofctlFlags := ofctlFlags c @ [''--flow-format='' @ format]\<rparr>"

definition Protocols :: "string list \<Rightarrow> 'w option_func" where
  "Protocols versions c = c\<lparr>ofctlFlags := ofctlFlags c @ [''--protocols='' @ Join versions '','']\<rparr>"

definition SetSSLParam :: "string \<Rightarrow> string \<Rightarrow> string \<Rightarrow> 'w option_func" where
  "SetSSLParam pkey cert cacert c =
     c\<lparr>ofctlFlags := ofctlFlags c @
         [''--private-key='' @ pkey, ''--certificate='' @ cert, ''--ca-cert='' @ cacert]\<rparr>"

definition Sudo :: "'w option_func" where
  "Sudo c = c\<lparr>sudo := True\<rparr>"

section \<open>Errors of the control programs\<close>

text \<open>
  The type assertion \<^verbatim>\<open>err.(*Error)\<close> is the constructor \<open>ExecError\<close>; \<open>err_text\<close> stands for the
  method \<^verbatim>\<open>Error()\<close> of the error a program returned.
\<close>

fun IsPortNotExist :: "(error \<Rightarrow> string) \<Rightarrow> error \<Rightarrow> bool" where
  "IsPortNotExist err_text (ExecError out e) =
     (HasPrefix (case out of None \<Rightarrow> [] | Some b \<Rightarrow> b) ''ovs-vsctl: no port named '' \<and>
      err_text e = ''exit status 1'')"
| "IsPortNotExist err_text _ = False"

section \<open>The interface the services use\<close>

text \<open>
  What the services rely on when they run a program: the world moves by exactly one call of the
  program's function, on the command line built from the client's flags, and an error of the
  program is an error of the service.
\<close>

locale command_runner =
  fixes run :: "string \<Rightarrow> string list \<Rightarrow> 'w \<Rightarrow> 'a result \<times> 'w"
    and program :: "string \<Rightarrow> string list \<Rightarrow> 'w \<Rightarrow> (string option \<times> error option) \<times> 'w"
  assumes run_world: "snd (run cmd args w) = snd (program cmd args w)"
    and run_ok: "is_ok (fst (run cmd args w)) \<longleftrightarrow> snd (fst (program cmd args w)) = None"
    and run_no_panic: "fst (run cmd args w) \<noteq> Panic"
begin

lemma run_error_iff: "(\<exists>e. fst (run cmd args w) = Err e) \<longleftrightarrow> snd (fst (program cmd args w)) \<noteq> None"
  using run_ok [of cmd args w] run_no_panic [of cmd args w] by (cases "fst (run cmd args w)") auto

lemma run_same_world: "snd (run cmd args w) = w \<longleftrightarrow> snd (program cmd args w) = w"
  by (simp add: run_world)

end

definition exec_program :: "'w Client \<Rightarrow> string \<Rightarrow> string list \<Rightarrow> 'w \<Rightarrow> (string option \<times> error option) \<times> 'w" where
  "exec_program c cmd args = execFunc c (fst (command_line c cmd args)) (snd (command_line c cmd args))"

definition pipe_program ::
  "'w Client \<Rightarrow> string \<Rightarrow> string \<Rightarrow> string list \<Rightarrow> 'w \<Rightarrow> (string option \<times> error option) \<times> 'w" where
  "pipe_program c stdin cmd args =
     pipeFunc c stdin (fst (command_line c cmd args)) (snd (command_line c cmd args))"

interpretation client_exec: command_runner "Client_exec c" "exec_program c" for c
  by unfold_locales
    (auto simp: Client_exec_def exec_program_def Let_def split: prod.splits option.splits)

interpretation client_pipe: command_runner "Client_pipe c stdin" "pipe_program c stdin" for c stdin
  by unfold_locales
    (auto simp: Client_pipe_def pipe_program_def Let_def split: prod.splits option.splits)

lemma Client_exec_err:
  "fst (Client_exec c cmd args w) = Err e \<Longrightarrow>
   \<exists>out e'. e = ExecError (map_option TrimSpace out) e' \<and> fst (exec_program c cmd args w) = (out, Some e')"
  by (auto simp: Client_exec_def exec_program_def Let_def split: prod.splits option.splits)

lemma Client_exec_out:
  assumes "fst (exec_program c cmd args w) = (Some out, None)"
  shows "fst (Client_exec c cmd args w) = Ok (TrimSpace out)"
  using assms by (auto simp: Client_exec_def exec_program_def Let_def split: prod.splits option.splits)

section \<open>Lines of output\<close>

text \<open>A line the programs print: not empty, printable, without trailing blanks, within the scanner's buffer.\<close>

definition line_text :: "string \<Rightarrow> bool" where
  "line_text l \<longleftrightarrow> l \<noteq> [] \<and> list_all (\<lambda>c. graphic c \<or> c = CHR '' '') l \<and> graphic (last l) \<and> length l < 65536"

definition output_lines :: "string list \<Rightarrow> string" where
  "output_lines ls = concat (map (\<lambda>l. l @ [CHR 0x0A]) ls)"

lemma line_text_notin: "line_text l \<Longrightarrow> CHR 0x0A \<notin> set l"
  by (auto simp: line_text_def list_all_iff graphic_def)

lemma output_lines_Join: "ls \<noteq> [] \<Longrightarrow> output_lines ls = Join ls [CHR 0x0A] @ [CHR 0x0A]"
  by (induction ls "[CHR 0x0A]" rule: Join.induct) (auto simp: output_lines_def)

lemma space_width_end_newline: "space_width_end (s @ [CHR 0x0A]) = 1"
  by (simp add: space_width_end_def unicode_spaces_def ascii_spaces_def HasSuffix_def)

lemma TrimRightSpace_newline: "TrimRightSpace (s @ [CHR 0x0A]) = TrimRightSpace s"
  by (subst TrimRightSpace.simps) (simp add: space_width_end_newline)

lemma last_Join: "xs \<noteq> [] \<Longrightarrow> last xs \<noteq> [] \<Longrightarrow> Join xs sep \<noteq> [] \<and> last (Join xs sep) = last (last xs)"
  by (induction xs sep rule: Join.induct) auto

lemma Join_first:
  assumes "ls \<noteq> []" "list_all line_text ls" "graphic (hd (hd ls))"
  obtains c u where "graphic c" "Join ls [CHR 0x0A] = c # u"
proof -
  have "hd ls \<noteq> []" using assms(1,2) by (auto simp: list_all_iff line_text_def)
  then show thesis using assms(1,3) that by (cases ls; cases "hd ls"; cases "tl ls") auto
qed

lemma TrimSpace_lines:
  assumes "ls \<noteq> []" "list_all line_text ls" "graphic (hd (hd ls))"
  shows "TrimSpace (Join ls [CHR 0x0A]) = Join ls [CHR 0x0A]"
proof -
  have "last ls \<noteq> []" "graphic (last (last ls))" using assms(1,2) by (auto simp: list_all_iff line_text_def)
  then have "graphic (last (Join ls [CHR 0x0A]))"
    using last_Join [OF assms(1), of "[CHR 0x0A]"] by simp
  moreover have "graphic (hd (Join ls [CHR 0x0A]))" by (rule Join_first [OF assms]) simp
  ultimately show ?thesis by (intro TrimSpace_graphic)
qed

lemma TrimSpace_output:
  assumes "ls \<noteq> []" "list_all line_text ls" "graphic (hd (hd ls))"
  shows "TrimSpace (output_lines ls) = Join ls [CHR 0x0A]"
proof (rule Join_first [OF assms])
  fix c u assume "graphic c" "Join ls [CHR 0x0A] = c # u"
  then have "TrimLeftSpace (output_lines ls) = output_lines ls"
    "TrimLeftSpace (Join ls [CHR 0x0A]) = Join ls [CHR 0x0A]"
    by (auto simp: output_lines_Join [OF assms(1)] TrimLeftSpace_graphic)
  then show ?thesis
    using TrimSpace_lines [OF assms]
    by (simp add: TrimSpace_def output_lines_Join [OF assms(1)] TrimRightSpace_newline)
qed

lemma Client_exec_lines:
  assumes "fst (exec_program c cmd args w) = (Some (output_lines ls), None)"
    "ls \<noteq> []" "list_all line_text ls" "graphic (hd (hd ls))"
  shows "fst (Client_exec c cmd args w) = Ok (Join ls [CHR 0x0A])"
  using Client_exec_out [OF assms(1)] TrimSpace_output [OF assms(2-4)] by simp

section \<open>Properties\<close>

text \<open>The options as data, and the flags each contributes.\<close>

datatype setting = SetTimeout int | SetDebug bool | SetFlowFormat string | SetProtocols "string list"
  | SetSSL string string string | SetSudo

fun apply_setting :: "setting \<Rightarrow> 'w option_func" where
  "apply_setting (SetTimeout n) = Timeout n"
| "apply_setting (SetDebug b) = Debug b"
| "apply_setting (SetFlowFormat f) = FlowFormat f"
| "apply_setting (SetProtocols vs) = Protocols vs"
| "apply_setting (SetSSL a b c) = SetSSLParam a b c"
| "apply_setting SetSudo = Sudo"

fun setting_flags :: "setting \<Rightarrow> string list" where
  "setting_flags (SetTimeout n) = [''--timeout='' @ Itoa n]"
| "setting_flags _ = []"

fun setting_ofctl :: "setting \<Rightarrow> string list" where
  "setting_ofctl (SetFlowFormat f) = [''--flow-format='' @ f]"
| "setting_ofctl (SetProtocols vs) = [''--protocols='' @ Join vs '','']"
| "setting_ofctl (SetSSL a b c) = [''--private-key='' @ a, ''--certificate='' @ b, ''--ca-cert='' @ c]"
| "setting_ofctl _ = []"

lemmas option_defs = Timeout_def Debug_def FlowFormat_def Protocols_def SetSSLParam_def Sudo_def

lemma fold_settings:
  "flags (fold (\<lambda>opt c. opt c) (map apply_setting ss) c) = flags c @ concat (map setting_flags ss)"
  "ofctlFlags (fold (\<lambda>opt c. opt c) (map apply_setting ss) c) = ofctlFlags c @ concat (map setting_ofctl ss)"
  "sudo (fold (\<lambda>opt c. opt c) (map apply_setting ss) c) \<longleftrightarrow> sudo c \<or> SetSudo \<in> set ss"
  "execFunc (fold (\<lambda>opt c. opt c) (map apply_setting ss) c) = execFunc c"
  "pipeFunc (fold (\<lambda>opt c. opt c) (map apply_setting ss) c) = pipeFunc c"
proof (induction ss arbitrary: c)
  case (Cons s ss)
  {
    case 1
    show ?case using Cons(1) by (cases s) (simp_all add: option_defs)
  next
    case 2
    show ?case using Cons(2) by (cases s) (simp_all add: option_defs)
  next
    case 3
    show ?case using Cons(3) by (cases s) (auto simp: option_defs)
  next
    case 4
    show ?case using Cons(4) by (cases s) (simp_all add: option_defs)
  next
    case 5
    show ?case using Cons(5) by (cases s) (simp_all add: option_defs)
  }
qed simp_all

text \<open>
  Options accumulate. A client made with any options has the recurring flags of all
  \<^verbatim>\<open>Timeout\<close> options in the order given, and uses \<^verbatim>\<open>sudo\<close> exactly when the option is among them;
  the other options do not disturb either.
\<close>

theorem New_options:
  "flags (New ex pi (map apply_setting ss)) = concat (map setting_flags ss) \<and>
   ofctlFlags (New ex pi (map apply_setting ss)) = concat (map setting_ofctl ss) \<and>
   (sudo (New ex pi (map apply_setting ss)) \<longleftrightarrow> SetSudo \<in> set ss) \<and>
   execFunc (New ex pi (map apply_setting ss)) = ex \<and> pipeFunc (New ex pi (map apply_setting ss)) = pi"
  by (simp add: New_def fold_settings)

end
