(* ===== verification/Open_Flow.thy ===== *)
theory Open_Flow
  imports Ovs_Client Ovs_Stats
begin

text \<open>
  \<^verbatim>\<open>ovs/openflow.go\<close>: the service that runs \<^verbatim>\<open>ovs-ofctl\<close>: adding and deleting flows, flow bundles
  with their transactions, and the dumps with the line-oriented parsers of their output. The
  transaction is a state machine whose steps are its exported methods.
\<close>

section \<open>Transactions\<close>

record flowDirective =
  directive :: string
  flow :: string

record FlowTransaction =
  tx_flows :: "flowDirective list"
  committed :: bool
  tx_err :: "error option"

definition new_tx :: FlowTransaction where
  "new_tx = \<lparr>tx_flows = [], committed = False, tx_err = None\<rparr>"

definition dirAdd :: string where "dirAdd = ''add''"

definition dirDelete :: string where "dirDelete = ''delete''"

text \<open>\<^verbatim>\<open>push\<close>: the marshaler is the method of the flows pushed.\<close>

fun push :: "('a \<Rightarrow> string result) \<Rightarrow> string \<Rightarrow> 'a list \<Rightarrow> FlowTransaction \<Rightarrow> FlowTransaction result" where
  "push marshal d [] tx = Ok tx"
| "push marshal d (f # fs) tx =
     (case marshal f of
        Panic \<Rightarrow> Panic
      | Err e \<Rightarrow> Ok (tx\<lparr>tx_err := Some e\<rparr>)
      | Ok fb \<Rightarrow> push marshal d fs (tx\<lparr>tx_flows := tx_flows tx @ [\<lparr>directive = d, flow = fb\<rparr>]\<rparr>))"

definition tx_Add :: "Flow list \<Rightarrow> FlowTransaction \<Rightarrow> FlowTransaction result" where
  "tx_Add fs tx = (if tx_err tx \<noteq> None then Ok tx else push Flow_MarshalText dirAdd fs tx)"

definition tx_Delete :: "MatchFlow list \<Rightarrow> FlowTransaction \<Rightarrow> FlowTransaction result" where
  "tx_Delete fs tx = (if tx_err tx \<noteq> None then Ok tx else push MatchFlow_MarshalText dirDelete fs tx)"

text \<open>\<^verbatim>\<open>Commit\<close> and \<^verbatim>\<open>Discard\<close> return an error beside the changed transaction.\<close>

definition tx_Commit :: "FlowTransaction \<Rightarrow> FlowTransaction \<times> error option" where
  "tx_Commit tx =
     (if tx_err tx \<noteq> None then (tx, tx_err tx) else (tx\<lparr>committed := True\<rparr>, None))"

definition tx_Discard :: "error \<Rightarrow> FlowTransaction \<Rightarrow> FlowTransaction \<times> error option" where
  "tx_Discard e tx = (tx\<lparr>tx_flows := []\<rparr>, Some (DiscardError e))"

section \<open>Commands\<close>

definition ofctl_exec :: "'w Client \<Rightarrow> string list \<Rightarrow> 'w \<Rightarrow> string result \<times> 'w" where
  "ofctl_exec c args = Client_exec c ''ovs-ofctl'' args"

definition ofctl_pipe :: "'w Client \<Rightarrow> string \<Rightarrow> string list \<Rightarrow> 'w \<Rightarrow> unit result \<times> 'w" where
  "ofctl_pipe c stdin args = Client_pipe c stdin ''ovs-ofctl'' args"

definition AddFlow :: "'w Client \<Rightarrow> string \<Rightarrow> Flow \<Rightarrow> 'w \<Rightarrow> unit result \<times> 'w" where
  "AddFlow c bridge fl =
     guarded (Flow_MarshalText fl) (\<lambda>fb w.
       no_output (ofctl_exec c ([''add-flow''] @ ofctlFlags c @ [bridge, fb]) w))"

definition bundle_text :: "flowDirective list \<Rightarrow> string" where
  "bundle_text fs = concat (map (\<lambda>f. directive f @ '' '' @ flow f @ [CHR 0x0A]) fs)"

text \<open>
  The callback of \<^verbatim>\<open>AddFlowBundle\<close> is code of the caller: it is a parameter that receives the
  transaction and returns the changed one and its error, or panics.
\<close>

definition AddFlowBundle ::
  "'w Client \<Rightarrow> string \<Rightarrow> (FlowTransaction \<Rightarrow> (FlowTransaction \<times> error option) result) \<Rightarrow> 'w \<Rightarrow> unit result \<times> 'w" where
  "AddFlowBundle c bridge fn =
     guarded (fn new_tx) (\<lambda>(tx, err) w.
       case err of
         Some e \<Rightarrow> (Err e, w)
       | None \<Rightarrow>
           if \<not> committed tx then (Err ErrNotCommitted, w)
           else ofctl_pipe c (bundle_text (tx_flows tx))
                  ([''--bundle'', ''add-flow''] @ ofctlFlags c @ [bridge, ''-'']) w)"

definition DelFlows :: "'w Client \<Rightarrow> string \<Rightarrow> MatchFlow option \<Rightarrow> 'w \<Rightarrow> unit result \<times> 'w" where
  "DelFlows c bridge fl =
     (case fl of
        None \<Rightarrow> (\<lambda>w. no_output (ofctl_exec c [''del-flows'', bridge] w))
      | Some f \<Rightarrow>
          guarded (MatchFlow_MarshalText f) (\<lambda>fb w.
            no_output (ofctl_exec c [''del-flows'', bridge, fb] w)))"

definition ModPort :: "'w Client \<Rightarrow> string \<Rightarrow> string \<Rightarrow> string \<Rightarrow> 'w \<Rightarrow> unit result \<times> 'w" where
  "ModPort c bridge port action w = no_output (ofctl_exec c [''mod-port'', bridge, port, action] w)"

section \<open>Reading output\<close>

text \<open>
  \<^verbatim>\<open>bufio.Scanner\<close> with \<^verbatim>\<open>ScanLines\<close>: the lines without their end (\<open>\n\<close> or \<open>\r\n\<close>), the last one
  only if it is not empty; it stops with \<^verbatim>\<open>bufio.ErrTooLong\<close> at a line that does not fit its
  buffer of 65536 bytes.
\<close>

definition raw_lines :: "string \<Rightarrow> string list" where
  "raw_lines s =
     (let ls = Split s [CHR 0x0A] in if last ls = [] then butlast ls else ls)"

definition scan_lines :: "string \<Rightarrow> string list \<times> error option" where
  "scan_lines s =
     (let ls = raw_lines s; fits = (\<lambda>l. length l < 65536) in
      (map (\<lambda>l. TrimSuffix l [CHR 0x0D]) (takeWhile fits ls),
       if list_all fits ls then None else Some ErrTokenTooLong))"

text \<open>
  The callbacks append to a slice of the caller; here they return what they append. The loops
  return everything appended beside the outcome, since the callers return the slice together
  with the error.
\<close>

type_synonym 'b collected = "'b list \<times> unit result"

definition scan_end :: "error option \<Rightarrow> 'b collected" where
  "scan_end err = ([], case err of None \<Rightarrow> Ok () | Some e \<Rightarrow> Err e)"

definition call_then :: "'b list result \<Rightarrow> 'b collected \<Rightarrow> 'b collected" where
  "call_then r rest =
     (case r of
        Ok xs \<Rightarrow> (xs @ fst rest, snd rest)
      | Err e \<Rightarrow> ([], Err e)
      | Panic \<Rightarrow> ([], Panic))"

fun line_loop :: "(string \<Rightarrow> 'b list result) \<Rightarrow> string list \<Rightarrow> error option \<Rightarrow> 'b collected" where
  "line_loop fn [] err = scan_end err"
| "line_loop fn (l # ls) err = call_then (fn l) (line_loop fn ls err)"

definition parseEachLine :: "string \<Rightarrow> string \<Rightarrow> (string \<Rightarrow> 'b list result) \<Rightarrow> 'b collected" where
  "parseEachLine inp pre fn =
     (case scan_lines inp of
        ([], _) \<Rightarrow> ([], Err ErrUnexpectedEOF)
      | (l # ls, err) \<Rightarrow>
          if \<not> HasPrefix l pre then ([], Err ErrUnexpectedEOF) else line_loop fn ls err)"

fun pair_loop :: "bool \<Rightarrow> (string \<Rightarrow> 'b list result) \<Rightarrow> string list \<Rightarrow> error option \<Rightarrow> 'b collected" where
  "pair_loop hasDuration fn [] err = scan_end err"
| "pair_loop hasDuration fn [a] err = ([], Err ErrUnexpectedEOF)"
| "pair_loop hasDuration fn (a # b # ls) err =
     (if hasDuration \<and> ls = [] then ([], Err ErrUnexpectedEOF)
      else call_then (fn (a @ b)) (pair_loop hasDuration fn (if hasDuration then tl ls else ls) err))"

definition parseEach :: "string \<Rightarrow> string \<Rightarrow> (string \<Rightarrow> 'b list result) \<Rightarrow> 'b collected" where
  "parseEach inp pre fn =
     (case scan_lines inp of
        ([], _) \<Rightarrow> ([], Err ErrUnexpectedEOF)
      | (l # ls, err) \<Rightarrow>
          if \<not> HasPrefix l pre then ([], Err ErrUnexpectedEOF)
          else pair_loop (Contains l ''(OF1.'') fn ls err)"

section \<open>Dumps\<close>

definition dumpPortsPrefix :: string where "dumpPortsPrefix = ''OFPST_PORT reply''"
definition dumpTablesPrefix :: string where "dumpTablesPrefix = ''OFPST_TABLE reply''"
definition dumpFlowsPrefix :: string where "dumpFlowsPrefix = ''NXST_FLOW reply''"
definition dumpAggregatePrefix :: string where "dumpAggregatePrefix = ''NXST_AGGREGATE reply''"

text \<open>\<^verbatim>\<open>if err != nil { return nil, err }\<close>, and otherwise what the parser collected and its error.\<close>

definition collected_output :: "(string \<Rightarrow> 'b collected) \<Rightarrow> string result \<times> 'w \<Rightarrow> 'b collected \<times> 'w" where
  "collected_output f r =
     (case fst r of
        Ok out \<Rightarrow> f out
      | Err e \<Rightarrow> ([], Err e)
      | Panic \<Rightarrow> ([], Panic), snd r)"

definition port_entry :: "string \<Rightarrow> PortStats list result" where
  "port_entry b = and_then (PortStats_UnmarshalText b) (\<lambda>s. Ok [s])"

definition dumpPorts :: "'w Client \<Rightarrow> string \<Rightarrow> string \<Rightarrow> 'w \<Rightarrow> PortStats collected \<times> 'w" where
  "dumpPorts c bridge port w =
     collected_output (\<lambda>out. parseEach out dumpPortsPrefix port_entry)
       (ofctl_exec c (ofctlFlags c @ [''dump-ports'', bridge] @ (if port \<noteq> [] then [port] else [])) w)"

definition DumpPorts :: "'w Client \<Rightarrow> string \<Rightarrow> 'w \<Rightarrow> PortStats collected \<times> 'w" where
  "DumpPorts c bridge w = dumpPorts c bridge [] w"

definition single_value :: "'a collected \<Rightarrow> 'a result" where
  "single_value r =
     and_then (snd r) (\<lambda>_. if length (fst r) \<noteq> 1 then Err ErrMultipleValues else Ok (fst r ! 0))"

definition DumpPort :: "'w Client \<Rightarrow> string \<Rightarrow> string \<Rightarrow> 'w \<Rightarrow> PortStats result \<times> 'w" where
  "DumpPort c bridge port w = (case dumpPorts c bridge port w of (r, w') \<Rightarrow> (single_value r, w'))"

definition table_entry :: "string \<Rightarrow> Table list result" where
  "table_entry b =
     and_then (Table_UnmarshalText b) (\<lambda>t.
       if Active t = 0 \<and> Lookup t = 0 \<and> Matched t = 0 then Ok [] else Ok [t])"

definition DumpTables :: "'w Client \<Rightarrow> string \<Rightarrow> 'w \<Rightarrow> Table collected \<times> 'w" where
  "DumpTables c bridge w =
     collected_output (\<lambda>out. parseEach out dumpTablesPrefix table_entry)
       (ofctl_exec c [''dump-tables'', bridge] w)"

definition flow_entry :: "string \<Rightarrow> Flow list result" where
  "flow_entry b =
     (if HasPrefix b dumpFlowsPrefix then Ok []
      else and_then (Flow_UnmarshalText zero_Flow b) (\<lambda>f. Ok [f]))"

definition DumpFlows :: "'w Client \<Rightarrow> string \<Rightarrow> 'w \<Rightarrow> Flow collected \<times> 'w" where
  "DumpFlows c bridge w =
     collected_output (\<lambda>out. parseEachLine out dumpFlowsPrefix flow_entry)
       (ofctl_exec c [''dump-flows'', bridge] w)"

definition dumpAggregate :: "'w Client \<Rightarrow> string \<Rightarrow> MatchFlow \<Rightarrow> 'w \<Rightarrow> FlowStats result \<times> 'w" where
  "dumpAggregate c bridge fl =
     guarded (MatchFlow_MarshalText fl) (\<lambda>flowText w.
       with_output FlowStats_UnmarshalText
         (ofctl_exec c (ofctlFlags c @ [''dump-aggregate'', bridge, flowText]) w))"

definition DumpAggregate :: "'w Client \<Rightarrow> string \<Rightarrow> MatchFlow \<Rightarrow> 'w \<Rightarrow> FlowStats result \<times> 'w" where
  "DumpAggregate c bridge fl w = dumpAggregate c bridge fl w"

section \<open>The transaction as a state machine\<close>

definition directives :: "string \<Rightarrow> string list \<Rightarrow> flowDirective list" where
  "directives d ts = map (\<lambda>t. \<lparr>directive = d, flow = t\<rparr>) ts"

lemma directives_simps [simp]:
  "directives d [] = []" "directives d (t # ts) = \<lparr>directive = d, flow = t\<rparr> # directives d ts"
  by (simp_all add: directives_def)

text \<open>The client of the marshaler interface: what a push leaves behind.\<close>

context text_marshaler
begin

lemma push_all:
  "each marshal fs = Ok ts \<Longrightarrow>
   push marshal d fs tx = Ok (tx\<lparr>tx_flows := tx_flows tx @ directives d ts\<rparr>)"
  by (induction fs arbitrary: ts tx) auto

lemma push_fails:
  "each marshal fs = Err e \<Longrightarrow>
   \<exists>ts as bs. push marshal d fs tx = Ok (tx\<lparr>tx_flows := tx_flows tx @ directives d ts, tx_err := Some e\<rparr>) \<and>
     fs = as @ bs \<and> bs \<noteq> [] \<and> each marshal as = Ok ts \<and> marshal (hd bs) = Err e"
proof (induction fs arbitrary: tx)
  case (Cons f fs)
  show ?case
  proof (cases "marshal f")
    case (Ok t)
    with Cons.prems have "each marshal fs = Err e" by (auto simp: and_then_eq_Err)
    from Cons.IH [OF this, of "tx\<lparr>tx_flows := tx_flows tx @ [\<lparr>directive = d, flow = t\<rparr>]\<rparr>"] obtain ts as bs where
      "push marshal d fs (tx\<lparr>tx_flows := tx_flows tx @ [\<lparr>directive = d, flow = t\<rparr>]\<rparr>) =
         Ok (tx\<lparr>tx_flows := (tx_flows tx @ [\<lparr>directive = d, flow = t\<rparr>]) @ directives d ts, tx_err := Some e\<rparr>)"
      "fs = as @ bs" "bs \<noteq> []" "each marshal as = Ok ts" "marshal (hd bs) = Err e"
      by auto
    then have "push marshal d (f # fs) tx =
        Ok (tx\<lparr>tx_flows := tx_flows tx @ directives d (t # ts), tx_err := Some e\<rparr>) \<and>
        f # fs = (f # as) @ bs \<and> bs \<noteq> [] \<and> each marshal (f # as) = Ok (t # ts) \<and> marshal (hd bs) = Err e"
      using Ok by simp
    then show ?thesis by blast
  next
    case (Err e')
    with Cons.prems have "push marshal d (f # fs) tx =
        Ok (tx\<lparr>tx_flows := tx_flows tx @ directives d [], tx_err := Some e\<rparr>) \<and>
        f # fs = [] @ (f # fs) \<and> f # fs \<noteq> [] \<and> each marshal [] = Ok [] \<and> marshal (hd (f # fs)) = Err e"
      by simp
    then show ?thesis by blast
  qed (use marshal_no_panic in simp)
qed simp

lemma push_cases:
  obtains (all) ts where "each marshal fs = Ok ts"
      "push marshal d fs tx = Ok (tx\<lparr>tx_flows := tx_flows tx @ directives d ts\<rparr>)"
    | (fails) e ts as where "each marshal fs = Err e" "each marshal as = Ok ts"
      "push marshal d fs tx = Ok (tx\<lparr>tx_flows := tx_flows tx @ directives d ts, tx_err := Some e\<rparr>)"
proof (rule marshal_each_cases [of fs])
  fix ts assume "each marshal fs = Ok ts"
  then show thesis using all push_all by blast
next
  fix e assume e: "each marshal fs = Err e"
  from push_fails [OF this, of d tx] fails [OF e] show thesis by blast
qed

end

text \<open>
  The steps a caller can take: the exported methods. Each changes the transaction; the errors
  of \<^verbatim>\<open>Commit\<close> and \<^verbatim>\<open>Discard\<close> are the caller's to return.
\<close>

inductive tx_step :: "FlowTransaction \<Rightarrow> FlowTransaction \<Rightarrow> bool" where
  add: "tx_Add fs tx = Ok tx' \<Longrightarrow> tx_step tx tx'"
| delete: "tx_Delete ms tx = Ok tx' \<Longrightarrow> tx_step tx tx'"
| commit: "tx_Commit tx = (tx', err) \<Longrightarrow> tx_step tx tx'"
| discard: "tx_Discard e tx = (tx', err) \<Longrightarrow> tx_step tx tx'"

inductive tx_reachable :: "FlowTransaction \<Rightarrow> bool" where
  init: "tx_reachable new_tx"
| step: "tx_reachable tx \<Longrightarrow> tx_step tx tx' \<Longrightarrow> tx_reachable tx'"

inductive_cases tx_stepE: "tx_step tx tx'"

lemma tx_Add_cases:
  assumes "tx_Add fs tx = Ok tx'"
  obtains (stuck) "tx_err tx \<noteq> None" "tx' = tx"
    | (all) ts where "tx_err tx = None" "each Flow_MarshalText fs = Ok ts"
      "tx' = tx\<lparr>tx_flows := tx_flows tx @ directives dirAdd ts\<rparr>"
    | (fails) e ts as where "tx_err tx = None" "each Flow_MarshalText fs = Err e" "each Flow_MarshalText as = Ok ts"
      "tx' = tx\<lparr>tx_flows := tx_flows tx @ directives dirAdd ts, tx_err := Some e\<rparr>"
proof (cases "tx_err tx = None")
  case True
  then have p: "push Flow_MarshalText dirAdd fs tx = Ok tx'" using assms by (simp add: tx_Add_def)
  show thesis
  proof (rule flow_text.push_cases [of fs dirAdd tx])
    fix ts assume e: "each Flow_MarshalText fs = Ok ts" and
      "push Flow_MarshalText dirAdd fs tx = Ok (tx\<lparr>tx_flows := tx_flows tx @ directives dirAdd ts\<rparr>)"
    with p show thesis by (intro all [OF True e]) simp
  next
    fix e ts as assume e: "each Flow_MarshalText fs = Err e" "each Flow_MarshalText as = Ok ts" and
      "push Flow_MarshalText dirAdd fs tx = Ok (tx\<lparr>tx_flows := tx_flows tx @ directives dirAdd ts, tx_err := Some e\<rparr>)"
    with p show thesis by (intro fails [OF True e]) simp
  qed
next
  case False
  moreover have "tx' = tx" using False assms by (simp add: tx_Add_def)
  ultimately show thesis by (rule stuck)
qed

lemma tx_Delete_cases:
  assumes "tx_Delete fs tx = Ok tx'"
  obtains (stuck) "tx_err tx \<noteq> None" "tx' = tx"
    | (all) ts where "tx_err tx = None" "each MatchFlow_MarshalText fs = Ok ts"
      "tx' = tx\<lparr>tx_flows := tx_flows tx @ directives dirDelete ts\<rparr>"
    | (fails) e ts as where "tx_err tx = None" "each MatchFlow_MarshalText fs = Err e" "each MatchFlow_MarshalText as = Ok ts"
      "tx' = tx\<lparr>tx_flows := tx_flows tx @ directives dirDelete ts, tx_err := Some e\<rparr>"
proof (cases "tx_err tx = None")
  case True
  then have p: "push MatchFlow_MarshalText dirDelete fs tx = Ok tx'" using assms by (simp add: tx_Delete_def)
  show thesis
  proof (rule match_flow_text.push_cases [of fs dirDelete tx])
    fix ts assume e: "each MatchFlow_MarshalText fs = Ok ts" and
      "push MatchFlow_MarshalText dirDelete fs tx = Ok (tx\<lparr>tx_flows := tx_flows tx @ directives dirDelete ts\<rparr>)"
    with p show thesis by (intro all [OF True e]) simp
  next
    fix e ts as assume e: "each MatchFlow_MarshalText fs = Err e" "each MatchFlow_MarshalText as = Ok ts" and
      "push MatchFlow_MarshalText dirDelete fs tx = Ok (tx\<lparr>tx_flows := tx_flows tx @ directives dirDelete ts, tx_err := Some e\<rparr>)"
    with p show thesis by (intro fails [OF True e]) simp
  qed
next
  case False
  moreover have "tx' = tx" using False assms by (simp add: tx_Delete_def)
  ultimately show thesis by (rule stuck)
qed

text \<open>Every directive carries the text of a flow that marshals.\<close>

definition valid_directive :: "flowDirective \<Rightarrow> bool" where
  "valid_directive d \<longleftrightarrow>
     directive d = dirAdd \<and> (\<exists>f. Flow_MarshalText f = Ok (flow d)) \<or>
     directive d = dirDelete \<and> (\<exists>f. MatchFlow_MarshalText f = Ok (flow d))"

lemma valid_adds: "each Flow_MarshalText fs = Ok ts \<Longrightarrow> list_all valid_directive (directives dirAdd ts)"
  by (induction fs arbitrary: ts) (auto simp: valid_directive_def)

lemma valid_deletes:
  "each MatchFlow_MarshalText ms = Ok ts \<Longrightarrow> list_all valid_directive (directives dirDelete ts)"
  by (induction ms arbitrary: ts) (auto simp: valid_directive_def)

lemmas valid_directives = valid_adds valid_deletes

lemma tx_step_valid:
  "tx_step tx tx' \<Longrightarrow> list_all valid_directive (tx_flows tx) \<Longrightarrow> list_all valid_directive (tx_flows tx')"
proof (erule tx_stepE)
  fix fs assume "tx_Add fs tx = Ok tx'" "list_all valid_directive (tx_flows tx)"
  then show ?thesis by (elim tx_Add_cases) (auto dest: valid_directives)
next
  fix fs assume "tx_Delete fs tx = Ok tx'" "list_all valid_directive (tx_flows tx)"
  then show ?thesis by (elim tx_Delete_cases) (auto dest: valid_directives)
qed (auto simp: tx_Commit_def tx_Discard_def split: if_splits)

lemma tx_step_error:
  assumes "tx_step tx tx'" "tx_err tx = Some e"
  shows "tx_err tx' = Some e \<and> committed tx' = committed tx \<and> (tx_flows tx' = tx_flows tx \<or> tx_flows tx' = [])"
  using assms
  by (elim tx_stepE) (auto simp: tx_Add_def tx_Delete_def tx_Commit_def tx_Discard_def)

lemma tx_step_committed: "tx_step tx tx' \<Longrightarrow> committed tx \<Longrightarrow> committed tx'"
  by (elim tx_stepE) (auto elim!: tx_Add_cases tx_Delete_cases simp: tx_Commit_def tx_Discard_def split: if_splits)

text \<open>What holds of every transaction a caller can build.\<close>

definition tx_inv :: "FlowTransaction \<Rightarrow> bool" where
  "tx_inv tx \<longleftrightarrow> list_all valid_directive (tx_flows tx) \<and>
     (\<forall>e. tx_err tx = Some e \<longrightarrow>
        (\<exists>f. Flow_MarshalText f = Err e) \<or> (\<exists>m. MatchFlow_MarshalText m = Err e))"

lemma each_Err_ex: "each f xs = Err e \<Longrightarrow> \<exists>x. f x = Err e"
  by (induction xs) (auto simp: and_then_eq_Err)

lemma tx_step_inv: "tx_step tx tx' \<Longrightarrow> tx_inv tx \<Longrightarrow> tx_inv tx'"
proof -
  assume s: "tx_step tx tx'" and i: "tx_inv tx"
  then have v: "list_all valid_directive (tx_flows tx')" by (auto simp: tx_inv_def intro: tx_step_valid)
  from s have "(\<forall>e. tx_err tx' = Some e \<longrightarrow>
      tx_err tx = Some e \<or> (\<exists>f. Flow_MarshalText f = Err e) \<or> (\<exists>m. MatchFlow_MarshalText m = Err e))"
    by (elim tx_stepE)
      (auto elim!: tx_Add_cases tx_Delete_cases dest: each_Err_ex simp: tx_Commit_def tx_Discard_def split: if_splits)
  then show ?thesis using i v by (auto simp: tx_inv_def)
qed

section \<open>The transaction refines a list of texts\<close>

text \<open>
  Abstractly a transaction is the list of directives collected so far, or the first error. Adding
  and deleting extend it all or nothing.
\<close>

datatype tx_op = OpAdd "Flow list" | OpDelete "MatchFlow list"

fun run_op :: "tx_op \<Rightarrow> FlowTransaction \<Rightarrow> FlowTransaction result" where
  "run_op (OpAdd fs) = tx_Add fs"
| "run_op (OpDelete ms) = tx_Delete ms"

fun run_ops :: "tx_op list \<Rightarrow> FlowTransaction \<Rightarrow> FlowTransaction result" where
  "run_ops [] tx = Ok tx"
| "run_ops (x # xs) tx = and_then (run_op x tx) (run_ops xs)"

fun op_directives :: "tx_op \<Rightarrow> flowDirective list result" where
  "op_directives (OpAdd fs) = and_then (each Flow_MarshalText fs) (\<lambda>ts. Ok (directives dirAdd ts))"
| "op_directives (OpDelete ms) = and_then (each MatchFlow_MarshalText ms) (\<lambda>ts. Ok (directives dirDelete ts))"

definition tx_abs :: "FlowTransaction \<Rightarrow> flowDirective list result" where
  "tx_abs tx = (case tx_err tx of None \<Rightarrow> Ok (tx_flows tx) | Some e \<Rightarrow> Err e)"

lemma run_op_abs:
  "\<exists>tx'. run_op x tx = Ok tx' \<and> committed tx' = committed tx \<and>
     tx_abs tx' = and_then (tx_abs tx) (\<lambda>ds. and_then (op_directives x) (\<lambda>new. Ok (ds @ new)))"
proof (cases "tx_err tx")
  case None
  show ?thesis
  proof (cases x)
    case (OpAdd fs)
    show ?thesis
      by (rule flow_text.push_cases [of fs dirAdd tx]) (simp_all add: None OpAdd tx_Add_def tx_abs_def)
  next
    case (OpDelete ms)
    show ?thesis
      by (rule match_flow_text.push_cases [of ms dirDelete tx])
        (simp_all add: None OpDelete tx_Delete_def tx_abs_def)
  qed
next
  case (Some e)
  then show ?thesis by (cases x) (simp_all add: tx_Add_def tx_Delete_def tx_abs_def)
qed

lemma run_ops_abs:
  "\<exists>tx'. run_ops xs tx = Ok tx' \<and> committed tx' = committed tx \<and>
     tx_abs tx' = and_then (tx_abs tx) (\<lambda>ds. and_then (each op_directives xs) (\<lambda>dss. Ok (ds @ concat dss)))"
proof (induction xs arbitrary: tx)
  case (Cons x xs)
  obtain tx1 where 1: "run_op x tx = Ok tx1" "committed tx1 = committed tx"
    "tx_abs tx1 = and_then (tx_abs tx) (\<lambda>ds. and_then (op_directives x) (\<lambda>new. Ok (ds @ new)))"
    using run_op_abs [of x tx] by blast
  from Cons.IH [of tx1] 1 show ?case
    by (auto simp: and_then_assoc)
qed simp

text \<open>The callback that runs the operations and commits.\<close>

definition commit_after :: "tx_op list \<Rightarrow> FlowTransaction \<Rightarrow> (FlowTransaction \<times> error option) result" where
  "commit_after xs tx = and_then (run_ops xs tx) (\<lambda>tx'. Ok (tx_Commit tx'))"

definition bundle_args :: "'w Client \<Rightarrow> string \<Rightarrow> string list" where
  "bundle_args c bridge = [''--bundle'', ''add-flow''] @ ofctlFlags c @ [bridge, ''-'']"

section \<open>Properties of transactions\<close>

text \<open>
  C9: every transaction that a sequence of calls of \<^verbatim>\<open>Add\<close>, \<^verbatim>\<open>Delete\<close>, \<^verbatim>\<open>Commit\<close> and \<^verbatim>\<open>Discard\<close> can
  reach holds only directives whose text is the marshaled form of a flow (for \<^verbatim>\<open>add\<close>) or of a
  match flow (for \<^verbatim>\<open>delete\<close>), and an error it stores is the error of a flow that does not marshal.
\<close>

theorem tx_reachable_inv: "tx_reachable tx \<Longrightarrow> tx_inv tx"
proof (induction rule: tx_reachable.induct)
  case init
  show ?case by (simp add: tx_inv_def new_tx_def)
next
  case (step tx tx')
  then show ?case by (blast intro: tx_step_inv)
qed

theorem tx_reachable_inv_witness:
  "tx_inv \<lparr>tx_flows = [\<lparr>directive = dirAdd, flow = ''priority=0,table=0,idle_timeout=0,actions=drop''\<rparr>],
           committed = True, tx_err = None\<rparr>"
proof (rule tx_reachable_inv)
  let ?tx = "\<lparr>tx_flows = [\<lparr>directive = dirAdd, flow = ''priority=0,table=0,idle_timeout=0,actions=drop''\<rparr>],
           committed = False, tx_err = None\<rparr>"
  have a: "tx_Add [zero_Flow\<lparr>f_Actions := [Drop]\<rparr>] new_tx = Ok ?tx"
    by code_simp
  have "tx_reachable ?tx" by (rule tx_reachable.step [OF tx_reachable.init tx_step.add [OF a]])
  moreover have "tx_Commit ?tx = (?tx\<lparr>committed := True\<rparr>, None)" by (simp add: tx_Commit_def)
  ultimately show "tx_reachable \<lparr>tx_flows = [\<lparr>directive = dirAdd, flow = ''priority=0,table=0,idle_timeout=0,actions=drop''\<rparr>],
           committed = True, tx_err = None\<rparr>"
    using tx_reachable.step tx_step.commit by fastforce
qed

text \<open>
  C3: a committed bundle is all or nothing. Whatever sequence of \<^verbatim>\<open>Add\<close> and \<^verbatim>\<open>Delete\<close> calls the
  callback makes before \<^verbatim>\<open>Commit\<close>, the bundle runs one command, whose standard input lists every
  flow of every call in order; or, if any of them does not marshal, no command at all, and the first
  error is returned.
\<close>

theorem AddFlowBundle_atomic:
  "AddFlowBundle c bridge (commit_after xs) w =
     guarded (each op_directives xs)
       (\<lambda>dss. ofctl_pipe c (bundle_text (concat dss)) (bundle_args c bridge)) w"
proof -
  obtain tx' where 1: "run_ops xs new_tx = Ok tx'" "\<not> committed tx'"
    "tx_abs tx' = and_then (each op_directives xs) (\<lambda>dss. Ok (concat dss))"
    using run_ops_abs [of xs new_tx] by (auto simp: new_tx_def tx_abs_def)
  show ?thesis
  proof (cases "each op_directives xs")
    case (Ok dss)
    then have "tx_err tx' = None" "tx_flows tx' = concat dss"
      using 1(3) by (auto simp: tx_abs_def split: option.splits)
    then show ?thesis
      using 1 Ok by (simp add: AddFlowBundle_def commit_after_def tx_Commit_def bundle_args_def)
  next
    case (Err e)
    then have "tx_err tx' = Some e" using 1(3) by (auto simp: tx_abs_def split: option.splits)
    then show ?thesis
      using 1 Err by (simp add: AddFlowBundle_def commit_after_def tx_Commit_def)
  next
    case Panic
    then show ?thesis using 1(3) by (simp add: tx_abs_def split: option.splits)
  qed
qed

text \<open>
  Without a commit nothing is sent. Unless the callback returns no error and leaves a
  committed transaction, \<^verbatim>\<open>AddFlowBundle\<close> runs no command and does not succeed; in particular a
  callback that returns the error of \<^verbatim>\<open>Discard\<close> changes nothing.
\<close>

theorem AddFlowBundle_needs_commit:
  assumes "\<nexists>tx. fn new_tx = Ok (tx, None) \<and> committed tx"
  shows "snd (AddFlowBundle c bridge fn w) = w \<and> \<not> is_ok (fst (AddFlowBundle c bridge fn w))"
proof (cases "fn new_tx")
  case (Ok p)
  then show ?thesis
    using assms by (cases p) (auto simp: AddFlowBundle_def split: option.splits)
qed (simp_all add: AddFlowBundle_def)

theorem AddFlowBundle_needs_commit_witness:
  "snd (AddFlowBundle (New (\<lambda>_ _ n. ((None, None), n + 1)) (\<lambda>_ _ _ n. ((None, None), n + (1 :: nat))) []) ''br0''
     (\<lambda>tx. and_then (tx_Add [zero_Flow\<lparr>f_Actions := [Drop]\<rparr>] tx) (\<lambda>tx'. Ok (tx_Discard ErrEOF tx'))) 0) = 0"
proof -
  have "\<nexists>tx. and_then (tx_Add [zero_Flow\<lparr>f_Actions := [Drop]\<rparr>] new_tx) (\<lambda>tx'. Ok (tx_Discard ErrEOF tx')) =
      Ok (tx, None) \<and> committed tx"
    by (auto simp: tx_Discard_def)
  then show ?thesis
    by (rule AddFlowBundle_needs_commit [of "\<lambda>tx. and_then (tx_Add [zero_Flow\<lparr>f_Actions := [Drop]\<rparr>] tx) (\<lambda>tx'. Ok (tx_Discard ErrEOF tx'))",
          THEN conjunct1])
qed

definition add_after_commit :: "Flow list \<Rightarrow> Flow list \<Rightarrow> FlowTransaction \<Rightarrow> (FlowTransaction \<times> error option) result" where
  "add_after_commit fs gs tx =
     and_then (tx_Add fs tx) (\<lambda>tx1. let (tx2, err) = tx_Commit tx1 in
       and_then (tx_Add gs tx2) (\<lambda>tx3. Ok (tx3, err)))"

text \<open>
  An error after the commit is lost. A flow that does not marshal, added after \<^verbatim>\<open>Commit\<close>, is
  left out of the bundle, which is sent nevertheless, and its error is not reported.
\<close>

theorem AddFlowBundle_late_error:
  assumes "each Flow_MarshalText fs = Ok ts" "Flow_MarshalText g = Err e"
  shows "AddFlowBundle c bridge (add_after_commit fs [g]) w =
    ofctl_pipe c (bundle_text (directives dirAdd ts)) (bundle_args c bridge) w"
  using assms flow_text.push_all [OF assms(1), of dirAdd new_tx]
  by (simp add: AddFlowBundle_def add_after_commit_def tx_Add_def tx_Commit_def new_tx_def bundle_args_def)

theorem AddFlowBundle_late_error_witness:
  "AddFlowBundle (New (\<lambda>_ _ n. ((None, None), n)) (\<lambda>s _ _ n. ((None, None), n @ [s])) []) ''br0''
     (add_after_commit [zero_Flow\<lparr>f_Actions := [Drop]\<rparr>] [zero_Flow]) [] =
   (Ok (), [''add priority=0,table=0,idle_timeout=0,actions=drop'' @ [CHR 0x0A]])"
proof -
  have "each Flow_MarshalText [zero_Flow\<lparr>f_Actions := [Drop]\<rparr>] = Ok [''priority=0,table=0,idle_timeout=0,actions=drop'']"
    "Flow_MarshalText zero_Flow = Err (FlowError [] ErrNoActions)"
    by code_simp+
  note late = AddFlowBundle_late_error [OF this, of "New (\<lambda>_ _ n. ((None, None), n)) (\<lambda>s _ _ n. ((None, None), n @ [s])) []" "''br0''" "[]"]
  show ?thesis
    unfolding late by (simp add: ofctl_pipe_def Client_pipe_def command_line_def New_def bundle_args_def bundle_text_def dirAdd_def)
qed

section \<open>Lines of output\<close>

lemma line_text_trim: "line_text l \<Longrightarrow> TrimSuffix l [CHR 0x0D] = l"
  by (rule TrimSuffix_id) (auto simp: line_text_def graphic_def)

lemma scan_lines_Join:
  assumes "ls \<noteq> []" "list_all line_text ls"
  shows "scan_lines (Join ls [CHR 0x0A]) = (ls, None)"
proof -
  have sp: "Split (Join ls [CHR 0x0A]) [CHR 0x0A] = ls"
    using assms by (intro Split_Join) (auto simp: list_all_iff line_text_notin)
  have l: "last ls \<noteq> []" using assms by (auto simp: list_all_iff line_text_def)
  have f: "\<forall>l \<in> set ls. length l < 65536 \<and> TrimSuffix l [CHR 0x0D] = l"
    using assms(2) line_text_trim by (auto simp: list_all_iff line_text_def)
  then have tw: "takeWhile (\<lambda>l. length l < 65536) ls = ls" by (simp add: takeWhile_eq_all_conv)
  have "map (\<lambda>l. TrimSuffix l [CHR 0x0D]) ls = ls" using f by (simp add: map_idI)
  moreover have "list_all (\<lambda>l. length l < 65536) ls" using f by (simp add: list_all_iff)
  ultimately show ?thesis by (simp add: scan_lines_def raw_lines_def sp l tw Let_def)
qed

text \<open>What a loop collects: everything up to the first line that fails.\<close>

lemma line_loop_all:
  "list_all2 (\<lambda>l xs. fn l = Ok xs) ls xss \<Longrightarrow> line_loop fn ls None = (concat xss, Ok ())"
  by (induction ls xss rule: list_all2_induct) (auto simp: scan_end_def call_then_def)

lemma line_loop_fails:
  "list_all2 (\<lambda>l xs. fn l = Ok xs) ls xss \<Longrightarrow> fn l = Err e \<Longrightarrow>
   line_loop fn (ls @ l # rest) err = (concat xss, Err e)"
  by (induction ls xss rule: list_all2_induct) (auto simp: call_then_def)

text \<open>Records of two lines, or of three when the header announces durations.\<close>

fun record_lines :: "bool \<Rightarrow> string \<times> string \<times> string \<Rightarrow> string list" where
  "record_lines hasDuration (a, b, d) = (if hasDuration then [a, b, d] else [a, b])"

lemma pair_loop_all:
  "list_all2 (\<lambda>(a, b, d) xs. fn (a @ b) = Ok xs) rs xss \<Longrightarrow>
   pair_loop dur fn (concat (map (record_lines dur) rs)) None = (concat xss, Ok ())"
  by (induction rs xss rule: list_all2_induct) (auto simp: scan_end_def call_then_def)

lemma pair_loop_truncated:
  "list_all2 (\<lambda>(a, b, d) xs. fn (a @ b) = Ok xs) rs xss \<Longrightarrow>
   pair_loop dur fn (concat (map (record_lines dur) rs) @ [l]) err = (concat xss, Err ErrUnexpectedEOF)"
  by (induction rs xss rule: list_all2_induct) (auto simp: call_then_def)

lemma pair_loop_no_third:
  "list_all2 (\<lambda>(a, b, d) xs. fn (a @ b) = Ok xs) rs xss \<Longrightarrow>
   pair_loop True fn (concat (map (record_lines True) rs) @ [l, l']) err = (concat xss, Err ErrUnexpectedEOF)"
  by (induction rs xss rule: list_all2_induct) (auto simp: call_then_def)

lemma header_line:
  assumes "HasPrefix h pre" "pre \<noteq> []" "list_all graphic (take 1 pre)"
  shows "graphic (hd h)"
  using assms by (cases pre) (auto simp: HasPrefix_iff)

lemma dumpPrefix_defs:
  "dumpPortsPrefix \<noteq> []" "list_all graphic (take 1 dumpPortsPrefix)"
  "dumpTablesPrefix \<noteq> []" "list_all graphic (take 1 dumpTablesPrefix)"
  "dumpFlowsPrefix \<noteq> []" "list_all graphic (take 1 dumpFlowsPrefix)"
  by (simp_all add: dumpPortsPrefix_def dumpTablesPrefix_def dumpFlowsPrefix_def graphic_def)


section \<open>Properties of the dumps\<close>

lemma flow_text_line:
  assumes "wf_flow f" "Flow_MarshalText f = Ok t" "length t < 65536"
  shows "line_text t" "\<not> HasPrefix t dumpFlowsPrefix"
proof -
  obtain u where u: "t = priorityString @ u" using flow_text_graphic(2) [OF assms(1,2)] by (auto simp: HasPrefix_iff)
  then have "t \<noteq> []" by (simp add: priorityString_def)
  then show "line_text t"
    using flow_text_graphic(1) [OF assms(1,2)] assms(3) by (auto simp: line_text_def list_all_iff)
  show "\<not> HasPrefix t dumpFlowsPrefix" by (simp add: u priorityString_def dumpFlowsPrefix_def)
qed

text \<open>
  C7: flows survive a dump. If the program prints its banner and then, one per line, the texts of
  well-formed flows (none longer than the scanner's buffer, none mentioning \<^verbatim>\<open>actions=\<close> inside its
  actions), \<^verbatim>\<open>DumpFlows\<close> returns these flows in order, with their matches in normal form.
\<close>

theorem DumpFlows_round_trip:
  assumes "fst (exec_program c ''ovs-ofctl'' [''dump-flows'', bridge] w) = (Some (output_lines (banner # ts)), None)"
    "line_text banner" "HasPrefix banner dumpFlowsPrefix"
    "list_all wf_flow fs" "each Flow_MarshalText fs = Ok ts" "list_all (\<lambda>t. length t < 65536) ts"
    "list_all (\<lambda>f. \<forall>as. each Action_MarshalText (f_Actions f) = Ok as \<longrightarrow>
        \<not> Contains (Join as '','') (keyActions @ ''='')) fs"
  shows "fst (DumpFlows c bridge w) = (map normalize_flow fs, Ok ())"
proof -
  have l2: "list_all2 (\<lambda>f t. Flow_MarshalText f = Ok t) fs ts" using assms(5) by (simp add: each_Ok_iff)
  have "list_all2 (\<lambda>t xs. line_text t \<and> flow_entry t = Ok xs) ts (map (\<lambda>f. [normalize_flow f]) fs)"
    using l2 assms(4,6,7)
  proof (induction fs ts rule: list_all2_induct)
    case (Cons f fs t ts)
    from flow_text_line [of f t] Flow_round_trip_aux [of f t] Cons
    show ?case by (auto simp: flow_entry_def Contains_def)
  qed simp
  then have ok: "list_all2 (\<lambda>t xs. flow_entry t = Ok xs) ts (map (\<lambda>f. [normalize_flow f]) fs)"
    and lt: "list_all line_text ts"
    by (auto simp: list_all2_conv_all_nth list_all_length)
  have "graphic (hd (hd (banner # ts)))"
    using header_line [OF assms(3)] dumpPrefix_defs by simp
  then have o: "fst (ofctl_exec c [''dump-flows'', bridge] w) = Ok (Join (banner # ts) [CHR 0x0A])"
    using assms(2) lt unfolding ofctl_exec_def by (intro Client_exec_lines [OF assms(1)]) auto
  have "scan_lines (Join (banner # ts) [CHR 0x0A]) = (banner # ts, None)"
    using assms(2) lt by (intro scan_lines_Join) auto
  then have "parseEachLine (Join (banner # ts) [CHR 0x0A]) dumpFlowsPrefix flow_entry = (map normalize_flow fs, Ok ())"
    using line_loop_all [OF ok] assms(3) by (simp add: parseEachLine_def concat_map_singleton del: Join.simps)
  then show ?thesis by (simp add: DumpFlows_def collected_output_def o del: Join.simps)
qed

text \<open>
  C33: the records of a port or table dump. After the banner, every two lines are one record, or
  every three when the banner names OpenFlow 1.x, the third being ignored. If the lines end inside a
  record, after its first line or, where there is a third, after its second, the parser fails with an unexpected end of
  input, beside the records read before.
\<close>

theorem parseEach_records:
  assumes "list_all line_text (banner # concat (map (record_lines dur) rs))" "HasPrefix banner pre"
    "dur \<longleftrightarrow> Contains banner ''(OF1.''" "list_all2 (\<lambda>(a, b, d) xs. fn (a @ b) = Ok xs) rs xss" "line_text l" "line_text l'"
  shows "parseEach (Join (banner # concat (map (record_lines dur) rs)) [CHR 0x0A]) pre fn = (concat xss, Ok ()) \<and>
    parseEach (Join (banner # concat (map (record_lines dur) rs) @ [l]) [CHR 0x0A]) pre fn =
      (concat xss, Err ErrUnexpectedEOF) \<and>
    (dur \<longrightarrow> parseEach (Join (banner # concat (map (record_lines dur) rs) @ [l, l']) [CHR 0x0A]) pre fn =
      (concat xss, Err ErrUnexpectedEOF))"
proof -
  let ?ls = "banner # concat (map (record_lines dur) rs)"
  have 1: "scan_lines (Join ?ls [CHR 0x0A]) = (?ls, None)" using assms(1) by (rule scan_lines_Join [rotated]) simp
  have 2: "scan_lines (Join (?ls @ [l]) [CHR 0x0A]) = (?ls @ [l], None)"
    using assms(1,5) by (intro scan_lines_Join) auto
  have 3: "scan_lines (Join (?ls @ [l, l']) [CHR 0x0A]) = (?ls @ [l, l'], None)"
    using assms(1,5,6) by (intro scan_lines_Join) auto
  show ?thesis
    using 1 2 3 pair_loop_all [OF assms(4), of dur] pair_loop_truncated [OF assms(4), of dur l] pair_loop_no_third [OF assms(4)]
      assms(2,3)
    by (cases dur) (simp_all add: parseEach_def del: Join.simps)
qed


lemma dump_records:
  assumes "fst (exec_program c ''ovs-ofctl'' args w) =
      (Some (output_lines (banner # concat (map (record_lines (Contains banner ''(OF1.'')) rs))), None)"
    "list_all line_text (banner # concat (map (record_lines (Contains banner ''(OF1.'')) rs))"
    "HasPrefix banner pre" "pre \<noteq> []" "list_all graphic (take 1 pre)"
    "list_all2 (\<lambda>(a, b, d) xs. fn (a @ b) = Ok xs) rs xss"
  shows "fst (collected_output (\<lambda>out. parseEach out pre fn) (ofctl_exec c args w)) = (concat xss, Ok ())"
proof -
  let ?ls = "banner # concat (map (record_lines (Contains banner ''(OF1.'')) rs)"
  have "graphic (hd (hd ?ls))" using header_line [OF assms(3-5)] by simp
  then have o: "fst (ofctl_exec c args w) = Ok (Join ?ls [CHR 0x0A])"
    using assms(2) unfolding ofctl_exec_def by (intro Client_exec_lines [OF assms(1)]) simp_all
  have "scan_lines (Join ?ls [CHR 0x0A]) = (?ls, None)"
    using assms(2) by (rule scan_lines_Join [rotated]) simp
  then show ?thesis
    using pair_loop_all [OF assms(6)] assms(3)
    by (simp add: collected_output_def parseEach_def o del: Join.simps)
qed

definition table_used :: "Table \<Rightarrow> bool" where
  "table_used t \<longleftrightarrow> Active t \<noteq> 0 \<or> Lookup t \<noteq> 0 \<or> Matched t \<noteq> 0"

lemma table_entry_used: "Table_UnmarshalText s = Ok t \<Longrightarrow> table_entry s = Ok (filter table_used [t])"
  by (simp add: table_entry_def table_used_def)

lemma concat_filter: "concat (map (\<lambda>t. filter p [t]) ts) = filter p ts"
  by (induction ts) auto

text \<open>
  \<^verbatim>\<open>DumpTables\<close> filters the unused tables and only them. When every record of the dump is a
  table, the tables with active entries, lookups or matches are returned in order, the others are
  left out.
\<close>

theorem DumpTables_filters:
  assumes "fst (exec_program c ''ovs-ofctl'' [''dump-tables'', bridge] w) =
      (Some (output_lines (banner # concat (map (record_lines (Contains banner ''(OF1.'')) rs))), None)"
    "list_all line_text (banner # concat (map (record_lines (Contains banner ''(OF1.'')) rs))"
    "HasPrefix banner dumpTablesPrefix"
    "list_all2 (\<lambda>(a, b, d) t. Table_UnmarshalText (a @ b) = Ok t) rs tbls"
  shows "fst (DumpTables c bridge w) = (filter table_used tbls, Ok ())"
proof -
  have "list_all2 (\<lambda>(a, b, d) xs. table_entry (a @ b) = Ok xs) rs (map (\<lambda>t. filter table_used [t]) tbls)"
    using assms(4)
    by (induction rs tbls rule: list_all2_induct) (auto simp: table_entry_used simp del: filter.simps)
  from dump_records [OF assms(1-3) dumpPrefix_defs(3,4) this] show ?thesis
    by (simp only: DumpTables_def concat_filter)
qed

definition sample_client :: "string list \<Rightarrow> nat Client" where
  "sample_client ls = New (\<lambda>_ _ n. ((Some (output_lines ls), None), n + 1)) (\<lambda>_ _ _ n. ((None, None), n + 1)) []"

lemma sample_exec: "fst (exec_program (sample_client ls) cmd args w) = (Some (output_lines ls), None)"
  by (simp add: sample_client_def exec_program_def New_def)

theorem DumpTables_filters_witness:
  "fst (DumpTables (sample_client
      [''OFPST_TABLE reply (xid=0x2):'',
       ''  0: classifier: wild=0x3fffff, max=1000000, active=1'', ''               lookup=7, matched=6'',
       ''  1: table1: wild=0x3fffff, max=1000000, active=0'', ''               lookup=0, matched=0'']) ''br0'' 0) =
   ([\<lparr>ID = 0, Name = ''classifier'', Wild = ''0x3fffff'', Max = 1000000, Active = 1, Lookup = 7, Matched = 6\<rparr>], Ok ())"
proof -
  let ?b = "''OFPST_TABLE reply (xid=0x2):''"
  let ?rs = "[(''  0: classifier: wild=0x3fffff, max=1000000, active=1'', ''               lookup=7, matched=6'', []),
      (''  1: table1: wild=0x3fffff, max=1000000, active=0'', ''               lookup=0, matched=0'', [])]"
  let ?t0 = "\<lparr>ID = 0, Name = ''classifier'', Wild = ''0x3fffff'', Max = 1000000, Active = 1, Lookup = 7, Matched = 6\<rparr>"
  let ?t1 = "\<lparr>ID = 1, Name = ''table1'', Wild = ''0x3fffff'', Max = 1000000, Active = 0, Lookup = 0, Matched = 0\<rparr>"
  have b: "\<not> Contains ?b ''(OF1.''" "HasPrefix ?b dumpTablesPrefix" by code_simp+
  have l: "list_all line_text (?b # concat (map (record_lines (Contains ?b ''(OF1.'')) ?rs))"
    by code_simp
  have f: "Fields (''  0: classifier: wild=0x3fffff, max=1000000, active=1'' @ ''               lookup=7, matched=6'') =
      table_words 0 ''classifier'' ''0x3fffff'' 1000000 1 7 6"
    "Fields (''  1: table1: wild=0x3fffff, max=1000000, active=0'' @ ''               lookup=0, matched=0'') =
      table_words 1 ''table1'' ''0x3fffff'' 1000000 0 0 0"
    by code_simp+
  have t: "list_all2 (\<lambda>(a, b, d) t. Table_UnmarshalText (a @ b) = Ok t) ?rs [?t0, ?t1]"
    using f [THEN Table_words_read] by (simp add: int64_def plain_def graphic_def)
  have "fst (DumpTables (sample_client (?b # concat (map (record_lines (Contains ?b ''(OF1.'')) ?rs))) ''br0'' 0) =
      (filter table_used [?t0, ?t1], Ok ())"
    by (rule DumpTables_filters [OF sample_exec l b(2) t])
  then show ?thesis using b(1) by (simp add: table_used_def)
qed

text \<open>
  \<^verbatim>\<open>DumpPort\<close> returns the statistics of a port only if the dump has exactly one record; with none,
  as with several, it fails with the error for multiple values. It runs one command in any case.
\<close>

theorem DumpPort_single:
  assumes "fst (exec_program c ''ovs-ofctl'' (ofctlFlags c @ [''dump-ports'', bridge, port]) w) =
      (Some (output_lines (banner # concat (map (record_lines (Contains banner ''(OF1.'')) rs))), None)"
    "list_all line_text (banner # concat (map (record_lines (Contains banner ''(OF1.'')) rs))"
    "HasPrefix banner dumpPortsPrefix" "port \<noteq> []"
    "list_all2 (\<lambda>(a, b, d) s. PortStats_UnmarshalText (a @ b) = Ok s) rs stats"
  shows "DumpPort c bridge port w =
    (case stats of [s] \<Rightarrow> Ok s | _ \<Rightarrow> Err ErrMultipleValues,
     snd (exec_program c ''ovs-ofctl'' (ofctlFlags c @ [''dump-ports'', bridge, port]) w))"
proof -
  have "list_all2 (\<lambda>(a, b, d) xs. port_entry (a @ b) = Ok xs) rs (map (\<lambda>s. [s]) stats)"
    using assms(5) by (induction rs stats rule: list_all2_induct) (auto simp: port_entry_def)
  from dump_records [OF assms(1-3) dumpPrefix_defs(1,2) this] assms(4)
  have "fst (dumpPorts c bridge port w) = (stats, Ok ())"
    by (simp add: dumpPorts_def concat_map_singleton)
  moreover have "snd (dumpPorts c bridge port w) =
      snd (exec_program c ''ovs-ofctl'' (ofctlFlags c @ [''dump-ports'', bridge, port]) w)"
    using assms(4) client_exec.run_world [of c "''ovs-ofctl''"]
    by (simp add: dumpPorts_def collected_output_def ofctl_exec_def)
  ultimately show ?thesis
    by (cases "dumpPorts c bridge port w")
      (auto simp: DumpPort_def single_value_def split: list.split)
qed

theorem DumpPort_single_witness:
  "DumpPort (sample_client [''OFPST_PORT reply (xid=0x2): 0 ports'']) ''br0'' ''9'' 0 = (Err ErrMultipleValues, 1)"
proof -
  let ?b = "''OFPST_PORT reply (xid=0x2): 0 ports''"
  have b: "HasPrefix ?b dumpPortsPrefix" by code_simp
  have l: "list_all line_text (?b # concat (map (record_lines (Contains ?b ''(OF1.'')) []))" by code_simp
  have "DumpPort (sample_client (?b # concat (map (record_lines (Contains ?b ''(OF1.'')) []))) ''br0'' ''9'' 0 =
      (case [] of [s] \<Rightarrow> Ok s | _ \<Rightarrow> Err ErrMultipleValues,
       snd (exec_program (sample_client (?b # concat (map (record_lines (Contains ?b ''(OF1.'')) []))) ''ovs-ofctl''
         (ofctlFlags (sample_client (?b # concat (map (record_lines (Contains ?b ''(OF1.'')) []))) @ [''dump-ports'', ''br0'', ''9'']) 0))"
    by (rule DumpPort_single [OF sample_exec l b]) simp_all
  then show ?thesis by (simp add: sample_client_def exec_program_def New_def)
qed

theorem DumpFlows_round_trip_witness:
  "fst (DumpFlows (sample_client [''NXST_FLOW reply (xid=0x4):'',
      ''priority=100,tcp,in_port=LOCAL,nw_src=10.0.0.0/8,tp_dst=80,table=3,idle_timeout=0,cookie=0x000000000000dead,actions=mod_vlan_vid:10,resubmit(,25)'']) ''br0'' 0) =
   ([sample_flow], Ok ())"
proof -
  let ?b = "''NXST_FLOW reply (xid=0x4):''"
  let ?t = "''priority=100,tcp,in_port=LOCAL,nw_src=10.0.0.0/8,tp_dst=80,table=3,idle_timeout=0,cookie=0x000000000000dead,actions=mod_vlan_vid:10,resubmit(,25)''"
  have b: "line_text ?b" "HasPrefix ?b dumpFlowsPrefix" by code_simp+
  have w: "list_all wf_flow [sample_flow]"
    by (simp add: wf_flow_def sample_flow_def int64_def PortLOCAL_def plain_def graphic_def
        match_constructors action_constructors)
  have t: "each Flow_MarshalText [sample_flow] = Ok [?t]" by code_simp
  have n: "list_all (\<lambda>t. length t < 65536) [?t]" by simp
  have "each Action_MarshalText (f_Actions sample_flow) = Ok [''mod_vlan_vid:10'', ''resubmit(,25)'']"
    "\<not> Contains (Join [''mod_vlan_vid:10'', ''resubmit(,25)''] '','') (keyActions @ ''='')"
    by code_simp+
  then have a: "list_all (\<lambda>f. \<forall>as. each Action_MarshalText (f_Actions f) = Ok as \<longrightarrow>
        \<not> Contains (Join as '','') (keyActions @ ''='')) [sample_flow]" by simp
  have "map normalize_flow [sample_flow] = [sample_flow]" by code_simp
  then show ?thesis
    using DumpFlows_round_trip [OF sample_exec b w t n a, where bridge = "''br0''" and w = 0] by simp
qed

theorem parseEach_records_witness:
  "parseEach (Join [''OFPST_PORT reply (OF1.4) (xid=0x2):'', ''a'', ''b'', ''c'', ''d''] [CHR 0x0A]) dumpPortsPrefix
     (\<lambda>s. Ok [s]) = ([''ab''], Err ErrUnexpectedEOF) \<and>
   parseEach (Join [''OFPST_PORT reply (OF1.4) (xid=0x2):'', ''a'', ''b'', ''c'', ''d'', ''e''] [CHR 0x0A]) dumpPortsPrefix
     (\<lambda>s. Ok [s]) = ([''ab''], Err ErrUnexpectedEOF)"
proof -
  let ?b = "''OFPST_PORT reply (OF1.4) (xid=0x2):''"
  have "list_all line_text (?b # concat (map (record_lines True) [(''a'', ''b'', ''c'')]))"
    "HasPrefix ?b dumpPortsPrefix" "True \<longleftrightarrow> Contains ?b ''(OF1.''" "line_text ''d''" "line_text ''e''" by code_simp+
  from parseEach_records [OF this(1-3) _ this(4,5), of "\<lambda>s. Ok [s]" "[[''ab'']]"] show ?thesis by simp
qed

definition add_flow_args :: "'w Client \<Rightarrow> string \<Rightarrow> string \<Rightarrow> string list" where
  "add_flow_args c bridge t = [''add-flow''] @ ofctlFlags c @ [bridge, t]"

text \<open>
  Adding and deleting flows runs one command or none. \<^verbatim>\<open>AddFlow\<close> and \<^verbatim>\<open>DelFlows\<close> call the program
  exactly once, with the marshaled flow as its last argument, when the flow marshals; otherwise they
  do not call it and return the error. They succeed exactly when the program does.
\<close>

theorem flow_commands_run_once:
  "(\<forall>t. Flow_MarshalText f = Ok t \<longrightarrow>
      snd (AddFlow c bridge f w) = snd (exec_program c ''ovs-ofctl'' (add_flow_args c bridge t) w) \<and>
      (is_ok (fst (AddFlow c bridge f w)) \<longleftrightarrow>
         snd (fst (exec_program c ''ovs-ofctl'' (add_flow_args c bridge t) w)) = None)) \<and>
   (\<forall>e. Flow_MarshalText f = Err e \<longrightarrow> AddFlow c bridge f w = (Err e, w)) \<and>
   (\<forall>t. MatchFlow_MarshalText m = Ok t \<longrightarrow>
      snd (DelFlows c bridge (Some m) w) = snd (exec_program c ''ovs-ofctl'' [''del-flows'', bridge, t] w) \<and>
      (is_ok (fst (DelFlows c bridge (Some m) w)) \<longleftrightarrow>
         snd (fst (exec_program c ''ovs-ofctl'' [''del-flows'', bridge, t] w)) = None)) \<and>
   (\<forall>e. MatchFlow_MarshalText m = Err e \<longrightarrow> DelFlows c bridge (Some m) w = (Err e, w))"
  by (simp add: AddFlow_def DelFlows_def add_flow_args_def no_output_def ofctl_exec_def
      client_exec.run_world client_exec.run_ok [unfolded is_ok_iff] is_ok_and_then is_ok_iff)

theorem flow_commands_run_once_witness:
  "AddFlow (sample_client []) ''br0'' zero_Flow 0 = (Err (FlowError [] ErrNoActions), 0) \<and>
   snd (AddFlow (sample_client []) ''br0'' (zero_Flow\<lparr>f_Actions := [Drop]\<rparr>) 0) = 1"
proof -
  have m: "Flow_MarshalText zero_Flow = Err (FlowError [] ErrNoActions)"
    "Flow_MarshalText (zero_Flow\<lparr>f_Actions := [Drop]\<rparr>) = Ok ''priority=0,table=0,idle_timeout=0,actions=drop''"
    by code_simp+
  note once = flow_commands_run_once [where c = "sample_client []" and bridge = "''br0''" and w = 0]
  have "snd (AddFlow (sample_client []) ''br0'' (zero_Flow\<lparr>f_Actions := [Drop]\<rparr>) 0) = 1"
    using once [of "zero_Flow\<lparr>f_Actions := [Drop]\<rparr>"] m(2)
    by (simp add: exec_program_def sample_client_def New_def)
  then show ?thesis using once [of zero_Flow] m(1) by simp
qed

end
