(* ===== verification/Go_Json.thy ===== *)
theory Go_Json
  imports Go_Net
begin

text \<open>
  What the code uses of \<^verbatim>\<open>encoding/json\<close>: the grammar, with strings decoded to bytes, and the
  printed form with the escapes of the Go encoder. The parser is a lexer followed by an automaton
  with a stack of open arrays and objects, as the scanner of the Go package; it also records the
  text of every member of a top-level object, which \<^verbatim>\<open>json.RawMessage\<close> fields receive.
\<close>

section \<open>Values\<close>

datatype json =
    JNull
  | JBool bool
  | JNum string
  | JStr string
  | JArr "json list"
  | JObj "(string \<times> json) list"

section \<open>The lexer\<close>

definition jspace :: "char \<Rightarrow> bool" where
  "jspace c \<longleftrightarrow> c \<in> {CHR '' '', CHR 0x09, CHR 0x0A, CHR 0x0D}"

definition jdigit :: "char \<Rightarrow> bool" where
  "jdigit c \<longleftrightarrow> 0x30 \<le> (of_char c :: nat) \<and> (of_char c :: nat) \<le> 0x39"

text \<open>\<^verbatim>\<open>utf8.EncodeRune\<close>, on valid code points.\<close>

definition utf8 :: "nat \<Rightarrow> string" where
  "utf8 n =
     (if n < 0x80 then [char_of n]
      else if n < 0x800 then [char_of (0xC0 + n div 64), char_of (0x80 + n mod 64)]
      else if n < 0x10000 then
        [char_of (0xE0 + n div 4096), char_of (0x80 + n div 64 mod 64), char_of (0x80 + n mod 64)]
      else
        [char_of (0xF0 + n div 262144), char_of (0x80 + n div 4096 mod 64),
         char_of (0x80 + n div 64 mod 64), char_of (0x80 + n mod 64)])"

fun hex4 :: "string \<Rightarrow> (nat \<times> string) option" where
  "hex4 (a # b # c # d # s) =
     (case (hex_val a, hex_val b, hex_val c, hex_val d) of
        (Some w, Some x, Some y, Some z) \<Rightarrow> Some (((w * 16 + x) * 16 + y) * 16 + z, s)
      | _ \<Rightarrow> None)"
| "hex4 _ = None"

text \<open>A surrogate stands for a rune only with its other half behind it.\<close>

definition high_surrogate :: "nat \<Rightarrow> bool" where
  "high_surrogate n \<longleftrightarrow> 0xD800 \<le> n \<and> n < 0xDC00"

definition low_surrogate :: "nat \<Rightarrow> bool" where
  "low_surrogate n \<longleftrightarrow> 0xDC00 \<le> n \<and> n < 0xE000"

definition lex_unicode :: "nat \<Rightarrow> string \<Rightarrow> string \<times> string" where
  "lex_unicode n s =
     (if high_surrogate n \<or> low_surrogate n then
        case (if HasPrefix s [CHR 0x5C, CHR ''u''] then hex4 (drop 2 s) else None) of
          Some (m, t) \<Rightarrow>
            if high_surrogate n \<and> low_surrogate m
            then (utf8 (0x10000 + (n - 0xD800) * 0x400 + (m - 0xDC00)), t)
            else (RuneError, s)
        | None \<Rightarrow> (RuneError, s)
      else (utf8 n, s))"

fun lex_escape :: "string \<Rightarrow> (string \<times> string) option" where
  "lex_escape [] = None"
| "lex_escape (e # s) =
     (if e = CHR 0x22 \<or> e = CHR 0x5C \<or> e = CHR ''/'' then Some ([e], s)
      else if e = CHR ''b'' then Some ([CHR 0x08], s)
      else if e = CHR ''f'' then Some ([CHR 0x0C], s)
      else if e = CHR ''n'' then Some ([CHR 0x0A], s)
      else if e = CHR ''r'' then Some ([CHR 0x0D], s)
      else if e = CHR ''t'' then Some ([CHR 0x09], s)
      else if e = CHR ''u'' then map_option (\<lambda>(n, t). lex_unicode n t) (hex4 s)
      else None)"

lemma hex4_length: "hex4 s = Some (n, t) \<Longrightarrow> length t < length s"
  by (induction s rule: hex4.induct) (auto split: option.splits)

lemma lex_unicode_length: "lex_unicode n s = (bs, t) \<Longrightarrow> length t \<le> length s"
  by (auto simp: lex_unicode_def dest!: hex4_length split: if_splits option.splits)

lemma lex_escape_length: "lex_escape s = Some (bs, t) \<Longrightarrow> length t < length s"
  by (cases s) (auto dest!: hex4_length lex_unicode_length split: if_splits)

text \<open>The contents of a string, after its opening quote.\<close>

definition prepend :: "string \<Rightarrow> (string \<times> string) option \<Rightarrow> (string \<times> string) option" where
  "prepend bs r = map_option (\<lambda>(cs, s). (bs @ cs, s)) r"

function lex_string :: "string \<Rightarrow> (string \<times> string) option" where
  "lex_string s =
     (case s of
        [] \<Rightarrow> None
      | c # t \<Rightarrow>
          if c = CHR 0x22 then Some ([], t)
          else if c = CHR 0x5C then
            (case lex_escape t of None \<Rightarrow> None | Some (bs, u) \<Rightarrow> prepend bs (lex_string u))
          else if (of_char c :: nat) < 0x20 then None
          else if rune_width s = 0 then prepend RuneError (lex_string t)
          else prepend (take (rune_width s) s) (lex_string (drop (rune_width s) s)))"
  by pat_completeness auto
termination
  by (relation "measure length") (auto dest: lex_escape_length)

declare lex_string.simps [simp del]

lemma lex_string_length: "lex_string s = Some (bs, t) \<Longrightarrow> length t < length s"
proof (induction s arbitrary: bs rule: lex_string.induct)
  case (1 s)
  show ?case
  proof (cases s)
    case (Cons c u)
    from 1(4) show ?thesis
      using 1(1-3) Cons
      by (subst (asm) lex_string.simps)
        (fastforce simp: prepend_def dest: lex_escape_length split: if_splits option.splits)
  qed (use 1(4) in \<open>simp add: lex_string.simps\<close>)
qed

text \<open>A number is kept as its text; these return what follows it.\<close>

definition starts_digit :: "string \<Rightarrow> bool" where
  "starts_digit s \<longleftrightarrow> s \<noteq> [] \<and> jdigit (hd s)"

definition drop_sign :: "string \<Rightarrow> string" where
  "drop_sign s = (if HasPrefix s ''+'' \<or> HasPrefix s ''-'' then drop 1 s else s)"

definition lex_exponent :: "string \<Rightarrow> string option" where
  "lex_exponent s =
     (if HasPrefix s ''e'' \<or> HasPrefix s ''E'' then
        let u = drop_sign (drop 1 s) in
        if starts_digit u then Some (dropWhile jdigit u) else None
      else Some s)"

definition lex_fraction :: "string \<Rightarrow> string option" where
  "lex_fraction s =
     (if HasPrefix s ''.'' then
        if starts_digit (drop 1 s) then lex_exponent (dropWhile jdigit (drop 1 s)) else None
      else lex_exponent s)"

definition lex_number :: "string \<Rightarrow> string option" where
  "lex_number s =
     (let t = (if HasPrefix s ''-'' then drop 1 s else s) in
      if HasPrefix t ''0'' then lex_fraction (drop 1 t)
      else if starts_digit t then lex_fraction (dropWhile jdigit t)
      else None)"

datatype jtoken = TLBrace | TRBrace | TLBrack | TRBrack | TColon | TComma
  | TNull | TTrue | TFalse | TNum string | TStr string

definition lex_punctuation :: "(char \<times> jtoken) list" where
  "lex_punctuation =
     [(CHR 0x7B, TLBrace), (CHR 0x7D, TRBrace), (CHR ''['', TLBrack), (CHR '']'', TRBrack),
      (CHR '':'', TColon), (CHR '','', TComma)]"

definition lex_token :: "string \<Rightarrow> (jtoken \<times> string) option" where
  "lex_token s =
     (case s of
        [] \<Rightarrow> None
      | c # t \<Rightarrow>
          case map_of lex_punctuation c of
            Some tok \<Rightarrow> Some (tok, t)
          | None \<Rightarrow>
              if c = CHR 0x22 then map_option (\<lambda>(bs, u). (TStr bs, u)) (lex_string t)
              else if HasPrefix s ''null'' then Some (TNull, drop 4 s)
              else if HasPrefix s ''true'' then Some (TTrue, drop 4 s)
              else if HasPrefix s ''false'' then Some (TFalse, drop 5 s)
              else map_option (\<lambda>u. (TNum (take (length s - length u) s), u)) (lex_number s))"

lemma lex_exponent_length: "lex_exponent s = Some t \<Longrightarrow> length t \<le> length s"
  by (auto simp: lex_exponent_def drop_sign_def Let_def split: if_splits intro: le_trans [OF length_dropWhile_le])

lemma lex_fraction_length: "lex_fraction s = Some t \<Longrightarrow> length t \<le> length s"
  using length_dropWhile_le [of jdigit "drop 1 s"]
  by (auto simp: lex_fraction_def dest!: lex_exponent_length split: if_splits)

lemma length_drop_digits: "starts_digit s \<Longrightarrow> length (dropWhile jdigit s) < length s"
  by (cases s) (auto simp: starts_digit_def le_imp_less_Suc length_dropWhile_le)

lemma lex_number_length: "lex_number s = Some t \<Longrightarrow> length t < length s"
proof -
  assume n: "lex_number s = Some t"
  let ?t = "if HasPrefix s ''-'' then drop 1 s else s"
  have "length t < length ?t"
  proof (cases "HasPrefix ?t ''0''")
    case True
    then have "lex_fraction (drop 1 ?t) = Some t" "?t \<noteq> []" using n by (auto simp: lex_number_def Let_def)
    then show ?thesis using lex_fraction_length [of "drop 1 ?t" t] by (cases ?t) auto
  next
    case False
    then have "lex_fraction (dropWhile jdigit ?t) = Some t" "starts_digit ?t"
      using n by (auto simp: lex_number_def Let_def split: if_splits)
    then show ?thesis using lex_fraction_length [of "dropWhile jdigit ?t" t] length_drop_digits [of ?t] by simp
  qed
  then show ?thesis by (auto split: if_splits)
qed

lemma lex_token_length: "lex_token s = Some (tok, t) \<Longrightarrow> length t < length s"
  by (auto simp: lex_token_def HasPrefix_iff dest!: lex_string_length lex_number_length
      split: list.splits option.splits if_splits)


text \<open>
  All tokens of a text, each with the white space before it and its own text.
\<close>

function lex :: "string \<Rightarrow> (string \<times> string \<times> jtoken) list option" where
  "lex s =
     (let t = dropWhile jspace s in
      if t = [] then Some []
      else case lex_token t of
        None \<Rightarrow> None
      | Some (tok, rest) \<Rightarrow>
          map_option (\<lambda>ts. (takeWhile jspace s, take (length t - length rest) t, tok) # ts) (lex rest))"
  by pat_completeness auto
termination
  by (relation "measure length")
    (auto dest!: lex_token_length intro: less_le_trans [OF _ length_dropWhile_le])

declare lex.simps [simp del]

section \<open>The parser\<close>

text \<open>
  An open array or object holds its text so far and its elements; an object also the key whose
  value is awaited, and with every member the text of its value.
\<close>

type_synonym jmembers = "(string \<times> string \<times> json) list"

datatype jframe = ArrF string "json list" | ObjF string jmembers string

datatype jmode = MValue | MFirst | MKeyFirst | MKey | MColon | MAfter | MDone string json jmembers

fun add_raw :: "string \<Rightarrow> jframe list \<Rightarrow> jframe list" where
  "add_raw x [] = []"
| "add_raw x (ArrF r vs # st) = ArrF (r @ x) vs # st"
| "add_raw x (ObjF r ms k # st) = ObjF (r @ x) ms k # st"

text \<open>A value is complete: it goes to the innermost open container.\<close>

fun complete :: "jframe list \<Rightarrow> string \<Rightarrow> json \<Rightarrow> jmembers \<Rightarrow> jframe list \<times> jmode" where
  "complete [] raw v ms = ([], MDone raw v ms)"
| "complete (ArrF r vs # st) raw v _ = (ArrF (r @ raw) (vs @ [v]) # st, MAfter)"
| "complete (ObjF r ms k # st) raw v _ = (ObjF (r @ raw) (ms @ [(k, raw, v)]) [] # st, MAfter)"

definition plain_members :: "jmembers \<Rightarrow> (string \<times> json) list" where
  "plain_members ms = map (\<lambda>(k, _, v). (k, v)) ms"

fun close_array :: "jframe list \<Rightarrow> string \<Rightarrow> (jframe list \<times> jmode) option" where
  "close_array (ArrF r vs # st) raw = Some (complete st (r @ raw) (JArr vs) [])"
| "close_array _ raw = None"

fun close_object :: "jframe list \<Rightarrow> string \<Rightarrow> (jframe list \<times> jmode) option" where
  "close_object (ObjF r ms k # st) raw = Some (complete st (r @ raw) (JObj (plain_members ms)) ms)"
| "close_object _ raw = None"

fun begin_value :: "jframe list \<Rightarrow> string \<Rightarrow> jtoken \<Rightarrow> (jframe list \<times> jmode) option" where
  "begin_value st raw TNull = Some (complete st raw JNull [])"
| "begin_value st raw TTrue = Some (complete st raw (JBool True) [])"
| "begin_value st raw TFalse = Some (complete st raw (JBool False) [])"
| "begin_value st raw (TNum n) = Some (complete st raw (JNum n) [])"
| "begin_value st raw (TStr s) = Some (complete st raw (JStr s) [])"
| "begin_value st raw TLBrack = Some (ArrF raw [] # st, MFirst)"
| "begin_value st raw TLBrace = Some (ObjF raw [] [] # st, MKeyFirst)"
| "begin_value st raw _ = None"

fun begin_key :: "jframe list \<Rightarrow> string \<Rightarrow> jtoken \<Rightarrow> (jframe list \<times> jmode) option" where
  "begin_key (ObjF r ms _ # st) raw (TStr k) = Some (ObjF (r @ raw) ms k # st, MColon)"
| "begin_key _ _ _ = None"

fun after_comma :: "jframe list \<Rightarrow> jmode" where
  "after_comma (ObjF r ms k # st) = MKey"
| "after_comma _ = MValue"

definition jstep :: "jframe list \<times> jmode \<Rightarrow> string \<times> string \<times> jtoken \<Rightarrow> (jframe list \<times> jmode) option" where
  "jstep = (\<lambda>(st0, mode) (ws, raw, tok).
     let st = add_raw ws st0 in
     case mode of
       MValue \<Rightarrow> begin_value st raw tok
     | MFirst \<Rightarrow> if tok = TRBrack then close_array st raw else begin_value st raw tok
     | MKeyFirst \<Rightarrow> if tok = TRBrace then close_object st raw else begin_key st raw tok
     | MKey \<Rightarrow> begin_key st raw tok
     | MColon \<Rightarrow> if tok = TColon then Some (add_raw raw st, MValue) else None
     | MAfter \<Rightarrow>
         if tok = TComma then Some (add_raw raw st, after_comma st)
         else if tok = TRBrack then close_array st raw
         else if tok = TRBrace then close_object st raw
         else None
     | MDone _ _ _ \<Rightarrow> None)"

fun jrun :: "jframe list \<times> jmode \<Rightarrow> (string \<times> string \<times> jtoken) list \<Rightarrow> (jframe list \<times> jmode) option" where
  "jrun q [] = Some q"
| "jrun q (t # ts) = Option.bind (jstep q t) (\<lambda>q'. jrun q' ts)"

text \<open>
  The value of a text, with its own text without the white space around it, and the members of
  a top-level object with their texts.
\<close>

definition json_parse :: "string \<Rightarrow> (string \<times> json \<times> jmembers) option" where
  "json_parse s =
     (case Option.bind (lex s) (jrun ([], MValue)) of
        Some ([], MDone raw v ms) \<Rightarrow> Some (raw, v, ms)
      | _ \<Rightarrow> None)"

section \<open>Printing\<close>

definition hex2 :: "nat \<Rightarrow> string" where
  "hex2 n = [digit_char (n div 16), digit_char (n mod 16)]"

text \<open>One rune as the encoder writes it, HTML characters and U+2028/U+2029 escaped.\<close>

definition encode_rune :: "nat \<times> string \<Rightarrow> string" where
  "encode_rune r =
     (let bs = snd r; c = hd bs; n = (of_char c :: nat) in
      if n < 0x80 then
        if c = CHR 0x22 \<or> c = CHR 0x5C then [CHR 0x5C, c]
        else if c = CHR 0x0A then [CHR 0x5C, CHR ''n'']
        else if c = CHR 0x0D then [CHR 0x5C, CHR ''r'']
        else if c = CHR 0x09 then [CHR 0x5C, CHR ''t'']
        else if n < 0x20 \<or> c \<in> {CHR ''<'', CHR ''>'', CHR ''&''} then [CHR 0x5C] @ ''u00'' @ hex2 n
        else [c]
      else if r = (1, RuneError) then [CHR 0x5C] @ ''ufffd''
      else if bs = [CHR 0xE2, CHR 0x80, CHR 0xA8] then [CHR 0x5C] @ ''u2028''
      else if bs = [CHR 0xE2, CHR 0x80, CHR 0xA9] then [CHR 0x5C] @ ''u2029''
      else bs)"

definition encode_string :: "string \<Rightarrow> string" where
  "encode_string s = [CHR 0x22] @ concat (map encode_rune (runes s)) @ [CHR 0x22]"

fun json_text :: "json \<Rightarrow> string" where
  "json_text JNull = ''null''"
| "json_text (JBool b) = (if b then ''true'' else ''false'')"
| "json_text (JNum n) = n"
| "json_text (JStr s) = encode_string s"
| "json_text (JArr vs) = ''['' @ Join (map json_text vs) '','' @ '']''"
| "json_text (JObj kvs) =
     [CHR 0x7B] @ Join (map (\<lambda>(k, v). encode_string k @ '':'' @ json_text v) kvs) '','' @ [CHR 0x7D]"

section \<open>Decoding into a slice of strings\<close>

text \<open>
  \<^verbatim>\<open>json.Unmarshal(data, &ss)\<close> for an empty \<^verbatim>\<open>[]string\<close>: \<^verbatim>\<open>null\<close> leaves a nil slice, a \<^verbatim>\<open>null\<close>
  element an empty string; an element or value of another type is an error, reported after the
  whole value is read.
\<close>

fun json_string_element :: "json \<Rightarrow> string result" where
  "json_string_element (JStr s) = Ok s"
| "json_string_element JNull = Ok []"
| "json_string_element _ = Err ErrJSONType"

fun json_to_strings :: "json \<Rightarrow> string list result" where
  "json_to_strings JNull = Ok []"
| "json_to_strings (JArr vs) = each json_string_element vs"
| "json_to_strings _ = Err ErrJSONType"

definition Unmarshal_strings :: "string \<Rightarrow> string list result" where
  "Unmarshal_strings data =
     (case json_parse data of
        None \<Rightarrow> Err ErrJSONSyntax
      | Some (_, v, _) \<Rightarrow> json_to_strings v)"

section \<open>Strings survive printing and reading\<close>

definition valid_utf8 :: "string \<Rightarrow> string" where
  "valid_utf8 s = concat (map snd (runes s))"

lemma byte_in_take: "i < w \<Longrightarrow> w \<le> length s \<Longrightarrow> byte_in lo hi (take w s @ t) i = byte_in lo hi s i"
  by (simp add: byte_in_def nth_append)

lemma byte_in_length: "byte_in lo hi s i \<Longrightarrow> i < length s"
  by (simp add: byte_in_def)

text \<open>The shapes of the longer encodings.\<close>

definition rune2 :: "string \<Rightarrow> bool" where
  "rune2 s \<longleftrightarrow> byte_in 0xC2 0xDF s 0 \<and> byte_in 0x80 0xBF s 1"

definition rune3 :: "string \<Rightarrow> bool" where
  "rune3 s \<longleftrightarrow> (byte_in 0xE0 0xE0 s 0 \<and> byte_in 0xA0 0xBF s 1 \<or> byte_in 0xE1 0xEC s 0 \<and> byte_in 0x80 0xBF s 1 \<or>
     byte_in 0xED 0xED s 0 \<and> byte_in 0x80 0x9F s 1 \<or> byte_in 0xEE 0xEF s 0 \<and> byte_in 0x80 0xBF s 1) \<and>
     byte_in 0x80 0xBF s 2"

definition rune4 :: "string \<Rightarrow> bool" where
  "rune4 s \<longleftrightarrow> (byte_in 0xF0 0xF0 s 0 \<and> byte_in 0x90 0xBF s 1 \<or> byte_in 0xF1 0xF3 s 0 \<and> byte_in 0x80 0xBF s 1 \<or>
     byte_in 0xF4 0xF4 s 0 \<and> byte_in 0x80 0x8F s 1) \<and> byte_in 0x80 0xBF s 2 \<and> byte_in 0x80 0xBF s 3"

lemma rune_width_shapes:
  "rune_width s =
     (if byte_in 0x00 0x7F s 0 then 1 else if rune2 s then 2 else if rune3 s then 3 else if rune4 s then 4 else 0)"
  unfolding rune_width_def rune2_def rune3_def rune4_def Let_def by (rule refl)

lemma rune_shapes_length: "rune2 s \<Longrightarrow> 2 \<le> length s" "rune3 s \<Longrightarrow> 3 \<le> length s" "rune4 s \<Longrightarrow> 4 \<le> length s"
  by (auto simp: rune2_def rune3_def rune4_def dest!: byte_in_length)

lemma rune_shapes_first:
  "rune2 (c # s) \<or> rune3 (c # s) \<or> rune4 (c # s) \<Longrightarrow> 0xC2 \<le> (of_char c :: nat)"
  by (auto simp: rune2_def rune3_def rune4_def byte_in_def)

lemma rune_width_le: "rune_width s \<le> length s"
  using rune_shapes_length [of s] byte_in_length [of 0 "0x7F" s 0] by (auto simp: rune_width_shapes Suc_le_eq)

lemma rune_width_cong:
  assumes "rune_width s \<noteq> 0" "\<And>lo hi i. i < rune_width s \<Longrightarrow> byte_in lo hi s' i = byte_in lo hi s i"
  shows "rune_width s' = rune_width s"
proof -
  have b: "byte_in 0x00 0x7F s' 0 = byte_in 0x00 0x7F s 0" using assms by simp
  have 2: "rune2 s' = rune2 s" if "1 < rune_width s" using that assms(2) by (simp add: rune2_def)
  have 3: "rune3 s' = rune3 s" if "2 < rune_width s" using that assms(2) by (simp add: rune3_def)
  have 4: "rune4 s' = rune4 s" if "3 < rune_width s" using that assms(2) by (simp add: rune4_def)
  show ?thesis using assms(1) b 2 3 4 by (simp add: rune_width_shapes split: if_split_asm)
qed

lemma rune_width_take:
  assumes "rune_width s \<noteq> 0"
  shows "rune_width (take (rune_width s) s @ t) = rune_width s"
  by (rule rune_width_cong [OF assms]) (rule byte_in_take [OF _ rune_width_le])

lemma rune_width_multi: "rune_width (c # s) \<noteq> 0 \<Longrightarrow> \<not> ascii c \<Longrightarrow> 0xC2 \<le> (of_char c :: nat)"
  by (rule rune_shapes_first [of _ s])
    (simp add: rune_width_shapes byte_in_def ascii_def split: if_split_asm)

lemma lex_string_copy:
  assumes "rune_width s \<noteq> 0" "s = c # u" "c \<noteq> CHR 0x22" "c \<noteq> CHR 0x5C" "\<not> (of_char c :: nat) < 0x20"
  shows "lex_string (take (rune_width s) s @ t) = prepend (take (rune_width s) s) (lex_string t)"
proof -
  obtain v where v: "take (rune_width s) s = c # v" using assms(1,2) by (cases "rune_width s") auto
  have w: "rune_width (c # v @ t) = rune_width s" using rune_width_take [OF assms(1), of t] v by simp
  have l: "length (c # v) = rune_width s" using v rune_width_le [of s] by (metis length_take min.absorb2)
  then have "drop (rune_width s) (c # v @ t) = t" "take (rune_width s) (c # v @ t) = c # v"
    by (metis append_eq_conv_conj append_Cons)+
  then show ?thesis
    unfolding v using assms w by (subst lex_string.simps) simp
qed

lemma hex_val_zero: "hex_val CHR ''0'' = Some 0"
  by (simp add: hex_val_def digit_val_def)

lemma lex_string_escape:
  "lex_escape s = Some (bs, t) \<Longrightarrow> lex_string (CHR 0x5C # s) = prepend bs (lex_string t)"
  by (subst lex_string.simps) (simp del: lex_escape.simps)

lemma lex_string_hex:
  assumes "ascii c"
  shows "lex_string (CHR 0x5C # ''u00'' @ hex2 (of_char c) @ t) = prepend [c] (lex_string t)"
proof -
  have n: "(of_char c :: nat) div 16 < 16" "(of_char c :: nat) mod 16 < 16" using assms by (auto simp: ascii_def)
  have "hex4 (''00'' @ hex2 (of_char c) @ t) = Some (of_char c, t)"
    using n by (simp add: hex2_def hex_val_digit_char hex_val_zero)
  then have "lex_escape (''u00'' @ hex2 (of_char c) @ t) = Some ([c], t)"
    using assms by (simp add: lex_unicode_def utf8_def high_surrogate_def low_surrogate_def ascii_def)
  then show ?thesis by (rule lex_string_escape)
qed

lemma lex_string_u:
  assumes "hex4 h = Some (n, [])" "\<not> high_surrogate n" "\<not> low_surrogate n"
  shows "lex_string (CHR 0x5C # CHR ''u'' # h @ t) = prepend (utf8 n) (lex_string t)"
proof -
  obtain a b c d where h: "h = [a, b, c, d]"
    using assms(1) by (cases h rule: hex4.cases) (auto split: option.splits)
  then have "hex4 (h @ t) = Some (n, t)" using assms(1) by (auto split: option.splits)
  then have "lex_escape (CHR ''u'' # h @ t) = Some (utf8 n, t)"
    using assms by (simp add: lex_unicode_def)
  then show ?thesis by (rule lex_string_escape)
qed

lemma lex_encode_ascii:
  assumes "ascii c"
  shows "lex_string (encode_rune (1, [c]) @ t) = prepend [c] (lex_string t)"
proof -
  have lt: "(of_char c :: nat) < 0x80" using assms by (simp add: ascii_def)
  consider "c = CHR 0x22 \<or> c = CHR 0x5C" | "c = CHR 0x0A" | "c = CHR 0x0D" | "c = CHR 0x09"
    | "(of_char c :: nat) < 0x20 \<or> c \<in> {CHR ''<'', CHR ''>'', CHR ''&''}"
      "c \<noteq> CHR 0x22" "c \<noteq> CHR 0x5C" "c \<noteq> CHR 0x0A" "c \<noteq> CHR 0x0D" "c \<noteq> CHR 0x09"
    | "\<not> (of_char c :: nat) < 0x20" "c \<notin> {CHR ''<'', CHR ''>'', CHR ''&''}"
      "c \<noteq> CHR 0x22" "c \<noteq> CHR 0x5C" "c \<noteq> CHR 0x0A" "c \<noteq> CHR 0x0D" "c \<noteq> CHR 0x09"
    by metis
  then show ?thesis
  proof cases
    case 1
    then have "encode_rune (1, [c]) = [CHR 0x5C, c]" by (auto simp: encode_rune_def)
    moreover have "lex_escape (c # t) = Some ([c], t)" using 1 by auto
    ultimately show ?thesis using lex_string_escape [of "c # t"] by (simp del: lex_escape.simps)
  next
    case 5
    then have "encode_rune (1, [c]) = CHR 0x5C # ''u00'' @ hex2 (of_char c)"
      using lt by (simp add: encode_rune_def Let_def)
    then show ?thesis using lex_string_hex [OF assms, of t] by simp
  next
    case 6
    then have "encode_rune (1, [c]) = [c]" using lt by (simp add: encode_rune_def Let_def)
    then show ?thesis using lex_string_copy [of "[c]" c "[]" t] 6 assms by simp
  qed (simp_all add: encode_rune_def lex_string_escape)
qed

lemma line_separators:
  "hex4 ''2028'' = Some (8232, [])" "\<not> high_surrogate 8232" "\<not> low_surrogate 8232"
  "utf8 8232 = [CHR 0xE2, CHR 0x80, CHR 0xA8]"
  "hex4 ''2029'' = Some (8233, [])" "\<not> high_surrogate 8233" "\<not> low_surrogate 8233"
  "utf8 8233 = [CHR 0xE2, CHR 0x80, CHR 0xA9]"
  by code_simp+

lemma lex_encode_rune:
  assumes "rune_width s \<noteq> 0"
  shows "lex_string (encode_rune (rune_width s, take (rune_width s) s) @ t) =
    prepend (take (rune_width s) s) (lex_string t)"
proof -
  obtain c u where s: "s = c # u" using assms by (cases s) (auto simp: rune_width_def byte_in_def)
  let ?bs = "take (rune_width s) s"
  have hd: "hd ?bs = c" using assms s by (cases "rune_width s") auto
  note copy = lex_string_copy [OF assms s, of t]
  show ?thesis
  proof (cases "ascii c")
    case True
    then have w: "rune_width s = 1" "take 1 s = [c]" by (simp_all add: s)
    show ?thesis unfolding w by (rule lex_encode_ascii [OF True])
  next
    case False
    have ge: "0xC2 \<le> (of_char c :: nat)" using rune_width_multi [OF assms [unfolded s] False] .
    have n1: "(rune_width s, ?bs) \<noteq> (1, RuneError)"
    proof
      assume "(rune_width s, ?bs) = (1, RuneError)"
      then have "length RuneError \<le> 1" by (metis Pair_inject length_take min.cobounded2)
      then show False by (simp add: RuneError_def)
    qed
    have "c \<noteq> CHR 0x22" "c \<noteq> CHR 0x5C" using ge by auto
    then have cp: "lex_string (?bs @ t) = prepend ?bs (lex_string t)" using copy ge by simp
    have "lex_string (CHR 0x5C # CHR ''u'' # ''2028'' @ t) = prepend [CHR 0xE2, CHR 0x80, CHR 0xA8] (lex_string t)"
      "lex_string (CHR 0x5C # CHR ''u'' # ''2029'' @ t) = prepend [CHR 0xE2, CHR 0x80, CHR 0xA9] (lex_string t)"
      using lex_string_u [OF line_separators(1-3), of t] lex_string_u [OF line_separators(5-7), of t]
      by (simp_all only: line_separators)
    then show ?thesis
      using cp ge n1 by (auto simp: encode_rune_def hd Let_def)
  qed
qed

lemma lex_string_invalid:
  "lex_string (encode_rune (1, RuneError) @ t) = prepend RuneError (lex_string t)"
proof -
  have "encode_rune (1, RuneError) = CHR 0x5C # CHR ''u'' # ''fffd''"
    by (simp add: encode_rune_def RuneError_def)
  moreover have "utf8 65533 = RuneError" by code_simp
  ultimately show ?thesis
    using lex_string_u [of "''fffd''" 65533 t]
    by (simp add: hex_val_def digit_val_def high_surrogate_def low_surrogate_def)
qed

lemma lex_string_encoded:
  "lex_string (concat (map encode_rune (runes s)) @ CHR 0x22 # t) = Some (valid_utf8 s, t)"
proof (induction s rule: runes.induct)
  case (1 s)
  show ?case
  proof (cases "s = []")
    case True
    then show ?thesis by (simp add: valid_utf8_def lex_string.simps)
  next
    case False
    show ?thesis
    proof (cases "rune_width s = 0")
      case True
      then have "runes s = (1, RuneError) # runes (drop 1 s)" using False by (subst runes.simps) simp
      then show ?thesis using 1(1) [OF False True] lex_string_invalid by (simp add: valid_utf8_def prepend_def)
    next
      case nz: False
      then have "runes s = (rune_width s, take (rune_width s) s) # runes (drop (rune_width s) s)"
        using False by (subst runes.simps) simp
      then show ?thesis using 1(2) [OF False nz] lex_encode_rune [OF nz] by (simp add: valid_utf8_def prepend_def)
    qed
  qed
qed


section \<open>Values survive printing and reading\<close>

text \<open>Numbers end where the printer puts a delimiter.\<close>

definition delimited :: "string \<Rightarrow> bool" where
  "delimited s \<longleftrightarrow> s = [] \<or> hd s \<in> {CHR '','', CHR '']'', CHR 0x7D, CHR 0x0A}"

lemma delimited_simps [simp]:
  "delimited []" "delimited (CHR '','' # s)" "delimited (CHR '']'' # s)" "delimited (CHR 0x7D # s)"
  "delimited (CHR 0x0A # s)"
  by (simp_all add: delimited_def)

lemma delimited_digits:
  assumes "delimited t"
  shows "starts_digit (s @ t) = starts_digit s" "dropWhile jdigit (s @ t) = dropWhile jdigit s @ t"
proof -
  have "t = [] \<or> \<not> jdigit (hd t)" using assms by (auto simp: delimited_def jdigit_def)
  then show "starts_digit (s @ t) = starts_digit s" "dropWhile jdigit (s @ t) = dropWhile jdigit s @ t"
    by (cases s; cases t; auto simp: starts_digit_def dropWhile_append)+
qed

lemma delimited_prefix: "delimited t \<Longrightarrow> c \<in> set ''.eE+-0'' \<Longrightarrow> HasPrefix (s @ t) [c] = HasPrefix s [c]"
  by (cases s; cases t) (auto simp: delimited_def)

lemma drop_sign_append: "delimited t \<Longrightarrow> drop_sign (s @ t) = drop_sign s @ t"
  using delimited_prefix [of t "CHR ''+''" s] delimited_prefix [of t "CHR ''-''" s]
  by (cases s) (simp_all add: drop_sign_def)

lemma lex_exponent_append:
  assumes "delimited t" "lex_exponent s = Some u"
  shows "lex_exponent (s @ t) = Some (u @ t)"
proof -
  have p: "HasPrefix (s @ t) ''e'' = HasPrefix s ''e''" "HasPrefix (s @ t) ''E'' = HasPrefix s ''E''"
    using delimited_prefix [OF assms(1)] by simp_all
  show ?thesis
  proof (cases "HasPrefix s ''e'' \<or> HasPrefix s ''E''")
    case True
    then have "drop 1 (s @ t) = drop 1 s @ t" by (cases s) auto
    then show ?thesis
      using assms(2) True p delimited_digits [OF assms(1), of "drop_sign (drop 1 s)"] drop_sign_append [OF assms(1), of "drop 1 s"]
      unfolding lex_exponent_def Let_def by (simp split: if_split_asm)
  next
    case False
    then show ?thesis using assms(2) p by (simp add: lex_exponent_def)
  qed
qed

lemma lex_fraction_append:
  assumes "delimited t" "lex_fraction s = Some u"
  shows "lex_fraction (s @ t) = Some (u @ t)"
proof (cases "HasPrefix s ''.''")
  case True
  then obtain r where "s = CHR ''.'' # r" by (auto simp: HasPrefix_iff)
  then show ?thesis
    using assms lex_exponent_append [OF assms(1), of "dropWhile jdigit r" u]
    by (simp add: lex_fraction_def delimited_digits split: if_splits)
next
  case False
  then show ?thesis
    using assms lex_exponent_append [OF assms(1), of s u] delimited_prefix [OF assms(1), of "CHR ''.''"]
    by (simp add: lex_fraction_def)
qed

lemma lex_number_append:
  assumes "delimited t" "lex_number s = Some u"
  shows "lex_number (s @ t) = Some (u @ t)"
proof -
  let ?abs = "\<lambda>s. if HasPrefix s ''-'' then drop 1 s else s"
  have a: "?abs (s @ t) = ?abs s @ t"
    using delimited_prefix [OF assms(1), of "CHR ''-''" s] by (cases s) auto
  have "HasPrefix (?abs s @ t) ''0'' = HasPrefix (?abs s) ''0''"
    using delimited_prefix [OF assms(1)] by simp
  moreover have "drop 1 (?abs s @ t) = drop 1 (?abs s) @ t" if "HasPrefix (?abs s) ''0''"
    using that by (cases "?abs s") auto
  ultimately show ?thesis
    using assms(2) lex_fraction_append [OF assms(1)] delimited_digits [OF assms(1), of "?abs s"]
    unfolding lex_number_def Let_def a by (auto split: if_splits)
qed

fun wf_json :: "json \<Rightarrow> bool" where
  "wf_json (JNum n) \<longleftrightarrow> lex_number n = Some []"
| "wf_json (JArr vs) \<longleftrightarrow> list_all wf_json vs"
| "wf_json (JObj kvs) \<longleftrightarrow> list_all (\<lambda>kv. wf_json (snd kv)) kvs"
| "wf_json _ \<longleftrightarrow> True"

fun normal_json :: "json \<Rightarrow> json" where
  "normal_json (JStr s) = JStr (valid_utf8 s)"
| "normal_json (JArr vs) = JArr (map normal_json vs)"
| "normal_json (JObj kvs) = JObj (map (\<lambda>(k, v). (valid_utf8 k, normal_json v)) kvs)"
| "normal_json v = v"

text \<open>The tokens of a printed value.\<close>

type_synonym rtoken = "string \<times> string \<times> jtoken"

definition string_token :: "string \<Rightarrow> rtoken" where
  "string_token s = ([], encode_string s, TStr (valid_utf8 s))"

fun comma_tokens :: "rtoken list list \<Rightarrow> rtoken list" where
  "comma_tokens [] = []"
| "comma_tokens [x] = x"
| "comma_tokens (x # y # xs) = x @ ([], '','', TComma) # comma_tokens (y # xs)"

fun json_tokens :: "json \<Rightarrow> rtoken list" where
  "json_tokens JNull = [([], ''null'', TNull)]"
| "json_tokens (JBool b) = [([], if b then ''true'' else ''false'', if b then TTrue else TFalse)]"
| "json_tokens (JNum n) = [([], n, TNum n)]"
| "json_tokens (JStr s) = [string_token s]"
| "json_tokens (JArr vs) = ([], ''['', TLBrack) # comma_tokens (map json_tokens vs) @ [([], '']'', TRBrack)]"
| "json_tokens (JObj kvs) =
     ([], [CHR 0x7B], TLBrace) #
     comma_tokens (map (\<lambda>(k, v). string_token k # ([], '':'', TColon) # json_tokens v) kvs) @
     [([], [CHR 0x7D], TRBrace)]"

lemma lex_Cons:
  assumes "lex_token (r @ t) = Some (tok, t)" "r \<noteq> []" "\<not> jspace (hd r)"
  shows "lex (r @ t) = map_option ((#) ([], r, tok)) (lex t)"
proof -
  have "dropWhile jspace (r @ t) = r @ t" "takeWhile jspace (r @ t) = []"
    using assms(2,3) by (cases r; simp)+
  then show ?thesis using assms by (subst lex.simps) simp
qed

lemma lex_punct:
  assumes "map_of lex_punctuation c = Some tok"
  shows "lex (c # t) = map_option ((#) ([], [c], tok)) (lex t)"
proof -
  have "\<not> jspace c" using assms by (auto simp: lex_punctuation_def jspace_def split: if_splits)
  then show ?thesis using assms lex_Cons [of "[c]" t tok] by (simp add: lex_token_def)
qed

lemma lex_encoded_string: "lex (encode_string s @ t) = map_option ((#) (string_token s)) (lex t)"
  using lex_string_encoded [of s t] unfolding string_token_def
  by (intro lex_Cons) (simp_all add: lex_token_def lex_punctuation_def jspace_def encode_string_def)

lemma number_first:
  assumes "lex_number n = Some u"
  shows "n \<noteq> [] \<and> (jdigit (hd n) \<or> hd n = CHR ''-'')"
  using assms by (cases n) (auto simp: lex_number_def starts_digit_def jdigit_def Let_def split: if_splits)

lemma lex_number_text:
  assumes "lex_number n = Some []" "delimited t"
  shows "lex (n @ t) = map_option ((#) ([], n, TNum n)) (lex t)"
proof (rule lex_Cons)
  obtain c m where n: "n = c # m" "jdigit c \<or> c = CHR ''-''" using number_first [OF assms(1)] by (cases n) auto
  have c: "c \<notin> {CHR 0x7B, CHR 0x7D, CHR ''['', CHR '']'', CHR '':'', CHR '','', CHR 0x22, CHR ''n'', CHR ''t'', CHR ''f''} \<and> \<not> jspace c"
    using n(2) by (auto simp: jdigit_def jspace_def)
  then have "map_of lex_punctuation c = None" "\<not> HasPrefix (n @ t) ''null''" "\<not> HasPrefix (n @ t) ''true''" "\<not> HasPrefix (n @ t) ''false''"
    by (auto simp: lex_punctuation_def n(1))
  then show "lex_token (n @ t) = Some (TNum n, t)"
    using c lex_number_append [OF assms(2,1)] by (simp add: lex_token_def n(1))
  show "n \<noteq> []" "\<not> jspace (hd n)" using n c by auto
qed

lemma lex_keyword:
  "lex (''null'' @ t) = map_option ((#) ([], ''null'', TNull)) (lex t)"
  "lex (''true'' @ t) = map_option ((#) ([], ''true'', TTrue)) (lex t)"
  "lex (''false'' @ t) = map_option ((#) ([], ''false'', TFalse)) (lex t)"
  by (rule lex_Cons; simp add: lex_token_def lex_punctuation_def jspace_def)+


definition lexes :: "string \<Rightarrow> rtoken list \<Rightarrow> bool" where
  "lexes s ts \<longleftrightarrow> (\<forall>t. delimited t \<longrightarrow> lex (s @ t) = map_option ((@) ts) (lex t))"

lemma lexesD: "lexes s ts \<Longrightarrow> delimited t \<Longrightarrow> lex (s @ t) = map_option ((@) ts) (lex t)"
  by (simp add: lexes_def)

lemma map_option_Cons: "map_option ((#) x) = map_option ((@) [x])"
proof
  fix y
  show "map_option ((#) x) y = map_option ((@) [x]) y" by (cases y) simp_all
qed

lemma map_option_Nil: "map_option ((@) []) y = y"
  by (cases y) simp_all

lemmas lex_parts = lex_punct lex_encoded_string lex_keyword

lemma lexes_comma:
  "list_all2 lexes xs tss \<Longrightarrow> delimited t \<Longrightarrow>
   lex (Join xs '','' @ t) = map_option ((@) (comma_tokens tss)) (lex t)"
proof (induction xs tss rule: list_all2_induct)
  case (Cons x xs ts tss)
  show ?case
  proof (cases xs)
    case Nil
    then show ?thesis using Cons by (simp add: lexesD)
  next
    case (Cons y ys)
    then obtain us uss where tss: "tss = us # uss" using Cons.hyps by (cases tss) auto
    have "lex (Join (x # xs) '','' @ t) = lex (x @ CHR '','' # Join xs '','' @ t)" by (simp add: Cons)
    also have "\<dots> = map_option ((@) ts) (map_option ((#) ([], '','', TComma)) (lex (Join xs '','' @ t)))"
      using lexesD [OF Cons.hyps(1), of "CHR '','' # Join xs '','' @ t"] by (simp add: lex_punct lex_punctuation_def)
    finally show ?thesis using Cons.IH Cons.prems by (simp add: tss option.map_comp comp_def)
  qed
qed (simp add: map_option_Nil)

lemma lexes_json: "wf_json v \<Longrightarrow> lexes (json_text v) (json_tokens v)"
proof (induction v rule: json_text.induct)
  case 1
  show ?case using lex_keyword by (simp add: lexes_def map_option_Cons)
next
  case (2 b)
  show ?case using lex_keyword by (cases b) (simp_all add: lexes_def map_option_Cons)
next
  case (3 n)
  then show ?case using lex_number_text by (simp add: lexes_def map_option_Cons)
next
  case (4 s)
  then show ?case using lex_encoded_string by (simp add: lexes_def map_option_Cons)
next
  case (5 vs)
  then have l: "list_all2 lexes (map json_text vs) (map json_tokens vs)"
    by (auto simp: list_all2_conv_all_nth list_all_length)
  show ?case
    unfolding lexes_def
  proof (intro allI impI)
    fix t
    show "lex (json_text (JArr vs) @ t) = map_option ((@) (json_tokens (JArr vs))) (lex t)"
      using lexes_comma [OF l] by (cases "lex t") (simp_all add: lex_punct lex_punctuation_def)
  qed
next
  case (6 kvs)
  have "lexes (encode_string k @ '':'' @ json_text v) (string_token k # ([], '':'', TColon) # json_tokens v)"
    if "(k, v) \<in> set kvs" for k v
  proof -
    have "lexes (json_text v) (json_tokens v)" using 6(1) [OF that refl] 6(2) that by (auto simp: list_all_iff)
    then show ?thesis
      unfolding lexes_def
    proof (intro allI impI)
      fix t assume "\<forall>t. delimited t \<longrightarrow> lex (json_text v @ t) = map_option ((@) (json_tokens v)) (lex t)" "delimited t"
      then show "lex ((encode_string k @ '':'' @ json_text v) @ t) =
          map_option ((@) (string_token k # ([], '':'', TColon) # json_tokens v)) (lex t)"
        by (cases "lex t") (simp_all add: lex_encoded_string lex_punct lex_punctuation_def)
    qed
  qed
  then have l: "list_all2 lexes (map (\<lambda>(k, v). encode_string k @ '':'' @ json_text v) kvs)
      (map (\<lambda>(k, v). string_token k # ([], '':'', TColon) # json_tokens v) kvs)"
    by (force simp: list_all2_conv_all_nth in_set_conv_nth split: prod.splits)
  show ?case
    unfolding lexes_def
  proof (intro allI impI)
    fix t
    show "lex (json_text (JObj kvs) @ t) = map_option ((@) (json_tokens (JObj kvs))) (lex t)"
      using lexes_comma [OF l] by (cases "lex t") (simp_all add: lex_punct lex_punctuation_def)
  qed
qed


text \<open>The automaton rebuilds the value from its tokens.\<close>

lemma add_raw_Nil [simp]: "add_raw [] st = st"
  by (cases "([] :: string, st)" rule: add_raw.cases) simp_all

fun last_members :: "json \<Rightarrow> jmembers" where
  "last_members (JObj kvs) = map (\<lambda>(k, v). (valid_utf8 k, json_text v, normal_json v)) kvs"
| "last_members _ = []"

definition runs :: "rtoken list \<Rightarrow> string \<Rightarrow> json \<Rightarrow> jmembers \<Rightarrow> bool" where
  "runs ts raw v ms \<longleftrightarrow> (\<forall>st m us. m = MValue \<or> m = MFirst \<longrightarrow>
     jrun (st, m) (ts @ us) = jrun (complete st raw v ms) us)"

lemma runsD: "runs ts raw v ms \<Longrightarrow> m = MValue \<or> m = MFirst \<Longrightarrow>
   jrun (st, m) (ts @ us) = jrun (complete st raw v ms) us"
  by (auto simp: runs_def)

lemma runs_simple:
  assumes "tok \<noteq> TRBrack" "\<And>st. begin_value st raw tok = Some (complete st raw v [])"
  shows "runs [([], raw, tok)] raw v []"
  using assms by (auto simp: runs_def jstep_def)

text \<open>The elements of an array, when at least one is left.\<close>

lemma jrun_elements:
  assumes "\<And>v. v \<in> set vs \<Longrightarrow> \<exists>ms. runs (json_tokens v) (json_text v) (normal_json v) ms"
    "vs \<noteq> []" "m = MValue \<or> m = MFirst"
  shows "jrun (ArrF r us # st, m) (comma_tokens (map json_tokens vs) @ ts) =
    jrun (ArrF (r @ Join (map json_text vs) '','') (us @ map normal_json vs) # st, MAfter) ts"
  using assms
proof (induction vs arbitrary: r us m)
  case (Cons v vs)
  obtain ms where v: "runs (json_tokens v) (json_text v) (normal_json v) ms" using Cons.prems(1) [of v] by auto
  show ?case
  proof (cases vs)
    case Nil
    then show ?thesis using runsD [OF v Cons.prems(3)] by simp
  next
    case (Cons w ws)
    have "jrun (ArrF r us # st, m) (comma_tokens (map json_tokens (v # vs)) @ ts) =
        jrun (ArrF (r @ json_text v @ '','') (us @ [normal_json v]) # st, MValue) (comma_tokens (map json_tokens vs) @ ts)"
      using runsD [OF v Cons.prems(3)] by (simp add: Cons jstep_def)
    then show ?thesis using Cons.IH [of MValue] Cons.prems by (simp add: Cons)
  qed
qed simp

definition member_tokens :: "string \<times> json \<Rightarrow> rtoken list" where
  "member_tokens kv = string_token (fst kv) # ([], '':'', TColon) # json_tokens (snd kv)"

definition member_text :: "string \<times> json \<Rightarrow> string" where
  "member_text kv = encode_string (fst kv) @ '':'' @ json_text (snd kv)"

lemma jrun_members:
  assumes "\<And>kv. kv \<in> set kvs \<Longrightarrow> \<exists>ms. runs (json_tokens (snd kv)) (json_text (snd kv)) (normal_json (snd kv)) ms"
    "kvs \<noteq> []" "m = MKeyFirst \<or> m = MKey"
  shows "jrun (ObjF r us k # st, m) (comma_tokens (map member_tokens kvs) @ ts) =
    jrun (ObjF (r @ Join (map member_text kvs) '','') (us @ last_members (JObj kvs)) [] # st, MAfter) ts"
  using assms
proof (induction kvs arbitrary: r us k m)
  case (Cons kv kvs)
  obtain ms where v: "runs (json_tokens (snd kv)) (json_text (snd kv)) (normal_json (snd kv)) ms" using Cons.prems(1) [of kv] by auto
  obtain key val where kv: "kv = (key, val)" by force
  have head: "jrun (ObjF r us k # st, m) (member_tokens kv @ xs) =
      jrun (ObjF (r @ member_text kv) (us @ last_members (JObj [kv])) [] # st, MAfter) xs" for xs
    using runsD [OF v, of MValue] Cons.prems(3)
    by (auto simp: member_tokens_def member_text_def string_token_def jstep_def kv)
  show ?case
  proof (cases kvs)
    case Nil
    then show ?thesis using head by simp
  next
    case (Cons w ws)
    have "jrun (ObjF r us k # st, m) (comma_tokens (map member_tokens (kv # kvs)) @ ts) =
        jrun (ObjF (r @ member_text kv @ '','') (us @ last_members (JObj [kv])) [] # st, MKey)
          (comma_tokens (map member_tokens kvs) @ ts)"
      using head by (simp add: Cons jstep_def)
    then show ?thesis using Cons.IH [of MKey] Cons.prems by (simp add: Cons)
  qed
qed simp


lemma member_eqs:
  "(\<lambda>(k, v). string_token k # ([], '':'', TColon) # json_tokens v) = member_tokens"
  "(\<lambda>(k, v). encode_string k @ '':'' @ json_text v) = member_text"
  by (auto simp: member_tokens_def member_text_def)

lemma plain_last_members:
  "JObj (plain_members (last_members (JObj kvs))) = normal_json (JObj kvs)"
  by (simp add: plain_members_def comp_def split_def)

lemma runs_json: "runs (json_tokens v) (json_text v) (normal_json v) (last_members v)"
proof (induction v)
  case (JBool b)
  show ?case by (cases b) (simp_all add: runs_simple)
next
  case (JStr s)
  show ?case using runs_simple [of "TStr (valid_utf8 s)" "encode_string s"] by (simp add: string_token_def)
next
  case (JArr vs)
  show ?case
    unfolding runs_def
  proof (intro allI impI)
    fix st m us assume m: "m = MValue \<or> m = MFirst"
    show "jrun (st, m) (json_tokens (JArr vs) @ us) =
        jrun (complete st (json_text (JArr vs)) (normal_json (JArr vs)) (last_members (JArr vs))) us"
    proof (cases "vs = []")
      case True
      then show ?thesis using m by (auto simp: jstep_def)
    next
      case False
      have "jrun (ArrF ''['' [] # st, MFirst) (comma_tokens (map json_tokens vs) @ ([], '']'', TRBrack) # us) =
          jrun (ArrF (''['' @ Join (map json_text vs) '','') ([] @ map normal_json vs) # st, MAfter) (([], '']'', TRBrack) # us)"
        by (rule jrun_elements [OF _ False]) (use JArr in auto)
      then show ?thesis using m by (auto simp: jstep_def)
    qed
  qed
next
  case (JObj kvs)
  show ?case
    unfolding runs_def
  proof (intro allI impI)
    fix st m us assume m: "m = MValue \<or> m = MFirst"
    let ?o = "CHR 0x7B" and ?c = "CHR 0x7D"
    show "jrun (st, m) (json_tokens (JObj kvs) @ us) =
        jrun (complete st (json_text (JObj kvs)) (normal_json (JObj kvs)) (last_members (JObj kvs))) us"
    proof (cases "kvs = []")
      case True
      then show ?thesis using m by (auto simp: jstep_def plain_members_def)
    next
      case False
      have "jrun (ObjF [?o] [] [] # st, MKeyFirst) (comma_tokens (map member_tokens kvs) @ ([], [?c], TRBrace) # us) =
          jrun (ObjF ([?o] @ Join (map member_text kvs) '','') ([] @ last_members (JObj kvs)) [] # st, MAfter)
            (([], [?c], TRBrace) # us)"
        by (rule jrun_members [OF _ False]) (use JObj in \<open>auto simp: snds.simps\<close>)
      moreover have "jrun (st, m) (json_tokens (JObj kvs) @ us) =
          jrun (ObjF [?o] [] [] # st, MKeyFirst) (comma_tokens (map member_tokens kvs) @ ([], [?c], TRBrace) # us)"
        using m by (auto simp: jstep_def member_eqs)
      moreover have "jrun (ObjF ([?o] @ Join (map member_text kvs) '','') ([] @ last_members (JObj kvs)) [] # st, MAfter)
            (([], [?c], TRBrace) # us) =
          jrun (complete st (json_text (JObj kvs)) (normal_json (JObj kvs)) (last_members (JObj kvs))) us"
        using plain_last_members [of kvs] unfolding json_text.simps member_eqs
        by (simp add: jstep_def del: last_members.simps normal_json.simps(3))
      ultimately show ?thesis by simp
    qed
  qed
qed (simp_all add: runs_simple)

lemma lex_space: "list_all jspace ws \<Longrightarrow> lex ws = Some []"
  by (subst lex.simps) (simp add: list_all_iff)

lemma json_parse_text:
  assumes "wf_json v" "ws = [] \<or> ws = [CHR 0x0A]"
  shows "json_parse (json_text v @ ws) = Some (json_text v, normal_json v, last_members v)"
proof -
  have "delimited ws" "lex ws = Some []" using assms(2) by (auto simp: jspace_def lex_space)
  then have "lex (json_text v @ ws) = Some (json_tokens v)" using lexesD [OF lexes_json [OF assms(1)]] by simp
  then show ?thesis using runsD [OF runs_json, of MValue "[]" v "[]"] by (simp add: json_parse_def)
qed

end
