(* ===== verification/V_Switch.thy ===== *)
theory V_Switch
  imports Ovs_Client Go_Json
begin

text \<open>
  \<^verbatim>\<open>ovs/vswitch.go\<close>: the service that runs \<^verbatim>\<open>ovs-vsctl\<close>: bridges, ports, controllers, and the options
  of bridges and interfaces as the settings the program expects.
\<close>

section \<open>Commands\<close>

definition vsctl_exec :: "'w Client \<Rightarrow> string list \<Rightarrow> 'w \<Rightarrow> string result \<times> 'w" where
  "vsctl_exec c args = Client_exec c ''ovs-vsctl'' args"

definition AddBridge :: "'w Client \<Rightarrow> string \<Rightarrow> 'w \<Rightarrow> unit result \<times> 'w" where
  "AddBridge c bridge w = no_output (vsctl_exec c [''--may-exist'', ''add-br'', bridge] w)"

definition AddPort :: "'w Client \<Rightarrow> string \<Rightarrow> string \<Rightarrow> 'w \<Rightarrow> unit result \<times> 'w" where
  "AddPort c bridge port w = no_output (vsctl_exec c [''--may-exist'', ''add-port'', bridge, port] w)"

definition DeleteBridge :: "'w Client \<Rightarrow> string \<Rightarrow> 'w \<Rightarrow> unit result \<times> 'w" where
  "DeleteBridge c bridge w = no_output (vsctl_exec c [''--if-exists'', ''del-br'', bridge] w)"

definition DeletePort :: "'w Client \<Rightarrow> string \<Rightarrow> string \<Rightarrow> 'w \<Rightarrow> unit result \<times> 'w" where
  "DeletePort c bridge port w = no_output (vsctl_exec c [''--if-exists'', ''del-port'', bridge, port] w)"

definition name_lines :: "string \<Rightarrow> string list" where
  "name_lines output = Split (TrimSpace output) [CHR 0x0A]"

definition ListPorts :: "'w Client \<Rightarrow> string \<Rightarrow> 'w \<Rightarrow> string list result \<times> 'w" where
  "ListPorts c bridge w = with_output (\<lambda>output. Ok (name_lines output)) (vsctl_exec c [''list-ports'', bridge] w)"

definition ListBridges :: "'w Client \<Rightarrow> 'w \<Rightarrow> string list result \<times> 'w" where
  "ListBridges c w = with_output (\<lambda>output. Ok (name_lines output)) (vsctl_exec c [''list-br''] w)"

definition PortToBridge :: "'w Client \<Rightarrow> string \<Rightarrow> 'w \<Rightarrow> string result \<times> 'w" where
  "PortToBridge c port w = vsctl_exec c [''port-to-br'', port] w"

definition GetFailMode :: "'w Client \<Rightarrow> string \<Rightarrow> 'w \<Rightarrow> string result \<times> 'w" where
  "GetFailMode c bridge w = vsctl_exec c [''get-fail-mode'', bridge] w"

definition SetFailMode :: "'w Client \<Rightarrow> string \<Rightarrow> string \<Rightarrow> 'w \<Rightarrow> unit result \<times> 'w" where
  "SetFailMode c bridge mode w = no_output (vsctl_exec c [''set-fail-mode'', bridge, mode] w)"

definition SetController :: "'w Client \<Rightarrow> string \<Rightarrow> string \<Rightarrow> 'w \<Rightarrow> unit result \<times> 'w" where
  "SetController c bridge address w = no_output (vsctl_exec c [''set-controller'', bridge, address] w)"

definition GetController :: "'w Client \<Rightarrow> string \<Rightarrow> 'w \<Rightarrow> string result \<times> 'w" where
  "GetController c bridge w =
     with_output (\<lambda>address. Ok (TrimSpace address)) (vsctl_exec c [''get-controller'', bridge] w)"

section \<open>Options\<close>

record BridgeOptions =
  bo_Protocols :: "string list"

definition BridgeOptions_slice :: "BridgeOptions \<Rightarrow> string list" where
  "BridgeOptions_slice opts =
     (if length (bo_Protocols opts) > 0 then [''protocols='' @ Join (bo_Protocols opts) '',''] else [])"

definition Get_Bridge :: "'w Client \<Rightarrow> string \<Rightarrow> 'w \<Rightarrow> BridgeOptions result \<times> 'w" where
  "Get_Bridge c bridge w =
     with_output (\<lambda>out. and_then (Unmarshal_strings out) (\<lambda>protocols. Ok \<lparr>bo_Protocols = protocols\<rparr>))
       (vsctl_exec c [''--format=json'', ''get'', ''bridge'', bridge, ''protocols''] w)"

definition Set_Bridge :: "'w Client \<Rightarrow> string \<Rightarrow> BridgeOptions \<Rightarrow> 'w \<Rightarrow> unit result \<times> 'w" where
  "Set_Bridge c bridge opts w =
     no_output (vsctl_exec c ([''set'', ''bridge'', bridge] @ BridgeOptions_slice opts) w)"

record InterfaceOptions =
  io_Type :: string
  io_Peer :: string
  io_IngressRatePolicing :: int
  io_IngressBurstPolicing :: int
  io_RemoteIP :: string
  io_Key :: string

definition DefaultIngressRatePolicing :: int where "DefaultIngressRatePolicing = -1"

definition DefaultIngressBurstPolicing :: int where "DefaultIngressBurstPolicing = -1"

definition text_setting :: "string \<Rightarrow> string \<Rightarrow> string list" where
  "text_setting key v = (if v \<noteq> [] then [key @ ''='' @ v] else [])"

definition policing_setting :: "string \<Rightarrow> int \<Rightarrow> int \<Rightarrow> string list" where
  "policing_setting key dflt v =
     (if v = dflt then [key @ ''=0''] else if v > 0 then [key @ ''='' @ Itoa v] else [])"

definition InterfaceOptions_slice :: "InterfaceOptions \<Rightarrow> string list" where
  "InterfaceOptions_slice i =
     text_setting ''type'' (io_Type i) @
     text_setting ''options:peer'' (io_Peer i) @
     policing_setting ''ingress_policing_rate'' DefaultIngressRatePolicing (io_IngressRatePolicing i) @
     policing_setting ''ingress_policing_burst'' DefaultIngressBurstPolicing (io_IngressBurstPolicing i) @
     text_setting ''options:remote_ip'' (io_RemoteIP i) @
     text_setting ''options:key'' (io_Key i)"

definition Set_Interface :: "'w Client \<Rightarrow> string \<Rightarrow> InterfaceOptions \<Rightarrow> 'w \<Rightarrow> unit result \<times> 'w" where
  "Set_Interface c ifi opts w =
     no_output (vsctl_exec c ([''set'', ''interface'', ifi] @ InterfaceOptions_slice opts) w)"

section \<open>What the settings mean\<close>

text \<open>
  A reader of the settings: the value of the one that starts with a key. The ingress limits of a
  slice are read back to the number that was asked for, where 0 stands for \<^emph>\<open>leave it as it is\<close>.
\<close>

definition setting_value :: "string \<Rightarrow> string list \<Rightarrow> string option" where
  "setting_value key ss = map_option (drop (length key + 1)) (find (\<lambda>s. HasPrefix s (key @ ''='')) ss)"

definition read_text :: "string \<Rightarrow> string list \<Rightarrow> string" where
  "read_text key ss = (case setting_value key ss of None \<Rightarrow> [] | Some v \<Rightarrow> v)"

definition read_policing :: "string \<Rightarrow> string list \<Rightarrow> int" where
  "read_policing key ss =
     (case setting_value key ss of
        None \<Rightarrow> 0
      | Some v \<Rightarrow> (case ParseInt v 10 0 of Ok n \<Rightarrow> if n = 0 then -1 else n | _ \<Rightarrow> 0))"

definition read_interface :: "string list \<Rightarrow> InterfaceOptions" where
  "read_interface ss =
     \<lparr>io_Type = read_text ''type'' ss, io_Peer = read_text ''options:peer'' ss,
      io_IngressRatePolicing = read_policing ''ingress_policing_rate'' ss,
      io_IngressBurstPolicing = read_policing ''ingress_policing_burst'' ss,
      io_RemoteIP = read_text ''options:remote_ip'' ss, io_Key = read_text ''options:key'' ss\<rparr>"

definition effective_policing :: "int \<Rightarrow> int" where
  "effective_policing v = (if v < -1 then 0 else v)"

lemma setting_value_text:
  "setting_value key (text_setting key v @ ss) = (if v \<noteq> [] then Some v else setting_value key ss)"
  using HasPrefix_append [of "key @ ''=''" v] by (simp add: setting_value_def text_setting_def)

lemma setting_value_policing:
  assumes "int64 v"
  shows "setting_value key (policing_setting key (-1) v @ ss) =
    (if v = -1 then Some ''0'' else if v > 0 then Some (Itoa v) else setting_value key ss)"
  using HasPrefix_append [of "key @ ''=''" "Itoa v"] HasPrefix_append [of "key @ ''=''" "''0''"]
  by (simp add: setting_value_def policing_setting_def)

text \<open>A setting of another key is skipped when neither key is a prefix of the other.\<close>

definition separate :: "string \<Rightarrow> string \<Rightarrow> bool" where
  "separate k k' \<longleftrightarrow> (\<exists>i < min (length k) (length k'). k ! i \<noteq> k' ! i)"

lemma separate_prefix:
  assumes "separate k k'"
  shows "\<not> HasPrefix (k' @ s) (k @ t)"
proof
  assume "HasPrefix (k' @ s) (k @ t)"
  then obtain u where e: "k' @ s = k @ t @ u" by (auto simp: HasPrefix_iff)
  obtain i where i: "i < length k" "i < length k'" "k ! i \<noteq> k' ! i" using assms by (auto simp: separate_def)
  have "(k' @ s) ! i = (k @ t @ u) ! i" using e by simp
  then show False using i by (simp add: nth_append)
qed

lemma setting_value_other:
  assumes "separate k k'"
  shows "setting_value k (text_setting k' v @ ss) = setting_value k ss"
    "setting_value k (policing_setting k' d n @ ss) = setting_value k ss"
  using separate_prefix [OF assms]
  by (simp_all add: setting_value_def text_setting_def policing_setting_def)

lemma setting_keys_separate:
  assumes "k \<in> set ks" "k' \<in> set ks" "k \<noteq> k'"
    "ks = [''type'', ''options:peer'', ''ingress_policing_rate'', ''ingress_policing_burst'', ''options:remote_ip'', ''options:key'']"
  shows "separate k k'"
proof -
  have "\<forall>a \<in> set ks. \<forall>b \<in> set ks. a \<noteq> b \<longrightarrow> list_ex (\<lambda>i. a ! i \<noteq> b ! i) [0..<min (length a) (length b)]"
    unfolding assms(4) by code_simp
  then show ?thesis using assms(1-3) by (fastforce simp: separate_def list_ex_iff)
qed

lemmas other_settings = setting_value_other [OF setting_keys_separate [OF _ _ _ refl]]

lemma setting_value_Nil: "setting_value k [] = None"
  by (simp add: setting_value_def)

lemma read_policing_value:
  assumes "int64 v" "setting_value k ss = (if v = -1 then Some ''0'' else if v > 0 then Some (Itoa v) else None)"
  shows "read_policing k ss = effective_policing v"
proof -
  have "ParseInt ''0'' 10 0 = Ok 0" by code_simp
  then show ?thesis
    using assms ParseInt_Itoa [OF assms(1)]
    by (auto simp: read_policing_def effective_policing_def)
qed

section \<open>Properties\<close>

text \<open>
  C23: the settings of an interface say what its options ask for. Reading the settings by their
  keys gives back the type, the peer, the remote address and the key unchanged, whatever characters
  they hold, and the two ingress limits, of which a number below \<open>-1\<close> is dropped, \<open>0\<close> leaves the
  limit as it is and \<open>-1\<close> resets it.
\<close>

theorem InterfaceOptions_settings:
  assumes "int64 (io_IngressRatePolicing i)" "int64 (io_IngressBurstPolicing i)"
  shows "read_interface (InterfaceOptions_slice i) =
    i\<lparr>io_IngressRatePolicing := effective_policing (io_IngressRatePolicing i),
      io_IngressBurstPolicing := effective_policing (io_IngressBurstPolicing i)\<rparr>"
proof -
  note one = setting_value_text [where ss = "[]", simplified] other_settings(1) [where ss = "[]", simplified]
  note vals = setting_value_text other_settings setting_value_policing [OF assms(1)]
    setting_value_policing [OF assms(2)] setting_value_Nil one
  show ?thesis
    by (rule InterfaceOptions.equality)
      (simp_all add: read_interface_def read_text_def InterfaceOptions_slice_def vals
        DefaultIngressRatePolicing_def DefaultIngressBurstPolicing_def
        read_policing_value [OF assms(1)] read_policing_value [OF assms(2)])
qed

theorem InterfaceOptions_settings_witness:
  "read_interface (InterfaceOptions_slice
     \<lparr>io_Type = ''vxlan'', io_Peer = [], io_IngressRatePolicing = 500, io_IngressBurstPolicing = -1,
      io_RemoteIP = ''flow'', io_Key = ''a=b''\<rparr>) =
     \<lparr>io_Type = ''vxlan'', io_Peer = [], io_IngressRatePolicing = 500, io_IngressBurstPolicing = -1,
      io_RemoteIP = ''flow'', io_Key = ''a=b''\<rparr>"
  by (subst InterfaceOptions_settings) (simp_all add: int64_def effective_policing_def)

lemma name_lines_output:
  assumes "list_all line_text ns" "ns \<noteq> [] \<Longrightarrow> graphic (hd (hd ns))"
    "fst (exec_program c ''ovs-vsctl'' args w) = (Some (output_lines ns), None)"
  shows "fst (with_output (\<lambda>out. Ok (name_lines out)) (vsctl_exec c args w)) = Ok (if ns = [] then [[]] else ns)"
proof (cases "ns = []")
  case True
  then have "fst (vsctl_exec c args w) = Ok []"
    using Client_exec_out [OF assms(3)] by (simp add: vsctl_exec_def output_lines_def)
  then show ?thesis using True by (simp add: with_output_def name_lines_def Split.simps)
next
  case False
  have o: "fst (vsctl_exec c args w) = Ok (Join ns [CHR 0x0A])"
    unfolding vsctl_exec_def by (rule Client_exec_lines [OF assms(3) False assms(1) assms(2) [OF False]])
  have "TrimSpace (Join ns [CHR 0x0A]) = Join ns [CHR 0x0A]"
    using False assms(1) assms(2) [OF False] by (rule TrimSpace_lines)
  moreover have "Split (Join ns [CHR 0x0A]) [CHR 0x0A] = ns"
    using False assms(1) by (intro Split_Join) (auto simp: list_all_iff line_text_notin)
  ultimately show ?thesis using False by (simp add: with_output_def name_lines_def o)
qed

text \<open>
  Listing ports and bridges. A program that prints one name per line is read to these names;
  one that prints nothing, since there are none, is read to a list with one empty name.
\<close>

theorem List_names:
  assumes "list_all line_text ns" "ns \<noteq> [] \<longrightarrow> graphic (hd (hd ns))"
  shows "(fst (exec_program c ''ovs-vsctl'' [''list-ports'', bridge] w) = (Some (output_lines ns), None) \<longrightarrow>
      fst (ListPorts c bridge w) = Ok (if ns = [] then [[]] else ns)) \<and>
    (fst (exec_program c ''ovs-vsctl'' [''list-br''] w) = (Some (output_lines ns), None) \<longrightarrow>
      fst (ListBridges c w) = Ok (if ns = [] then [[]] else ns))"
  using name_lines_output [OF assms(1), of c _ w] assms(2) unfolding ListPorts_def ListBridges_def by blast

theorem List_names_witness:
  "fst (ListPorts (New (\<lambda>_ _ n. ((Some (output_lines [''eth0'', ''vxlan-1'']), None), n)) (\<lambda>_ _ _ n. ((None, None), n)) []) ''br0'' ()) =
     Ok [''eth0'', ''vxlan-1''] \<and>
   fst (ListPorts (New (\<lambda>_ _ n. ((Some (output_lines []), None), n)) (\<lambda>_ _ _ n. ((None, None), n)) []) ''br0'' ()) = Ok [[]]"
proof -
  have l: "list_all line_text [''eth0'', ''vxlan-1'']" "graphic (hd (hd [''eth0'', ''vxlan-1'']))" by code_simp+
  show ?thesis
    using List_names [OF l(1), of "New (\<lambda>_ _ n. ((Some (output_lines [''eth0'', ''vxlan-1'']), None), n)) (\<lambda>_ _ _ n. ((None, None), n)) []" "''br0''" "()"]
      List_names [of "[]" "New (\<lambda>_ _ n. ((Some (output_lines []), None), n)) (\<lambda>_ _ _ n. ((None, None), n)) []" "''br0''" "()"] l(2)
    by (simp add: exec_program_def New_def)
qed

lemma TrimSpace_line:
  assumes "graphic c" "graphic d"
  shows "TrimSpace (c # s @ [d, CHR 0x0A]) = c # s @ [d]"
  using assms TrimRightSpace_newline [of "c # s @ [d]"] TrimRightSpace_graphic [of d "c # s"]
  by (simp add: TrimSpace_def TrimLeftSpace_graphic)

text \<open>
  The protocols of a bridge are read from the JSON array the program prints, each string decoded
  from its escapes (and invalid UTF-8 in it replaced); so what \<^verbatim>\<open>Set\<close> joins with commas and \<^verbatim>\<open>Get\<close> reads
  is the same list.
\<close>

theorem Get_Bridge_reads:
  assumes "fst (exec_program c ''ovs-vsctl'' [''--format=json'', ''get'', ''bridge'', bridge, ''protocols''] w) =
    (Some (json_text (JArr (map JStr ps)) @ [CHR 0x0A]), None)"
  shows "fst (Get_Bridge c bridge w) = Ok \<lparr>bo_Protocols = map valid_utf8 ps\<rparr>"
proof -
  let ?v = "JArr (map JStr ps)"
  have "json_text ?v = CHR ''['' # Join (map encode_string ps) '','' @ '']''" by (simp add: comp_def)
  then have "TrimSpace (json_text ?v @ [CHR 0x0A]) = json_text ?v"
    using TrimSpace_line [of "CHR ''[''" "CHR '']''"] by (simp add: graphic_def)
  then have o: "fst (vsctl_exec c [''--format=json'', ''get'', ''bridge'', bridge, ''protocols''] w) = Ok (json_text ?v)"
    unfolding vsctl_exec_def using Client_exec_out [OF assms] by simp
  have "json_parse (json_text ?v) = Some (json_text ?v, normal_json ?v, [])"
    using json_parse_text [of ?v "[]"] by (simp add: list_all_iff del: json_text.simps)
  then have "Unmarshal_strings (json_text ?v) = Ok (map valid_utf8 ps)"
    by (simp add: Unmarshal_strings_def each_map comp_def each_all_Ok del: json_text.simps)
  then show ?thesis using o by (simp add: Get_Bridge_def with_output_def del: json_text.simps)
qed

theorem Get_Bridge_reads_witness:
  "fst (Get_Bridge (New (\<lambda>_ _ n. ((Some (json_text (JArr (map JStr [''OpenFlow10'', ''OpenFlow13''])) @ [CHR 0x0A]), None), n))
     (\<lambda>_ _ _ n. ((None, None), n)) []) ''br0'' ()) = Ok \<lparr>bo_Protocols = [''OpenFlow10'', ''OpenFlow13'']\<rparr>"
proof -
  have "map valid_utf8 [''OpenFlow10'', ''OpenFlow13''] = [''OpenFlow10'', ''OpenFlow13'']" by code_simp
  then show ?thesis
    by (subst Get_Bridge_reads [of _ _ _ "[''OpenFlow10'', ''OpenFlow13'']"]) (simp_all add: exec_program_def New_def)
qed

text \<open>
  A missing port is recognised. The error of \<^verbatim>\<open>PortToBridge\<close> satisfies \<^verbatim>\<open>IsPortNotExist\<close> exactly when the
  program exited with status 1 and its output, without the white space around it, starts with its
  message for a port that does not exist.
\<close>

theorem PortToBridge_not_exist:
  assumes "fst (PortToBridge c port w) = Err e"
  shows "IsPortNotExist err_text e \<longleftrightarrow>
    (\<exists>out e'. fst (exec_program c ''ovs-vsctl'' [''port-to-br'', port] w) = (Some out, Some e') \<and>
       HasPrefix (TrimSpace out) ''ovs-vsctl: no port named '' \<and> err_text e' = ''exit status 1'')"
proof -
  obtain out e' where o: "e = ExecError (map_option TrimSpace out) e'"
    "fst (exec_program c ''ovs-vsctl'' [''port-to-br'', port] w) = (out, Some e')"
    using Client_exec_err [OF assms [unfolded PortToBridge_def vsctl_exec_def]] by blast
  show ?thesis by (cases out) (simp_all add: o)
qed

theorem PortToBridge_not_exist_witness:
  "\<exists>e. fst (PortToBridge (New (\<lambda>_ _ n. ((Some ''ovs-vsctl: no port named eth9'', Some (ErrExternal ''exit status 1'')), n))
     (\<lambda>_ _ _ n. ((None, None), n)) []) ''eth9'' ()) = Err e \<and> IsPortNotExist (\<lambda>_. ''exit status 1'') e"
proof -
  let ?c = "New (\<lambda>_ _ n. ((Some ''ovs-vsctl: no port named eth9'', Some (ErrExternal ''exit status 1'')), n)) (\<lambda>_ _ _ n. ((None, None), n)) []"
  have "HasPrefix (TrimSpace ''ovs-vsctl: no port named eth9'') ''ovs-vsctl: no port named ''" by code_simp
  moreover have e: "fst (PortToBridge ?c ''eth9'' ()) = Err (ExecError (Some (TrimSpace ''ovs-vsctl: no port named eth9'')) (ErrExternal ''exit status 1''))"
    by (simp add: PortToBridge_def vsctl_exec_def Client_exec_def command_line_def New_def)
  ultimately show ?thesis
    using PortToBridge_not_exist [OF e, of "\<lambda>_. ''exit status 1''"] by (simp add: exec_program_def New_def)
qed

end
