(* ===== verification/Go_Quote.thy ===== *)
theory Go_Quote imports Go_Json begin

text \<open>
  The verb \<^verbatim>\<open>%q\<close> of \<^verbatim>\<open>fmt\<close> for strings (\<^verbatim>\<open>strconv.Quote\<close>), and the reading of the string literals
  it prints by the rules of the Go language. Which runes beyond ASCII are printable is a table of the
  library, the parameter \<open>is_print\<close>; no lemma depends on it.
\<close>

section \<open>Quoting\<close>

text \<open>The code point of a valid encoding.\<close>

definition rune_code :: "string \<Rightarrow> nat" where
  "rune_code bs =
     (let b = (\<lambda>i. (of_char (bs ! i) :: nat)) in
      if length bs = 2 then (b 0 - 0xC0) * 64 + (b 1 - 0x80)
      else if length bs = 3 then (b 0 - 0xE0) * 4096 + (b 1 - 0x80) * 64 + (b 2 - 0x80)
      else if length bs = 4 then (b 0 - 0xF0) * 262144 + (b 1 - 0x80) * 4096 + (b 2 - 0x80) * 64 + (b 3 - 0x80)
      else b 0)"

definition letter_escapes :: "(char \<times> char) list" where
  "letter_escapes =
     [(CHR 0x07, CHR ''a''), (CHR 0x08, CHR ''b''), (CHR 0x0C, CHR ''f''), (CHR 0x0A, CHR ''n''),
      (CHR 0x0D, CHR ''r''), (CHR 0x09, CHR ''t''), (CHR 0x0B, CHR ''v'')]"

primrec padded_hex :: "nat \<Rightarrow> nat \<Rightarrow> string" where
  "padded_hex 0 n = []"
| "padded_hex (Suc k) n = digit_char (n div 16 ^ k mod 16) # padded_hex k n"

definition quote_ascii :: "char \<Rightarrow> string" where
  "quote_ascii c =
     (let n = (of_char c :: nat) in
      if c = CHR 0x22 \<or> c = CHR 0x5C then [CHR 0x5C, c]
      else if 0x20 \<le> n \<and> n < 0x7F then [c]
      else case map_of letter_escapes c of
        Some l \<Rightarrow> [CHR 0x5C, l]
      | None \<Rightarrow> if n < 0x20 then [CHR 0x5C, CHR ''x''] @ padded_hex 2 n else [CHR 0x5C, CHR ''u''] @ padded_hex 4 n)"

definition quote_rune :: "(nat \<Rightarrow> bool) \<Rightarrow> string \<Rightarrow> string" where
  "quote_rune is_print bs =
     (if length bs = 1 then quote_ascii (hd bs)
      else if is_print (rune_code bs) then bs
      else if rune_code bs < 0x10000 then [CHR 0x5C, CHR ''u''] @ padded_hex 4 (rune_code bs)
      else [CHR 0x5C, CHR ''U''] @ padded_hex 8 (rune_code bs))"

function quote_body :: "(nat \<Rightarrow> bool) \<Rightarrow> string \<Rightarrow> string" where
  "quote_body is_print s =
     (if s = [] then []
      else if rune_width s = 0
      then [CHR 0x5C, CHR ''x''] @ padded_hex 2 (of_char (hd s)) @ quote_body is_print (drop 1 s)
      else quote_rune is_print (take (rune_width s) s) @ quote_body is_print (drop (rune_width s) s))"
  by pat_completeness auto
termination by (relation "measure (\<lambda>(_, s). length s)") auto

declare quote_body.simps [simp del]

definition Quote :: "(nat \<Rightarrow> bool) \<Rightarrow> string \<Rightarrow> string" where
  "Quote is_print s = [CHR 0x22] @ quote_body is_print s @ [CHR 0x22]"

section \<open>String literals\<close>

text \<open>An interpreted string literal after its opening quote: its value and the rest of the source.\<close>

fun hex_number :: "nat \<Rightarrow> nat \<Rightarrow> string \<Rightarrow> (nat \<times> string) option" where
  "hex_number 0 n s = Some (n, s)"
| "hex_number (Suc k) n [] = None"
| "hex_number (Suc k) n (c # s) = (case hex_val c of None \<Rightarrow> None | Some d \<Rightarrow> hex_number k (n * 16 + d) s)"

definition unescape :: "string \<Rightarrow> (string \<times> string) option" where
  "unescape s =
     (case s of
        [] \<Rightarrow> None
      | e # t \<Rightarrow>
          if e = CHR 0x22 \<or> e = CHR 0x5C then Some ([e], t)
          else if e = CHR ''x'' then map_option (\<lambda>(n, u). ([char_of n], u)) (hex_number 2 0 t)
          else if e = CHR ''u'' then map_option (\<lambda>(n, u). (utf8 n, u)) (hex_number 4 0 t)
          else if e = CHR ''U'' then map_option (\<lambda>(n, u). (utf8 n, u)) (hex_number 8 0 t)
          else map_option (\<lambda>c. ([c], t)) (map_of (map (\<lambda>(c, l). (l, c)) letter_escapes) e))"

lemma hex_number_length: "hex_number k n s = Some (m, t) \<Longrightarrow> length t \<le> length s"
  by (induction k n s rule: hex_number.induct) (fastforce split: option.splits)+

lemma unescape_length: "unescape s = Some (bs, t) \<Longrightarrow> length t < length s"
  by (auto simp: unescape_def dest!: hex_number_length split: list.splits if_splits)

function read_literal :: "string \<Rightarrow> (string \<times> string) option" where
  "read_literal s =
     (case s of
        [] \<Rightarrow> None
      | c # t \<Rightarrow>
          if c = CHR 0x22 then Some ([], t)
          else if c = CHR 0x5C then
            (case unescape t of None \<Rightarrow> None | Some (bs, u) \<Rightarrow> prepend bs (read_literal u))
          else prepend [c] (read_literal t))"
  by pat_completeness auto
termination by (relation "measure length") (auto dest!: unescape_length)

declare read_literal.simps [simp del]

section \<open>Literals are read back\<close>

lemma hex_number_padded: "hex_number k m (padded_hex k n @ t) = Some (m * 16 ^ k + n mod 16 ^ k, t)"
proof (induction k arbitrary: m)
  case (Suc k)
  have "n mod 16 ^ Suc k = 16 ^ k * (n div 16 ^ k mod 16) + n mod 16 ^ k"
    using mod_mult2_eq [of n "16 ^ k" 16] by (simp add: mult.commute)
  then show ?case using Suc by (simp add: hex_val_digit_char algebra_simps)
qed simp

lemma read_literal_char:
  "c \<noteq> CHR 0x22 \<Longrightarrow> c \<noteq> CHR 0x5C \<Longrightarrow> read_literal (c # t) = prepend [c] (read_literal t)"
  by (subst read_literal.simps) simp

lemma read_literal_escape: "unescape s = Some (bs, t) \<Longrightarrow> read_literal (CHR 0x5C # s) = prepend bs (read_literal t)"
  by (subst read_literal.simps) simp

lemma read_literal_end: "read_literal (CHR 0x22 # t) = Some ([], t)"
  by (subst read_literal.simps) simp

lemma read_literal_hex:
  "n < 256 \<Longrightarrow> read_literal ([CHR 0x5C, CHR ''x''] @ padded_hex 2 n @ t) = prepend [char_of n] (read_literal t)"
  "n < 0x10000 \<Longrightarrow> read_literal ([CHR 0x5C, CHR ''u''] @ padded_hex 4 n @ t) = prepend (utf8 n) (read_literal t)"
  "n < 0x100000000 \<Longrightarrow> read_literal ([CHR 0x5C, CHR ''U''] @ padded_hex 8 n @ t) = prepend (utf8 n) (read_literal t)"
  by (simp_all add: read_literal_escape unescape_def hex_number_padded del: padded_hex.simps hex_number.simps)

lemma letter_escapes_inverse:
  assumes "map_of letter_escapes c = Some l"
  shows "unescape (l # t) = Some ([c], t)"
  using assms by (auto simp: letter_escapes_def unescape_def split: if_splits)

lemma read_quote_ascii:
  assumes "ascii c"
  shows "read_literal (quote_ascii c @ t) = prepend [c] (read_literal t)"
proof (cases "c = CHR 0x22 \<or> c = CHR 0x5C")
  case True
  then have "unescape (c # t) = Some ([c], t)" by (auto simp: unescape_def)
  then show ?thesis using True by (simp add: quote_ascii_def read_literal_escape)
next
  case False
  have n: "(of_char c :: nat) < 0x80" using assms by (simp add: ascii_def)
  then have "utf8 (of_char c) = [c]" by (simp add: utf8_def)
  then show ?thesis
    using False n read_literal_hex(1,2) [of "of_char c" t] letter_escapes_inverse [of c]
    by (auto simp: quote_ascii_def Let_def read_literal_char read_literal_escape split: option.split)
qed

lemma byte_in_nth: "byte_in lo hi s i \<longleftrightarrow> i < length s \<and> lo \<le> (of_char (s ! i) :: nat) \<and> (of_char (s ! i) :: nat) \<le> hi"
  by (auto simp: byte_in_def)

text \<open>Encoding the code point of a valid encoding gives the encoding.\<close>

lemma base64:
  assumes "(z :: nat) < 64"
  shows "(q * 64 + z) div 64 = q" "(q * 64 + z) mod 64 = z"
  using assms by simp_all

lemma utf8_two:
  assumes "2 \<le> x" "x < 32" "y < 64"
  shows "utf8 (x * 64 + y) = [char_of (0xC0 + x), char_of (0x80 + y)]"
proof -
  have "(x * 64 + y) div 64 = x" "(x * 64 + y) mod 64 = y" by (rule base64 [OF assms(3)])+
  moreover have "\<not> x * 64 + y < 0x80" "x * 64 + y < 0x800" using assms by simp_all
  ultimately show ?thesis by (simp only: utf8_def if_False if_True)
qed

lemma utf8_three:
  assumes "x < 16" "y < 64" "z < 64" "0x20 \<le> x * 64 + y"
  shows "utf8 (x * 4096 + y * 64 + z) = [char_of (0xE0 + x), char_of (0x80 + y), char_of (0x80 + z)]"
proof -
  let ?n = "x * 4096 + y * 64 + z"
  have n: "?n = (x * 64 + y) * 64 + z" by simp
  have "?n div 64 = x * 64 + y" "?n mod 64 = z" unfolding n by (rule base64 [OF assms(3)])+
  moreover have "?n div 4096 = ?n div 64 div 64" by (simp add: div_mult2_eq [symmetric])
  moreover have "(x * 64 + y) div 64 = x" "(x * 64 + y) mod 64 = y" by (rule base64 [OF assms(2)])+
  moreover have "\<not> ?n < 0x80" "\<not> ?n < 0x800" "?n < 0x10000" using assms by simp_all
  ultimately show ?thesis by (simp only: utf8_def if_False if_True)
qed

lemma utf8_four:
  assumes "x < 8" "y < 64" "z < 64" "v < 64" "0x10 \<le> x * 64 + y"
  shows "utf8 (x * 262144 + y * 4096 + z * 64 + v) =
    [char_of (0xF0 + x), char_of (0x80 + y), char_of (0x80 + z), char_of (0x80 + v)]"
proof -
  let ?n = "x * 262144 + y * 4096 + z * 64 + v"
  have n: "?n = ((x * 64 + y) * 64 + z) * 64 + v" by simp
  have "?n div 64 = (x * 64 + y) * 64 + z" "?n mod 64 = v" unfolding n by (rule base64 [OF assms(4)])+
  moreover have "((x * 64 + y) * 64 + z) div 64 = x * 64 + y" "((x * 64 + y) * 64 + z) mod 64 = z"
    by (rule base64 [OF assms(3)])+
  moreover have "?n div 4096 = ?n div 64 div 64" "?n div 262144 = ?n div 64 div 64 div 64"
    by (simp_all add: div_mult2_eq [symmetric])
  moreover have "(x * 64 + y) div 64 = x" "(x * 64 + y) mod 64 = y" by (rule base64 [OF assms(2)])+
  moreover have "\<not> ?n < 0x80" "\<not> ?n < 0x800" "\<not> ?n < 0x10000" using assms by simp_all
  ultimately show ?thesis by (simp only: utf8_def if_False)
qed

lemma char_offset: "o' \<le> (of_char c :: nat) \<Longrightarrow> char_of (o' + (of_char c - o')) = c"
  by simp

lemma utf8_rune_code2:
  assumes "rune2 s"
  shows "utf8 (rune_code (take 2 s)) = take 2 s" "rune_code (take 2 s) < 0x10000"
proof -
  obtain a b t where s: "s = a # b # t" using rune_shapes_length(1) [OF assms]
    by (metis Suc_le_length_iff numeral_2_eq_2)
  have r: "0xC2 \<le> (of_char a :: nat)" "(of_char a :: nat) \<le> 0xDF" "0x80 \<le> (of_char b :: nat)" "(of_char b :: nat) \<le> 0xBF"
    using assms by (simp_all add: rune2_def byte_in_nth s)
  have c: "rune_code (take 2 s) = (of_char a - 0xC0) * 64 + (of_char b - 0x80)" by (simp add: rune_code_def s)
  show "utf8 (rune_code (take 2 s)) = take 2 s"
    unfolding c by (subst utf8_two) (use r in \<open>simp_all add: s\<close>)
  show "rune_code (take 2 s) < 0x10000" unfolding c using r by linarith
qed


lemma utf8_rune_code3:
  assumes "rune3 s"
  shows "utf8 (rune_code (take 3 s)) = take 3 s" "rune_code (take 3 s) < 0x10000"
proof -
  obtain a b d t where s: "s = a # b # d # t" using rune_shapes_length(2) [OF assms]
    by (metis Suc_le_length_iff numeral_3_eq_3)
  have r: "0xE0 \<le> (of_char a :: nat)" "(of_char a :: nat) \<le> 0xEF" "0x80 \<le> (of_char b :: nat)" "(of_char b :: nat) \<le> 0xBF"
    "0x80 \<le> (of_char d :: nat)" "(of_char d :: nat) \<le> 0xBF" "(of_char a :: nat) = 0xE0 \<longrightarrow> 0xA0 \<le> (of_char b :: nat)"
    using assms by (auto simp: rune3_def byte_in_nth s)
  have c: "rune_code (take 3 s) = (of_char a - 0xE0) * 4096 + (of_char b - 0x80) * 64 + (of_char d - 0x80)"
    by (simp add: rune_code_def s)
  have "0x20 \<le> ((of_char a :: nat) - 0xE0) * 64 + (of_char b - 0x80)" using r by (cases "(of_char a :: nat) = 0xE0") auto
  then show "utf8 (rune_code (take 3 s)) = take 3 s"
    unfolding c by (subst utf8_three) (use r in \<open>simp_all add: s\<close>)
  show "rune_code (take 3 s) < 0x10000" unfolding c using r by linarith
qed

lemma utf8_rune_code4:
  assumes "rune4 s"
  shows "utf8 (rune_code (take 4 s)) = take 4 s" "rune_code (take 4 s) < 0x100000000"
proof -
  obtain a b d e t where s: "s = a # b # d # e # t"
    using rune_shapes_length(3) [OF assms] by (auto simp: numeral_eq_Suc Suc_le_length_iff)
  have r: "0xF0 \<le> (of_char a :: nat)" "(of_char a :: nat) \<le> 0xF4" "0x80 \<le> (of_char b :: nat)" "(of_char b :: nat) \<le> 0xBF"
    "0x80 \<le> (of_char d :: nat)" "(of_char d :: nat) \<le> 0xBF" "0x80 \<le> (of_char e :: nat)" "(of_char e :: nat) \<le> 0xBF"
    "(of_char a :: nat) = 0xF0 \<longrightarrow> 0x90 \<le> (of_char b :: nat)"
    using assms by (auto simp: rune4_def byte_in_nth s)
  have c: "rune_code (take 4 s) =
      (of_char a - 0xF0) * 262144 + (of_char b - 0x80) * 4096 + (of_char d - 0x80) * 64 + (of_char e - 0x80)"
    by (simp add: rune_code_def s)
  have "0x10 \<le> ((of_char a :: nat) - 0xF0) * 64 + (of_char b - 0x80)" using r by (cases "(of_char a :: nat) = 0xF0") auto
  then show "utf8 (rune_code (take 4 s)) = take 4 s"
    unfolding c by (subst utf8_four) (use r in \<open>simp_all add: s\<close>)
  show "rune_code (take 4 s) < 0x100000000" unfolding c using r by linarith
qed

lemma rune_multi:
  assumes "rune_width s \<noteq> 0" "s = c # u" "\<not> ascii c"
  shows "utf8 (rune_code (take (rune_width s) s)) = take (rune_width s) s"
    "rune_code (take (rune_width s) s) < 0x100000000" "1 < rune_width s"
    "list_all (\<lambda>b. 0x80 \<le> (of_char b :: nat)) (take (rune_width s) s)"
proof -
  have b: "\<not> byte_in 0x00 0x7F s 0" using assms(2,3) by (simp add: byte_in_def ascii_def)
  consider "rune2 s" "rune_width s = 2" | "rune3 s" "rune_width s = 3" | "rune4 s" "rune_width s = 4"
    using assms(1) b by (auto simp: rune_width_shapes split: if_splits)
  note shapes = this
  from shapes show "utf8 (rune_code (take (rune_width s) s)) = take (rune_width s) s"
    by cases (simp_all add: utf8_rune_code2 utf8_rune_code3 utf8_rune_code4)
  from shapes show "rune_code (take (rune_width s) s) < 0x100000000"
    by cases (use utf8_rune_code2(2) [of s] utf8_rune_code3(2) [of s] utf8_rune_code4(2) [of s] in auto)
  from shapes show "1 < rune_width s" by cases simp_all
  from shapes show "list_all (\<lambda>b. 0x80 \<le> (of_char b :: nat)) (take (rune_width s) s)"
    by cases (auto simp: list_all_length rune2_def rune3_def rune4_def byte_in_nth less_Suc_eq numeral_eq_Suc)
qed

lemma read_literal_bytes:
  "list_all (\<lambda>b. 0x80 \<le> (of_char b :: nat)) bs \<Longrightarrow> read_literal (bs @ t) = prepend bs (read_literal t)"
proof (induction bs)
  case Nil
  then show ?case by (simp add: prepend_def map_option_case split: option.split)
next
  case (Cons b bs)
  then have "b \<noteq> CHR 0x22" "b \<noteq> CHR 0x5C" by auto
  then show ?case using Cons by (simp add: read_literal_char prepend_def option.map_comp comp_def split_def)
qed

lemma read_quote_rune:
  assumes "rune_width s \<noteq> 0" "s = c # u"
  shows "read_literal (quote_rune is_print (take (rune_width s) s) @ t) = prepend (take (rune_width s) s) (read_literal t)"
proof (cases "ascii c")
  case True
  then show ?thesis using assms(2) by (simp add: quote_rune_def read_quote_ascii)
next
  case False
  note m = rune_multi [OF assms False]
  have "length (take (rune_width s) s) \<noteq> 1" using m(3) rune_width_le [of s] by simp
  then show ?thesis
    using m read_literal_bytes [OF m(4)] read_literal_hex(2,3) [of "rune_code (take (rune_width s) s)" t]
    by (simp add: quote_rune_def)
qed

text \<open>Every string is read back from its quoted form, whatever its bytes.\<close>

lemma prepend_append: "prepend a (prepend b r) = prepend (a @ b) r"
  by (cases r) (auto simp: prepend_def)

lemma read_quote_body: "read_literal (quote_body is_print s @ CHR 0x22 # t) = Some (s, t)"
proof (induction is_print s rule: quote_body.induct)
  case (1 is_print s)
  show ?case
  proof (cases s)
    case Nil
    then show ?thesis by (subst quote_body.simps) (simp add: read_literal_end)
  next
    case (Cons c u)
    show ?thesis
    proof (cases "rune_width s = 0")
      case True
      then show ?thesis
        using Cons 1(1) read_literal_hex(1) [of "of_char c" "quote_body is_print u @ CHR 0x22 # t"]
        by (subst quote_body.simps) (simp add: prepend_def)
    next
      case False
      then show ?thesis
        using 1(2) Cons read_quote_rune [OF False Cons, of is_print "quote_body is_print (drop (rune_width s) s) @ CHR 0x22 # t"]
        by (subst quote_body.simps) (simp add: prepend_def)
    qed
  qed
qed

end
