(* ===== verification/Go_Syntax.thy ===== *)
theory Go_Syntax imports Go_Quote Ovs_Action begin

text \<open>
  Go syntax for matches and actions: \<^verbatim>\<open>codegen.go\<close> and the \<^verbatim>\<open>GoString\<close> methods of \<^verbatim>\<open>match.go\<close> and
  \<^verbatim>\<open>action.go\<close>, which print an expression that rebuilds the value. The second half reads such
  expressions by the rules of Go and shows that they do.
\<close>

section \<open>Printing\<close>

definition hwAddrGoString :: "byte list \<Rightarrow> string" where
  "hwAddrGoString addr = ''net.HardwareAddr{'' @ Join (map (fmt_0x 2) addr) '', '' @ ''}''"

definition ipv4GoString :: "byte list \<Rightarrow> string" where
  "ipv4GoString ip =
     (case To4 ip of
        None \<Rightarrow> ''panic('' @ [CHR 0x22] @ ''invalid IPv4 address'' @ [CHR 0x22] @ '')''
      | Some ip4 \<Rightarrow> ''net.IPv4('' @ Join (map (\<lambda>b. Itoa (uint b)) ip4) '', '' @ '')'')"

text \<open>A call of a function of the package with printed arguments.\<close>

definition ovs_call :: "string \<Rightarrow> string list \<Rightarrow> string" where
  "ovs_call f args = ''ovs.'' @ f @ ''('' @ Join args '', '' @ '')''"

definition dataLinkMatch_GoString :: "(nat \<Rightarrow> bool) \<Rightarrow> string \<Rightarrow> string \<Rightarrow> string" where
  "dataLinkMatch_GoString p srcdst addr =
     (if srcdst = source then ovs_call ''DataLinkSource'' [Quote p addr]
      else ovs_call ''DataLinkDestination'' [Quote p addr])"

definition dataLinkTypeMatch_GoString :: "16 word \<Rightarrow> string" where
  "dataLinkTypeMatch_GoString etherType = ovs_call ''DataLinkType'' [fmt_0x 4 etherType]"

definition dataLinkVLANMatch_GoString :: "int \<Rightarrow> string" where
  "dataLinkVLANMatch_GoString vid =
     (if vid = VLANNone then ovs_call ''DataLinkVLAN'' [''ovs.VLANNone''] else ovs_call ''DataLinkVLAN'' [Itoa vid])"

definition networkMatch_GoString :: "(nat \<Rightarrow> bool) \<Rightarrow> string \<Rightarrow> string \<Rightarrow> string" where
  "networkMatch_GoString p srcdst ip =
     (if srcdst = source then ovs_call ''NetworkSource'' [Quote p ip]
      else ovs_call ''NetworkDestination'' [Quote p ip])"

definition conjunctionIDMatch_GoString :: "32 word \<Rightarrow> string" where
  "conjunctionIDMatch_GoString n = ovs_call ''ConjunctionID'' [fmt_d n]"

definition networkProtocolMatch_GoString :: "8 word \<Rightarrow> string" where
  "networkProtocolMatch_GoString num = ovs_call ''NetworkProtocol'' [fmt_d num]"

definition ipv6Match_GoString :: "(nat \<Rightarrow> bool) \<Rightarrow> string \<Rightarrow> string \<Rightarrow> string" where
  "ipv6Match_GoString p srcdst ip =
     (if srcdst = source then ovs_call ''IPv6Source'' [Quote p ip] else ovs_call ''IPv6Destination'' [Quote p ip])"

definition icmpTypeMatch_GoString :: "8 word \<Rightarrow> string" where
  "icmpTypeMatch_GoString t = ovs_call ''ICMPType'' [fmt_d t]"

definition neighborDiscoveryTargetMatch_GoString :: "(nat \<Rightarrow> bool) \<Rightarrow> string \<Rightarrow> string" where
  "neighborDiscoveryTargetMatch_GoString p ip = ovs_call ''NeighborDiscoveryTarget'' [Quote p ip]"

definition neighborDiscoveryLinkLayerMatch_GoString :: "string \<Rightarrow> byte list \<Rightarrow> string" where
  "neighborDiscoveryLinkLayerMatch_GoString srctgt addr =
     (if srctgt = source then ovs_call ''NeighborDiscoverySourceLinkLayer'' [hwAddrGoString addr]
      else ovs_call ''NeighborDiscoveryTargetLinkLayer'' [hwAddrGoString addr])"

definition arpHardwareAddressMatch_GoString :: "string \<Rightarrow> byte list \<Rightarrow> string" where
  "arpHardwareAddressMatch_GoString srctgt addr =
     (if srctgt = source then ovs_call ''ARPSourceHardwareAddress'' [hwAddrGoString addr]
      else ovs_call ''ARPTargetHardwareAddress'' [hwAddrGoString addr])"

definition arpProtocolAddressMatch_GoString :: "(nat \<Rightarrow> bool) \<Rightarrow> string \<Rightarrow> string \<Rightarrow> string" where
  "arpProtocolAddressMatch_GoString p srctgt ip =
     (if srctgt = source then ovs_call ''ARPSourceProtocolAddress'' [Quote p ip]
      else ovs_call ''ARPTargetProtocolAddress'' [Quote p ip])"

definition transportPortMatch_GoString :: "string \<Rightarrow> 16 word \<Rightarrow> 16 word \<Rightarrow> string" where
  "transportPortMatch_GoString srcdst port msk =
     (if msk > 0 then
        if srcdst = source then ovs_call ''TransportSourceMaskedPort'' [fmt_0x 0 port, fmt_0x 0 msk]
        else ovs_call ''TransportDestinationMaskedPort'' [fmt_0x 0 port, fmt_0x 0 msk]
      else if srcdst = source then ovs_call ''TransportSourcePort'' [fmt_d port]
      else ovs_call ''TransportDestinationPort'' [fmt_d port])"

definition vlanTCIMatch_GoString :: "16 word \<Rightarrow> 16 word \<Rightarrow> string" where
  "vlanTCIMatch_GoString tci msk = ovs_call ''VLANTCI'' [fmt_0x 4 tci, fmt_0x 4 msk]"

definition connectionTrackingMarkMatch_GoString :: "32 word \<Rightarrow> 32 word \<Rightarrow> string" where
  "connectionTrackingMarkMatch_GoString mark msk = ovs_call ''ConnectionTrackingMark'' [fmt_0x 8 mark, fmt_0x 8 msk]"

definition connectionTrackingZoneMatch_GoString :: "16 word \<Rightarrow> string" where
  "connectionTrackingZoneMatch_GoString zone = ovs_call ''ConnectionTrackingZone'' [fmt_d zone]"

definition connectionTrackingMatch_GoString :: "(nat \<Rightarrow> bool) \<Rightarrow> string list \<Rightarrow> string" where
  "connectionTrackingMatch_GoString p state = ovs_call ''ConnectionTrackingState'' (map (Quote p) state)"

definition tcpFlagsMatch_GoString :: "(nat \<Rightarrow> bool) \<Rightarrow> string list \<Rightarrow> string" where
  "tcpFlagsMatch_GoString p flags = ovs_call ''TCPFlags'' (map (Quote p) flags)"

definition tunnelIDMatch_GoString :: "64 word \<Rightarrow> 64 word \<Rightarrow> string" where
  "tunnelIDMatch_GoString n msk =
     (if msk > 0 then ovs_call ''TunnelIDWithMask'' [fmt_0x 0 n, fmt_0x 0 msk] else ovs_call ''TunnelID'' [fmt_0x 0 n])"

fun Match_GoString :: "(nat \<Rightarrow> bool) \<Rightarrow> Match \<Rightarrow> string" where
  "Match_GoString p (dataLinkMatch d addr) = dataLinkMatch_GoString p d addr"
| "Match_GoString p (dataLinkTypeMatch t) = dataLinkTypeMatch_GoString t"
| "Match_GoString p (dataLinkVLANMatch vid) = dataLinkVLANMatch_GoString vid"
| "Match_GoString p (networkMatch d ip) = networkMatch_GoString p d ip"
| "Match_GoString p (conjunctionIDMatch n) = conjunctionIDMatch_GoString n"
| "Match_GoString p (networkProtocolMatch num) = networkProtocolMatch_GoString num"
| "Match_GoString p (ipv6Match d ip) = ipv6Match_GoString p d ip"
| "Match_GoString p (icmpTypeMatch t) = icmpTypeMatch_GoString t"
| "Match_GoString p (neighborDiscoveryTargetMatch ip) = neighborDiscoveryTargetMatch_GoString p ip"
| "Match_GoString p (neighborDiscoveryLinkLayerMatch d addr) = neighborDiscoveryLinkLayerMatch_GoString d addr"
| "Match_GoString p (arpHardwareAddressMatch d addr) = arpHardwareAddressMatch_GoString d addr"
| "Match_GoString p (arpProtocolAddressMatch d ip) = arpProtocolAddressMatch_GoString p d ip"
| "Match_GoString p (transportPortMatch d port msk) = transportPortMatch_GoString d port msk"
| "Match_GoString p (vlanTCIMatch tci msk) = vlanTCIMatch_GoString tci msk"
| "Match_GoString p (connectionTrackingMarkMatch mark msk) = connectionTrackingMarkMatch_GoString mark msk"
| "Match_GoString p (connectionTrackingZoneMatch zone) = connectionTrackingZoneMatch_GoString zone"
| "Match_GoString p (connectionTrackingMatch state) = connectionTrackingMatch_GoString p state"
| "Match_GoString p (tcpFlagsMatch flags) = tcpFlagsMatch_GoString p flags"
| "Match_GoString p (tunnelIDMatch n msk) = tunnelIDMatch_GoString n msk"

definition textAction_GoString :: "(nat \<Rightarrow> bool) \<Rightarrow> string \<Rightarrow> string" where
  "textAction_GoString p action =
     (if action = actionDrop then ovs_call ''Drop'' []
      else if action = actionFlood then ovs_call ''Flood'' []
      else if action = actionInPort then ovs_call ''InPort'' []
      else if action = actionLocal then ovs_call ''Local'' []
      else if action = actionNormal then ovs_call ''Normal'' []
      else if action = actionStripVLAN then ovs_call ''StripVLAN'' []
      else ''// BUG(mdlayher): unimplemented OVS text action: '' @ Quote p action)"

definition ctAction_GoString :: "(nat \<Rightarrow> bool) \<Rightarrow> string \<Rightarrow> string" where
  "ctAction_GoString p args = ovs_call ''ConnectionTracking'' [Quote p args]"

definition modDataLinkAction_GoString :: "string \<Rightarrow> byte list \<Rightarrow> string" where
  "modDataLinkAction_GoString srcdst addr =
     (if srcdst = source then ovs_call ''ModDataLinkSource'' [hwAddrGoString addr]
      else ovs_call ''ModDataLinkDestination'' [hwAddrGoString addr])"

text \<open>A nil address is an empty slice to \<^verbatim>\<open>To4\<close>.\<close>

definition modNetworkAction_GoString :: "string \<Rightarrow> byte list option \<Rightarrow> string" where
  "modNetworkAction_GoString srcdst ip =
     (let a = ipv4GoString (case ip of None \<Rightarrow> [] | Some a \<Rightarrow> a) in
      if srcdst = source then ovs_call ''ModNetworkSource'' [a] else ovs_call ''ModNetworkDestination'' [a])"

definition modTransportPortAction_GoString :: "string \<Rightarrow> 16 word \<Rightarrow> string" where
  "modTransportPortAction_GoString srcdst port =
     (if srcdst = source then ovs_call ''ModTransportSourcePort'' [fmt_d port]
      else ovs_call ''ModTransportDestinationPort'' [fmt_d port])"

definition modVLANVIDAction_GoString :: "int \<Rightarrow> string" where
  "modVLANVIDAction_GoString vid = ovs_call ''ModVLANVID'' [Itoa vid]"

definition outputAction_GoString :: "int \<Rightarrow> string" where
  "outputAction_GoString port = ovs_call ''Output'' [Itoa port]"

definition conjunctionAction_GoString :: "int \<Rightarrow> int \<Rightarrow> int \<Rightarrow> string" where
  "conjunctionAction_GoString n k d = ovs_call ''Conjunction'' [Itoa n, Itoa k, Itoa d]"

definition resubmitAction_GoString :: "int \<Rightarrow> int \<Rightarrow> string" where
  "resubmitAction_GoString port tbl = ovs_call ''Resubmit'' [Itoa port, Itoa tbl]"

definition resubmitPortAction_GoString :: "int \<Rightarrow> string" where
  "resubmitPortAction_GoString port = ovs_call ''ResubmitPort'' [Itoa port]"

definition loadSetFieldAction_GoString :: "(nat \<Rightarrow> bool) \<Rightarrow> string \<Rightarrow> string \<Rightarrow> int \<Rightarrow> string" where
  "loadSetFieldAction_GoString p v field t =
     (if t = actionLoad then ovs_call ''Load'' [Quote p v, Quote p field]
      else ovs_call ''SetField'' [Quote p v, Quote p field])"

definition setTunnelAction_GoString :: "64 word \<Rightarrow> string" where
  "setTunnelAction_GoString tunnelID = ovs_call ''SetTunnel'' [fmt_0x 0 tunnelID]"

fun Action_GoString :: "(nat \<Rightarrow> bool) \<Rightarrow> Action \<Rightarrow> string" where
  "Action_GoString p (textAction action) = textAction_GoString p action"
| "Action_GoString p (ctAction args) = ctAction_GoString p args"
| "Action_GoString p (modDataLinkAction d addr) = modDataLinkAction_GoString d addr"
| "Action_GoString p (modNetworkAction d ip) = modNetworkAction_GoString d ip"
| "Action_GoString p (modTransportPortAction d port) = modTransportPortAction_GoString d port"
| "Action_GoString p (modVLANVIDAction vid) = modVLANVIDAction_GoString vid"
| "Action_GoString p (outputAction port) = outputAction_GoString port"
| "Action_GoString p (conjunctionAction n k d) = conjunctionAction_GoString n k d"
| "Action_GoString p (resubmitAction port tbl) = resubmitAction_GoString port tbl"
| "Action_GoString p (resubmitPortAction port) = resubmitPortAction_GoString port"
| "Action_GoString p (loadSetFieldAction v field t) = loadSetFieldAction_GoString p v field t"
| "Action_GoString p (setTunnelAction tunnelID) = setTunnelAction_GoString tunnelID"

lemmas match_go_strings = dataLinkMatch_GoString_def dataLinkTypeMatch_GoString_def dataLinkVLANMatch_GoString_def
  networkMatch_GoString_def conjunctionIDMatch_GoString_def networkProtocolMatch_GoString_def ipv6Match_GoString_def
  icmpTypeMatch_GoString_def neighborDiscoveryTargetMatch_GoString_def neighborDiscoveryLinkLayerMatch_GoString_def
  arpHardwareAddressMatch_GoString_def arpProtocolAddressMatch_GoString_def transportPortMatch_GoString_def
  vlanTCIMatch_GoString_def connectionTrackingMarkMatch_GoString_def connectionTrackingZoneMatch_GoString_def
  connectionTrackingMatch_GoString_def tcpFlagsMatch_GoString_def tunnelIDMatch_GoString_def

lemmas action_go_strings = textAction_GoString_def ctAction_GoString_def modDataLinkAction_GoString_def
  modNetworkAction_GoString_def modTransportPortAction_GoString_def modVLANVIDAction_GoString_def
  outputAction_GoString_def conjunctionAction_GoString_def resubmitAction_GoString_def resubmitPortAction_GoString_def
  loadSetFieldAction_GoString_def setTunnelAction_GoString_def


section \<open>Reading Go expressions\<close>

text \<open>
  The expressions above in Go: a call of a function of the package on constants, where integer
  constants must fit the parameter's type.
\<close>

datatype go_value = GInt int | GStr string | GBytes "byte list" | GIPv4 "byte list"

definition go_int :: "string \<Rightarrow> int option" where
  "go_int t =
     (case (if HasPrefix t ''0x'' then map_result int (ParseUint t 0 64) else ParseInt t 10 0) of
        Ok i \<Rightarrow> Some i | _ \<Rightarrow> None)"

definition read_int :: "string \<Rightarrow> (int \<times> string) option" where
  "read_int s =
     (let t = takeWhile (\<lambda>c. c \<in> set number_chars) s in map_option (\<lambda>i. (i, drop (length t) s)) (go_int t))"

definition const_word :: "int \<Rightarrow> 'a::len word option" where
  "const_word i = (if 0 \<le> i \<and> i < 2 ^ LENGTH('a) then Some (word_of_int i) else None)"

definition read_byte :: "string \<Rightarrow> (byte \<times> string) option" where
  "read_byte s = Option.bind (read_int s) (\<lambda>(i, t). map_option (\<lambda>b. (b, t)) (const_word i))"

function read_items :: "(string \<Rightarrow> ('a \<times> string) option) \<Rightarrow> char \<Rightarrow> string \<Rightarrow> ('a list \<times> string) option" where
  "read_items item close s =
     (case item s of
        None \<Rightarrow> None
      | Some (x, t) \<Rightarrow>
          if HasPrefix t [close] then Some ([x], drop 1 t)
          else if HasPrefix t '', '' \<and> length t \<le> length s
          then map_option (\<lambda>(xs, u). (x # xs, u)) (read_items item close (drop 2 t))
          else None)"
  by pat_completeness auto
termination
  by (relation "measure (\<lambda>(_, _, s). length s)") (auto simp: HasPrefix_iff)

declare read_items.simps [simp del]

definition read_list :: "(string \<Rightarrow> ('a \<times> string) option) \<Rightarrow> char \<Rightarrow> string \<Rightarrow> ('a list \<times> string) option" where
  "read_list item close s = (if HasPrefix s [close] then Some ([], drop 1 s) else read_items item close s)"

definition read_value :: "string \<Rightarrow> (go_value \<times> string) option" where
  "read_value s =
     (if HasPrefix s [CHR 0x22] then map_option (\<lambda>(v, t). (GStr v, t)) (read_literal (drop 1 s))
      else if HasPrefix s ''net.HardwareAddr{'' then
        map_option (\<lambda>(bs, t). (GBytes bs, t)) (read_list read_byte (CHR ''}'') (drop 17 s))
      else if HasPrefix s ''net.IPv4('' then
        map_option (\<lambda>(bs, t). (GIPv4 bs, t)) (read_list read_byte (CHR '')'') (drop 9 s))
      else if HasPrefix s ''ovs.VLANNone'' then Some (GInt VLANNone, drop 12 s)
      else map_option (\<lambda>(i, t). (GInt i, t)) (read_int s))"

definition read_call :: "string \<Rightarrow> (string \<times> go_value list) option" where
  "read_call s =
     (let f = takeWhile (\<lambda>c. c \<noteq> CHR ''('') (drop 4 s) in
      if HasPrefix s ''ovs.'' \<and> HasPrefix (drop (4 + length f) s) ''('' then
        case read_list read_value (CHR '')'') (drop (5 + length f) s) of
          Some (args, []) \<Rightarrow> Some (f, args)
        | _ \<Rightarrow> None
      else None)"

subsection \<open>Printed values are read\<close>

definition item_end :: "string \<Rightarrow> bool" where
  "item_end t \<longleftrightarrow> t \<noteq> [] \<and> hd t \<in> {CHR '','', CHR '')'', CHR ''}''}"

definition reads :: "(string \<Rightarrow> ('a \<times> string) option) \<Rightarrow> string \<Rightarrow> 'a \<Rightarrow> bool" where
  "reads item text x \<longleftrightarrow> (\<forall>t. item_end t \<longrightarrow> item (text @ t) = Some (x, t))"

lemma readsD: "reads item w x \<Longrightarrow> item_end t \<Longrightarrow> item (w @ t) = Some (x, t)"
  by (simp add: reads_def)

lemma read_items_Join:
  assumes "list_all2 (reads item) ws xs" "xs \<noteq> []" "close \<in> {CHR '')'', CHR ''}''}"
  shows "read_items item close (Join ws '', '' @ close # t) = Some (xs, t)"
  using assms(1,2)
proof (induction ws xs rule: list_all2_induct)
  case (Cons w ws x xs)
  show ?case
  proof (cases "xs = []")
    case True
    then have "ws = []" using Cons.hyps by simp
    moreover have "item_end (close # t)" using assms(3) by (auto simp: item_end_def)
    ultimately show ?thesis
      using True readsD [OF Cons.hyps(1)] by (subst read_items.simps) (simp add: HasPrefix_iff)
  next
    case False
    then obtain u us where ws: "ws = u # us" using Cons.hyps by (cases ws) auto
    have j: "Join (w # ws) '', '' @ close # t = w @ '', '' @ Join ws '', '' @ close # t"
      by (simp add: ws)
    have "item_end ('', '' @ Join ws '', '' @ close # t)" by (simp add: item_end_def)
    then have "item (Join (w # ws) '', '' @ close # t) = Some (x, '', '' @ Join ws '', '' @ close # t)"
      unfolding j by (rule readsD [OF Cons.hyps(1)])
    then show ?thesis
      using Cons.IH [OF False] assms(3) by (subst read_items.simps) (auto simp: HasPrefix_iff j)
  qed
qed simp


lemma read_list_Join:
  assumes "list_all2 (reads item) ws xs" "\<forall>w \<in> set ws. w \<noteq> [] \<and> hd w \<noteq> close" "close \<in> {CHR '')'', CHR ''}''}"
  shows "read_list item close (Join ws '', '' @ close # t) = Some (xs, t)"
proof (cases ws)
  case Nil
  then show ?thesis using assms(1) by (simp add: read_list_def HasPrefix_iff)
next
  case (Cons w us)
  then have "xs \<noteq> []" using assms(1) by auto
  moreover obtain c v where w: "w = c # v" "c \<noteq> close" using assms(2) Cons by (cases w) auto
  then have "\<not> HasPrefix (Join ws '', '' @ close # t) [close]"
    by (cases us) (simp_all add: HasPrefix_iff Cons)
  ultimately show ?thesis using read_items_Join [OF assms(1) _ assms(3)] by (simp add: read_list_def)
qed

lemma number_read:
  assumes "set w \<subseteq> set number_chars" "go_int w = Some i"
  shows "reads read_int w i"
  unfolding reads_def
proof (intro allI impI)
  fix t assume "item_end t"
  then have "takeWhile (\<lambda>c. c \<in> set number_chars) t = []"
    by (cases t) (auto simp: item_end_def number_chars_def hex_digits_def)
  then have "takeWhile (\<lambda>c. c \<in> set number_chars) (w @ t) = w"
    using assms(1) by (subst takeWhile_append2) auto
  then show "read_int (w @ t) = Some (i, t)" using assms(2) by (simp add: read_int_def)
qed

lemma go_int_Itoa:
  assumes "int64 i"
  shows "go_int (Itoa i) = Some i"
proof -
  have "CHR ''x'' \<notin> set (Itoa i)" using set_Itoa [of i] by (auto simp: dec_digits_def)
  then have "\<not> HasPrefix (Itoa i) ''0x''" by (auto simp: HasPrefix_iff)
  then show ?thesis using ParseInt_Itoa [OF assms] by (simp add: go_int_def)
qed

lemma go_int_fmt_0x: "LENGTH('a) \<le> 64 \<Longrightarrow> go_int (fmt_0x k (w :: 'a::len word)) = Some (uint w)"
proof -
  assume "LENGTH('a) \<le> 64"
  then have "unat w < 2 ^ 64" using unsigned_less [of w, where ?'a = nat] power_increasing [of "LENGTH('a)" 64 "2 :: nat"] by linarith
  then show ?thesis using ParseUint_0x [of 64 "unat w" k] by (simp add: go_int_def fmt_0x_def HasPrefix_iff)
qed

lemma fmt_d_Itoa: "fmt_d w = Itoa (uint w)"
  by (simp add: fmt_d_def Itoa_def nat_uint_eq not_less)

lemma int64_uint:
  assumes "LENGTH('a) \<le> 32"
  shows "int64 (uint (w :: 'a::len word))"
proof -
  have "uint w < 2 ^ 32" using uint_bounded [of w] power_increasing [of "LENGTH('a)" 32 "2 :: int"] assms by linarith
  moreover have "- (2 ^ 63) \<le> uint w" by (rule order_trans [of _ 0]) simp_all
  ultimately show ?thesis by (simp add: int64_def)
qed

lemma go_int_fmt_d:
  assumes "LENGTH('a) \<le> 32"
  shows "go_int (fmt_d (w :: 'a::len word)) = Some (uint w)"
  unfolding fmt_d_Itoa by (rule go_int_Itoa [OF int64_uint [OF assms]])

lemma const_word_uint: "const_word (uint w) = Some w"
  by (simp add: const_word_def)

lemma byte_read:
  "reads read_byte (fmt_0x k b) b" "reads read_byte (Itoa (uint b)) b"
proof -
  have "reads read_int (fmt_0x k b) (uint b)" by (intro number_read number_texts go_int_fmt_0x) simp
  then show "reads read_byte (fmt_0x k b) b" by (simp add: reads_def read_byte_def const_word_uint)
  have "int64 (uint b)" by (rule int64_uint) simp
  then have "reads read_int (Itoa (uint b)) (uint b)" by (intro number_read number_texts go_int_Itoa)
  then show "reads read_byte (Itoa (uint b)) b" by (simp add: reads_def read_byte_def const_word_uint)
qed

text \<open>Values as arguments: text and value.\<close>

lemma value_int:
  assumes "set w \<subseteq> set number_chars" "go_int w = Some i" "w \<noteq> []"
  shows "reads read_value w (GInt i)"
  unfolding reads_def
proof (intro allI impI)
  fix t assume t: "item_end t"
  obtain c v where w: "w = c # v" "c \<in> set number_chars" using assms(1,3) by (cases w) auto
  then have "c \<noteq> CHR 0x22" "c \<noteq> CHR ''n''" "c \<noteq> CHR ''o''" by (auto simp: number_chars_def hex_digits_def)
  then show "read_value (w @ t) = Some (GInt i, t)"
    using readsD [OF number_read [OF assms(1,2)] t] by (simp add: read_value_def w HasPrefix_Cons)
qed

lemma value_numbers:
  "int64 i \<Longrightarrow> reads read_value (Itoa i) (GInt i)"
  "LENGTH('a) \<le> 64 \<Longrightarrow> reads read_value (fmt_0x k (v :: 'a::len word)) (GInt (uint v))"
  "LENGTH('a) \<le> 32 \<Longrightarrow> reads read_value (fmt_d (v :: 'a::len word)) (GInt (uint v))"
  by (intro value_int number_texts go_int_Itoa go_int_fmt_0x go_int_fmt_d; simp)+

lemma value_string: "reads read_value (Quote p v) (GStr v)"
  by (simp add: reads_def read_value_def Quote_def HasPrefix_iff read_quote_body)

lemma value_hwAddr: "reads read_value (hwAddrGoString a) (GBytes a)"
proof -
  have "list_all2 (reads read_byte) (map (fmt_0x 2) a) a" by (simp add: list_all2_map1 list.rel_refl byte_read)
  moreover have "\<forall>w \<in> set (map (fmt_0x 2) a). w \<noteq> [] \<and> hd w \<noteq> CHR ''}''" by (auto simp: fmt_0x_def)
  ultimately have "read_list read_byte (CHR ''}'') (Join (map (fmt_0x 2) a) '', '' @ CHR ''}'' # t) = Some (a, t)" for t
    by (rule read_list_Join) simp
  then show ?thesis by (simp add: reads_def read_value_def hwAddrGoString_def HasPrefix_iff)
qed

lemma value_ipv4:
  assumes "length a = 4"
  shows "reads read_value (ipv4GoString a) (GIPv4 a)"
proof -
  have "list_all2 (reads read_byte) (map (\<lambda>b. Itoa (uint b)) a) a" by (simp add: list_all2_map1 list.rel_refl byte_read)
  moreover have "hd (Itoa i) \<noteq> CHR '')''" for i
    using set_Itoa [of i] Itoa_nonempty [of i] by (cases "Itoa i") (auto simp: dec_digits_def)
  then have "\<forall>w \<in> set (map (\<lambda>b :: byte. Itoa (uint b)) a). w \<noteq> [] \<and> hd w \<noteq> CHR '')''" by auto
  ultimately have "read_list read_byte (CHR '')'') (Join (map (\<lambda>b. Itoa (uint b)) a) '', '' @ CHR '')'' # t) = Some (a, t)" for t
    by (rule read_list_Join) simp
  then show ?thesis using assms by (simp add: reads_def read_value_def ipv4GoString_def To4_def HasPrefix_iff)
qed

lemma value_VLANNone: "reads read_value ''ovs.VLANNone'' (GInt VLANNone)"
  by (simp add: reads_def read_value_def HasPrefix_iff)

text \<open>Texts of values do not start with the parenthesis that ends an argument list.\<close>

lemma value_start: "reads read_value w v \<Longrightarrow> w \<noteq> [] \<and> hd w \<noteq> CHR '')''"
proof -
  assume r: "reads read_value w v"
  have e: "item_end '')''" by (simp add: item_end_def)
  have n: "read_value ('')'' @ t) = None" for t
  proof -
    have "go_int [] = None" by code_simp
    then show ?thesis by (simp add: read_value_def read_int_def HasPrefix_Cons number_chars_def hex_digits_def)
  qed
  show ?thesis using readsD [OF r e] n [of "tl w @ '')''"] n [of "[]"] by (cases w) auto
qed

lemma read_call_ovs:
  assumes "list_all2 (reads read_value) ws vs" "CHR ''('' \<notin> set f"
  shows "read_call (ovs_call f ws) = Some (f, vs)"
proof -
  have t: "takeWhile (\<lambda>c. c \<noteq> CHR ''('') (f @ CHR ''('' # u) = f" for u
    using assms(2) by (subst takeWhile_append2) auto
  have "\<forall>w \<in> set ws. w \<noteq> [] \<and> hd w \<noteq> CHR '')''"
    using assms(1) value_start by (metis in_set_conv_nth list_all2_conv_all_nth)
  from read_list_Join [OF assms(1) this, of "[]"]
  have r: "read_list read_value (CHR '')'') (Join ws '', '' @ '')'') = Some (vs, [])" by simp
  have d: "drop 4 (ovs_call f ws) = f @ CHR ''('' # Join ws '', '' @ '')''" by (simp add: ovs_call_def)
  have "drop (4 + length f) (ovs_call f ws) = CHR ''('' # Join ws '', '' @ '')''"
    "drop (5 + length f) (ovs_call f ws) = Join ws '', '' @ '')''"
    using arg_cong [OF d, of "drop (length f)"] arg_cong [OF d, of "drop (Suc (length f))"] by (simp_all add: add.commute)
  then show ?thesis using r by (simp add: read_call_def d t) (simp add: ovs_call_def HasPrefix_iff)
qed


subsection \<open>What the calls build\<close>

fun go_string :: "go_value list \<Rightarrow> string option" where
  "go_string [GStr v] = Some v"
| "go_string _ = None"

fun go_strings :: "go_value list \<Rightarrow> string list option" where
  "go_strings [] = Some []"
| "go_strings (GStr v # vs) = map_option ((#) v) (go_strings vs)"
| "go_strings _ = None"

fun go_word :: "go_value list \<Rightarrow> 'a::len word option" where
  "go_word [GInt i] = const_word i"
| "go_word _ = None"

fun go_word2 :: "go_value list \<Rightarrow> ('a::len word \<times> 'a word) option" where
  "go_word2 [GInt i, GInt j] = Option.bind (const_word i) (\<lambda>v. map_option (\<lambda>w. (v, w)) (const_word j))"
| "go_word2 _ = None"

fun go_ints :: "go_value list \<Rightarrow> int list option" where
  "go_ints [] = Some []"
| "go_ints (GInt i # vs) = (if int64 i then map_option ((#) i) (go_ints vs) else None)"
| "go_ints _ = None"

fun go_bytes :: "go_value list \<Rightarrow> byte list option" where
  "go_bytes [GBytes bs] = Some bs"
| "go_bytes _ = None"

text \<open>\<^verbatim>\<open>net.IPv4\<close> makes an address of sixteen bytes.\<close>

fun go_ip :: "go_value list \<Rightarrow> byte list option" where
  "go_ip [GIPv4 bs] = (if length bs = 4 then Some (v4InV6Prefix @ bs) else None)"
| "go_ip _ = None"

definition string_matches :: "(string \<times> (string \<Rightarrow> Match)) list" where
  "string_matches =
     [(''DataLinkSource'', DataLinkSource), (''DataLinkDestination'', DataLinkDestination),
      (''NetworkSource'', NetworkSource), (''NetworkDestination'', NetworkDestination),
      (''IPv6Source'', IPv6Source), (''IPv6Destination'', IPv6Destination),
      (''NeighborDiscoveryTarget'', NeighborDiscoveryTarget),
      (''ARPSourceProtocolAddress'', ARPSourceProtocolAddress), (''ARPTargetProtocolAddress'', ARPTargetProtocolAddress)]"

definition bytes_matches :: "(string \<times> (byte list \<Rightarrow> Match)) list" where
  "bytes_matches =
     [(''NeighborDiscoverySourceLinkLayer'', NeighborDiscoverySourceLinkLayer),
      (''NeighborDiscoveryTargetLinkLayer'', NeighborDiscoveryTargetLinkLayer),
      (''ARPSourceHardwareAddress'', ARPSourceHardwareAddress), (''ARPTargetHardwareAddress'', ARPTargetHardwareAddress)]"

definition match_call :: "string \<Rightarrow> go_value list \<Rightarrow> Match option" where
  "match_call f args =
     (case map_of string_matches f of
        Some g \<Rightarrow> map_option g (go_string args)
      | None \<Rightarrow>
     (case map_of bytes_matches f of
        Some g \<Rightarrow> map_option g (go_bytes args)
      | None \<Rightarrow>
      if f = ''DataLinkType'' then map_option DataLinkType (go_word args)
      else if f = ''DataLinkVLAN'' then
        (case go_ints args of Some [i] \<Rightarrow> Some (DataLinkVLAN i) | _ \<Rightarrow> None)
      else if f = ''ConjunctionID'' then map_option ConjunctionID (go_word args)
      else if f = ''NetworkProtocol'' then map_option NetworkProtocol (go_word args)
      else if f = ''ICMPType'' then map_option ICMPType (go_word args)
      else if f = ''TransportSourcePort'' then map_option TransportSourcePort (go_word args)
      else if f = ''TransportDestinationPort'' then map_option TransportDestinationPort (go_word args)
      else if f = ''TransportSourceMaskedPort'' then map_option (case_prod TransportSourceMaskedPort) (go_word2 args)
      else if f = ''TransportDestinationMaskedPort'' then
        map_option (case_prod TransportDestinationMaskedPort) (go_word2 args)
      else if f = ''VLANTCI'' then map_option (case_prod VLANTCI) (go_word2 args)
      else if f = ''ConnectionTrackingMark'' then map_option (case_prod ConnectionTrackingMark) (go_word2 args)
      else if f = ''ConnectionTrackingZone'' then map_option ConnectionTrackingZone (go_word args)
      else if f = ''ConnectionTrackingState'' then map_option ConnectionTrackingState (go_strings args)
      else if f = ''TCPFlags'' then map_option TCPFlags (go_strings args)
      else if f = ''TunnelID'' then map_option TunnelID (go_word args)
      else if f = ''TunnelIDWithMask'' then map_option (case_prod TunnelIDWithMask) (go_word2 args)
      else None))"

definition text_actions :: "(string \<times> Action) list" where
  "text_actions =
     [(''Drop'', Drop), (''Flood'', Flood), (''InPort'', InPort), (''Local'', Local), (''Normal'', Normal),
      (''StripVLAN'', StripVLAN)]"

definition action_call :: "string \<Rightarrow> go_value list \<Rightarrow> Action option" where
  "action_call f args =
     (case map_of text_actions f of
        Some a \<Rightarrow> if args = [] then Some a else None
      | None \<Rightarrow>
      if f = ''ConnectionTracking'' then map_option ConnectionTracking (go_string args)
      else if f = ''ModDataLinkSource'' then map_option ModDataLinkSource (go_bytes args)
      else if f = ''ModDataLinkDestination'' then map_option ModDataLinkDestination (go_bytes args)
      else if f = ''ModNetworkSource'' then map_option ModNetworkSource (go_ip args)
      else if f = ''ModNetworkDestination'' then map_option ModNetworkDestination (go_ip args)
      else if f = ''ModTransportSourcePort'' then map_option ModTransportSourcePort (go_word args)
      else if f = ''ModTransportDestinationPort'' then map_option ModTransportDestinationPort (go_word args)
      else if f = ''ModVLANVID'' then (case go_ints args of Some [i] \<Rightarrow> Some (ModVLANVID i) | _ \<Rightarrow> None)
      else if f = ''Output'' then (case go_ints args of Some [i] \<Rightarrow> Some (Output i) | _ \<Rightarrow> None)
      else if f = ''Conjunction'' then
        (case go_ints args of Some [n, k, d] \<Rightarrow> Some (Conjunction n k d) | _ \<Rightarrow> None)
      else if f = ''Resubmit'' then (case go_ints args of Some [i, j] \<Rightarrow> Some (Resubmit i j) | _ \<Rightarrow> None)
      else if f = ''ResubmitPort'' then (case go_ints args of Some [i] \<Rightarrow> Some (ResubmitPort i) | _ \<Rightarrow> None)
      else if f = ''SetField'' then (case go_strings args of Some [v, w] \<Rightarrow> Some (SetField v w) | _ \<Rightarrow> None)
      else if f = ''Load'' then (case go_strings args of Some [v, w] \<Rightarrow> Some (Load v w) | _ \<Rightarrow> None)
      else if f = ''SetTunnel'' then map_option SetTunnel (go_word args)
      else None)"

definition go_eval :: "(string \<Rightarrow> go_value list \<Rightarrow> 'a option) \<Rightarrow> string \<Rightarrow> 'a option" where
  "go_eval call s = Option.bind (read_call s) (\<lambda>(f, args). call f args)"

lemma go_eval_ovs:
  "list_all2 (reads read_value) ws vs \<Longrightarrow> CHR ''('' \<notin> set f \<Longrightarrow> go_eval call (ovs_call f ws) = call f vs"
  by (simp add: go_eval_def read_call_ovs)

lemma go_eval_args:
  assumes "CHR ''('' \<notin> set f"
  shows "go_eval call (ovs_call f []) = call f []"
    "go_eval call (ovs_call f [Quote p v]) = call f [GStr v]"
    "go_eval call (ovs_call f [Quote p v, Quote p w]) = call f [GStr v, GStr w]"
    "go_eval call (ovs_call f (map (Quote p) vs)) = call f (map GStr vs)"
    "go_eval call (ovs_call f [hwAddrGoString a]) = call f [GBytes a]"
    "go_eval call (ovs_call f [''ovs.VLANNone'']) = call f [GInt VLANNone]"
    "length ip = 4 \<Longrightarrow> go_eval call (ovs_call f [ipv4GoString ip]) = call f [GIPv4 ip]"
    "int64 i \<Longrightarrow> go_eval call (ovs_call f [Itoa i]) = call f [GInt i]"
    "int64 i \<Longrightarrow> int64 j \<Longrightarrow> go_eval call (ovs_call f [Itoa i, Itoa j]) = call f [GInt i, GInt j]"
    "int64 i \<Longrightarrow> int64 j \<Longrightarrow> int64 k \<Longrightarrow>
      go_eval call (ovs_call f [Itoa i, Itoa j, Itoa k]) = call f [GInt i, GInt j, GInt k]"
    "LENGTH('a) \<le> 64 \<Longrightarrow> go_eval call (ovs_call f [fmt_0x m (x :: 'a::len word)]) = call f [GInt (uint x)]"
    "LENGTH('a) \<le> 64 \<Longrightarrow>
      go_eval call (ovs_call f [fmt_0x m (x :: 'a::len word), fmt_0x m (y :: 'a word)]) = call f [GInt (uint x), GInt (uint y)]"
    "LENGTH('a) \<le> 32 \<Longrightarrow> go_eval call (ovs_call f [fmt_d (x :: 'a::len word)]) = call f [GInt (uint x)]"
  by (rule go_eval_ovs [OF _ assms];
      simp add: value_string value_hwAddr value_VLANNone value_ipv4 value_numbers list_all2_map1 list_all2_map2 list.rel_refl)+

lemma go_strings_map: "go_strings (map GStr vs) = Some vs"
  by (induction vs) simp_all


text \<open>
  The matches that the exported constructors build, and the actions that do not lack an address: \<open>constructed_action\<close> below
  has every action of the constructors.
\<close>

fun built_match :: "Match \<Rightarrow> bool" where
  "built_match (dataLinkMatch d _) = (d \<in> {source, destination})"
| "built_match (dataLinkVLANMatch vid) = int64 vid"
| "built_match (networkMatch d _) = (d \<in> {source, destination})"
| "built_match (ipv6Match d _) = (d \<in> {source, destination})"
| "built_match (neighborDiscoveryLinkLayerMatch d _) = (d \<in> {source, destination})"
| "built_match (arpHardwareAddressMatch d _) = (d \<in> {source, destination})"
| "built_match (arpProtocolAddressMatch d _) = (d \<in> {source, destination})"
| "built_match (transportPortMatch d _ _) = (d \<in> {source, destination})"
| "built_match _ = True"

fun built_action :: "Action \<Rightarrow> bool" where
  "built_action (textAction t) = (t \<in> {actionDrop, actionFlood, actionInPort, actionLocal, actionNormal, actionStripVLAN})"
| "built_action (modDataLinkAction d _) = (d \<in> {source, destination})"
| "built_action (modNetworkAction d ip) = (d \<in> {source, destination} \<and> (case ip of None \<Rightarrow> False | Some a \<Rightarrow> length a = 4))"
| "built_action (modTransportPortAction d _) = (d \<in> {source, destination})"
| "built_action (modVLANVIDAction vid) = int64 vid"
| "built_action (outputAction port) = int64 port"
| "built_action (conjunctionAction n k d) = (int64 n \<and> int64 k \<and> int64 d)"
| "built_action (resubmitAction port tbl) = (int64 port \<and> int64 tbl)"
| "built_action (resubmitPortAction port) = int64 port"
| "built_action (loadSetFieldAction _ _ t) = (t \<in> {actionSetField, actionLoad})"
| "built_action _ = True"

lemmas match_call_simps = match_call_def string_matches_def bytes_matches_def match_constructors go_strings_map const_word_uint
lemmas action_call_simps = action_call_def text_actions_def action_constructors const_word_uint

lemma source_not_destination: "source \<noteq> destination" "destination \<noteq> source"
  by (simp_all add: source_def destination_def)

lemma To4_IPv4: "length a = 4 \<Longrightarrow> To4 (v4InV6Prefix @ a) = Some a"
  by (simp add: To4_def v4InV6Prefix_def)

lemma VLANNone_int64: "int64 VLANNone"
  by (simp add: VLANNone_def int64_def)

lemma match_rebuilds:
  assumes "built_match m"
  shows "go_eval match_call (Match_GoString is_print m) = Some m"
  using assms
  by (cases m) (auto simp: match_go_strings go_eval_args match_call_simps source_not_destination VLANNone_int64
      word_gt_0)

text \<open>
  C26: the Go syntax of a match rebuilds it. For every match an exported constructor can build, \<^verbatim>\<open>GoString\<close> prints
  a call of a constructor on constants that, read by the rules of Go, gives the match itself,
  whatever bytes its strings contain and whichever runes count as printable.
\<close>

theorem Match_GoString_rebuilds:
  assumes "built_match m"
  shows "go_eval match_call (Match_GoString is_print m) = Some m"
  using assms by (rule match_rebuilds)

theorem Match_GoString_rebuilds_witness:
  "go_eval match_call (Match_GoString (\<lambda>_. False) (ConnectionTrackingState [SetState ''trk'', [CHR 0x22, CHR 0xFF, CHR 0x0A]])) =
     Some (ConnectionTrackingState [SetState ''trk'', [CHR 0x22, CHR 0xFF, CHR 0x0A]])"
  using Match_GoString_rebuilds [of "ConnectionTrackingState [SetState ''trk'', [CHR 0x22, CHR 0xFF, CHR 0x0A]]" "\<lambda>_. False"]
  by (simp add: ConnectionTrackingState_def)

lemma action_rebuilds:
  assumes "built_action a"
  shows "go_eval action_call (Action_GoString is_print a) = Some a"
  using assms
  by (cases a) (auto simp: action_go_strings go_eval_args action_call_simps source_not_destination To4_IPv4
      action_names Let_def actionSetField_def actionLoad_def split: option.splits)

text \<open>
  The actions that the exported constructors build from arguments of their Go types. \<^verbatim>\<open>ModNetworkSource\<close> and
  \<^verbatim>\<open>ModNetworkDestination\<close> take any address and keep \<^verbatim>\<open>ip.To4()\<close>, which is nil unless it is an IPv4 address.
\<close>

inductive constructed_action :: "Action \<Rightarrow> bool" where
  "a \<in> {Drop, Flood, InPort, Local, Normal, StripVLAN} \<Longrightarrow> constructed_action a"
| "constructed_action (ConnectionTracking args)"
| "constructed_action (ModDataLinkDestination addr)"
| "constructed_action (ModDataLinkSource addr)"
| "constructed_action (ModNetworkDestination ip)"
| "constructed_action (ModNetworkSource ip)"
| "constructed_action (ModTransportDestinationPort port)"
| "constructed_action (ModTransportSourcePort port)"
| "int64 vid \<Longrightarrow> constructed_action (ModVLANVID vid)"
| "int64 n \<Longrightarrow> constructed_action (Output n)"
| "int64 n \<Longrightarrow> int64 k \<Longrightarrow> int64 d \<Longrightarrow> constructed_action (Conjunction n k d)"
| "int64 n \<Longrightarrow> int64 tbl \<Longrightarrow> constructed_action (Resubmit n tbl)"
| "int64 n \<Longrightarrow> constructed_action (ResubmitPort n)"
| "constructed_action (SetField v field)"
| "constructed_action (Load v field)"
| "constructed_action (SetTunnel tunnelID)"

lemma constructed_built:
  assumes "constructed_action a"
  shows "built_action a \<or> a = modNetworkAction source None \<or> a = modNetworkAction destination None"
  using assms by cases (auto simp: action_constructors To4_def split: if_splits)

text \<open>The text printed for a missing address is no constant of Go.\<close>

definition no_address :: string where
  "no_address = ''panic('' @ [CHR 0x22] @ ''invalid IPv4 address'' @ [CHR 0x22] @ '')''"

lemma no_address_unread: "go_eval call (ovs_call ''ModNetworkSource'' [no_address]) = None"
  "go_eval call (ovs_call ''ModNetworkDestination'' [no_address]) = None"
proof -
  have "go_int [] = None" by code_simp
  then have v: "read_value (no_address @ t) = None" for t
    by (simp add: no_address_def read_value_def read_int_def HasPrefix_Cons number_chars_def hex_digits_def)
  have "read_list read_value (CHR '')'') (no_address @ t) = None" for t
    using v by (simp add: read_list_def read_items.simps HasPrefix_iff no_address_def)
  then show "go_eval call (ovs_call ''ModNetworkSource'' [no_address]) = None"
    "go_eval call (ovs_call ''ModNetworkDestination'' [no_address]) = None"
    by (simp_all add: go_eval_def read_call_def ovs_call_def)
qed

lemma nil_GoString:
  "Action_GoString is_print (modNetworkAction source None) = ovs_call ''ModNetworkSource'' [no_address]"
  "Action_GoString is_print (modNetworkAction destination None) = ovs_call ''ModNetworkDestination'' [no_address]"
  by (simp_all add: modNetworkAction_GoString_def ipv4GoString_def To4_def no_address_def source_not_destination)

text \<open>
  C25: the Go syntax of an action rebuilds it, unless it lacks an address. For every action an exported constructor
  can build, \<^verbatim>\<open>GoString\<close> prints a call of a constructor on constants that, read by the rules of Go, gives the action
  itself, whatever bytes its strings contain and whichever runes count as printable; the exceptions are
  \<^verbatim>\<open>ModNetworkSource\<close> and \<^verbatim>\<open>ModNetworkDestination\<close> of what is no IPv4 address: there the argument printed is a call of
  \<^verbatim>\<open>panic\<close>, and the call has no value.
\<close>

theorem Action_GoString_rebuilds:
  assumes "constructed_action a"
  shows "if a = modNetworkAction source None
    then Action_GoString is_print a = ovs_call ''ModNetworkSource'' [no_address] \<and> go_eval action_call (Action_GoString is_print a) = None
    else if a = modNetworkAction destination None
    then Action_GoString is_print a = ovs_call ''ModNetworkDestination'' [no_address] \<and> go_eval action_call (Action_GoString is_print a) = None
    else go_eval action_call (Action_GoString is_print a) = Some a"
  using constructed_built [OF assms] action_rebuilds [of a is_print]
  by (auto simp: no_address_unread nil_GoString source_not_destination simp del: Action_GoString.simps)

theorem Action_GoString_rebuilds_witness:
  "go_eval action_call (Action_GoString (\<lambda>_. True) (ModNetworkSource [192, 168, 0, 1])) =
     Some (ModNetworkSource [192, 168, 0, 1]) \<and>
   go_eval action_call (Action_GoString (\<lambda>_. True) (ModNetworkSource [])) = None"
  using Action_GoString_rebuilds [OF constructed_action.intros(6), of "[192, 168, 0, 1]" "\<lambda>_. True"]
    Action_GoString_rebuilds [OF constructed_action.intros(6), of "[]" "\<lambda>_. True"]
  by (auto simp: ModNetworkSource_def To4_def simp del: Action_GoString.simps)

end
