(* ===== verification/Ovsh.thy ===== *)
theory Ovsh
  imports Prelude
begin

text \<open>
  \<^verbatim>\<open>ovsnl/internal/ovsh\<close>: the constants and structures of \<^verbatim>\<open>openvswitch.h\<close>. An enumeration is a datatype
  with the members of its block, numbered as there; the constant that ends an enumeration
  (\<^verbatim>\<open>__DpAttrMax\<close>) carries a prime instead of the underscores (\<open>DpAttrMax'\<close>) and stands outside of
  the datatype, as no message carries it. The locale \<open>numbering\<close> states what the users of an
  enumeration rely on.
\<close>

unbundle bit_operations_syntax

section \<open>Structures\<close>

record Header =
  Ifindex :: "32 word"  \<comment> \<open>int32\<close>

record DPStats =
  dps_Hit :: "64 word"
  dps_Missed :: "64 word"
  dps_Lost :: "64 word"
  dps_Flows :: "64 word"

record DPMegaflowStats =
  Mask_hit :: "64 word"
  dpm_Masks :: "32 word"
  Pad0 :: "32 word"
  Pad1 :: "64 word"
  Pad2 :: "64 word"

record VportStats =
  Rx_packets :: "64 word"
  Tx_packets :: "64 word"
  Rx_bytes :: "64 word"
  Tx_bytes :: "64 word"
  Rx_errors :: "64 word"
  Tx_errors :: "64 word"
  Rx_dropped :: "64 word"
  Tx_dropped :: "64 word"

record FlowStats =
  fs_Packets :: "64 word"
  fs_Bytes :: "64 word"

section \<open>Enumerations\<close>

datatype ovsDatapathCmd =
  DpCmdUnspec | DpCmdNew | DpCmdDel | DpCmdGet | DpCmdSet

primrec ovsDatapathCmd_value :: "ovsDatapathCmd \<Rightarrow> int" where
  "ovsDatapathCmd_value DpCmdUnspec = 0"
| "ovsDatapathCmd_value DpCmdNew = 1"
| "ovsDatapathCmd_value DpCmdDel = 2"
| "ovsDatapathCmd_value DpCmdGet = 3"
| "ovsDatapathCmd_value DpCmdSet = 4"

datatype ovsDatapathAttr =
  DpAttrUnspec | DpAttrName | DpAttrUpcallPid | DpAttrStats | DpAttrMegaflowStats
  | DpAttrUserFeatures | DpAttrPad

primrec ovsDatapathAttr_value :: "ovsDatapathAttr \<Rightarrow> int" where
  "ovsDatapathAttr_value DpAttrUnspec = 0"
| "ovsDatapathAttr_value DpAttrName = 1"
| "ovsDatapathAttr_value DpAttrUpcallPid = 2"
| "ovsDatapathAttr_value DpAttrStats = 3"
| "ovsDatapathAttr_value DpAttrMegaflowStats = 4"
| "ovsDatapathAttr_value DpAttrUserFeatures = 5"
| "ovsDatapathAttr_value DpAttrPad = 6"

definition DpAttrMax' :: int where "DpAttrMax' = 7"

datatype ovsPacketCmd =
  PacketCmdUnspec | PacketCmdMiss | PacketCmdAction | PacketCmdExecute

primrec ovsPacketCmd_value :: "ovsPacketCmd \<Rightarrow> int" where
  "ovsPacketCmd_value PacketCmdUnspec = 0"
| "ovsPacketCmd_value PacketCmdMiss = 1"
| "ovsPacketCmd_value PacketCmdAction = 2"
| "ovsPacketCmd_value PacketCmdExecute = 3"

datatype ovsPacketAttr =
  PacketAttrUnspec | PacketAttrPacket | PacketAttrKey | PacketAttrActions | PacketAttrUserdata
  | PacketAttrEgressTunKey | PacketAttrUnused1 | PacketAttrUnused2 | PacketAttrProbe | PacketAttrMru
  | PacketAttrLen

primrec ovsPacketAttr_value :: "ovsPacketAttr \<Rightarrow> int" where
  "ovsPacketAttr_value PacketAttrUnspec = 0"
| "ovsPacketAttr_value PacketAttrPacket = 1"
| "ovsPacketAttr_value PacketAttrKey = 2"
| "ovsPacketAttr_value PacketAttrActions = 3"
| "ovsPacketAttr_value PacketAttrUserdata = 4"
| "ovsPacketAttr_value PacketAttrEgressTunKey = 5"
| "ovsPacketAttr_value PacketAttrUnused1 = 6"
| "ovsPacketAttr_value PacketAttrUnused2 = 7"
| "ovsPacketAttr_value PacketAttrProbe = 8"
| "ovsPacketAttr_value PacketAttrMru = 9"
| "ovsPacketAttr_value PacketAttrLen = 10"

definition PacketAttrMax' :: int where "PacketAttrMax' = 11"

datatype ovsVportCmd =
  VportCmdUnspec | VportCmdNew | VportCmdDel | VportCmdGet | VportCmdSet

primrec ovsVportCmd_value :: "ovsVportCmd \<Rightarrow> int" where
  "ovsVportCmd_value VportCmdUnspec = 0"
| "ovsVportCmd_value VportCmdNew = 1"
| "ovsVportCmd_value VportCmdDel = 2"
| "ovsVportCmd_value VportCmdGet = 3"
| "ovsVportCmd_value VportCmdSet = 4"

datatype ovsVportType =
  VportTypeUnspec | VportTypeNetdev | VportTypeInternal | VportTypeGre | VportTypeVxlan
  | VportTypeGeneve

primrec ovsVportType_value :: "ovsVportType \<Rightarrow> int" where
  "ovsVportType_value VportTypeUnspec = 0"
| "ovsVportType_value VportTypeNetdev = 1"
| "ovsVportType_value VportTypeInternal = 2"
| "ovsVportType_value VportTypeGre = 3"
| "ovsVportType_value VportTypeVxlan = 4"
| "ovsVportType_value VportTypeGeneve = 5"

definition VportTypeMax' :: int where "VportTypeMax' = 6"

datatype ovsVportAttr =
  VportAttrUnspec | VportAttrPortNo | VportAttrType | VportAttrName | VportAttrOptions
  | VportAttrUpcallPid | VportAttrStats | VportAttrPad

primrec ovsVportAttr_value :: "ovsVportAttr \<Rightarrow> int" where
  "ovsVportAttr_value VportAttrUnspec = 0"
| "ovsVportAttr_value VportAttrPortNo = 1"
| "ovsVportAttr_value VportAttrType = 2"
| "ovsVportAttr_value VportAttrName = 3"
| "ovsVportAttr_value VportAttrOptions = 4"
| "ovsVportAttr_value VportAttrUpcallPid = 5"
| "ovsVportAttr_value VportAttrStats = 6"
| "ovsVportAttr_value VportAttrPad = 7"

definition VportAttrMax' :: int where "VportAttrMax' = 8"

datatype ovsVxlanExt =
  VxlanExtUnspec | VxlanExtGbp

primrec ovsVxlanExt_value :: "ovsVxlanExt \<Rightarrow> int" where
  "ovsVxlanExt_value VxlanExtUnspec = 0"
| "ovsVxlanExt_value VxlanExtGbp = 1"

definition VxlanExtMax' :: int where "VxlanExtMax' = 2"

datatype ovsTunnelAttr =
  TunnelAttrUnspec | TunnelAttrDstPort | TunnelAttrExtension

primrec ovsTunnelAttr_value :: "ovsTunnelAttr \<Rightarrow> int" where
  "ovsTunnelAttr_value TunnelAttrUnspec = 0"
| "ovsTunnelAttr_value TunnelAttrDstPort = 1"
| "ovsTunnelAttr_value TunnelAttrExtension = 2"

definition TunnelAttrMax' :: int where "TunnelAttrMax' = 3"

datatype ovsFlowCmd =
  FlowCmdUnspec | FlowCmdNew | FlowCmdDel | FlowCmdGet | FlowCmdSet

primrec ovsFlowCmd_value :: "ovsFlowCmd \<Rightarrow> int" where
  "ovsFlowCmd_value FlowCmdUnspec = 0"
| "ovsFlowCmd_value FlowCmdNew = 1"
| "ovsFlowCmd_value FlowCmdDel = 2"
| "ovsFlowCmd_value FlowCmdGet = 3"
| "ovsFlowCmd_value FlowCmdSet = 4"

datatype ovsKeyAttr =
  KeyAttrUnspec | KeyAttrEncap | KeyAttrPriority | KeyAttrInPort | KeyAttrEthernet | KeyAttrVlan
  | KeyAttrEthertype | KeyAttrIpv4 | KeyAttrIpv6 | KeyAttrTcp | KeyAttrUdp | KeyAttrIcmp
  | KeyAttrIcmpv6 | KeyAttrArp | KeyAttrNd | KeyAttrSkbMark | KeyAttrTunnel | KeyAttrSctp
  | KeyAttrTcpFlags | KeyAttrDpHash | KeyAttrRecircId | KeyAttrMpls | KeyAttrCtState | KeyAttrCtZone
  | KeyAttrCtMark | KeyAttrCtLabels | KeyAttrCtOrigTupleIpv4 | KeyAttrCtOrigTupleIpv6

primrec ovsKeyAttr_value :: "ovsKeyAttr \<Rightarrow> int" where
  "ovsKeyAttr_value KeyAttrUnspec = 0"
| "ovsKeyAttr_value KeyAttrEncap = 1"
| "ovsKeyAttr_value KeyAttrPriority = 2"
| "ovsKeyAttr_value KeyAttrInPort = 3"
| "ovsKeyAttr_value KeyAttrEthernet = 4"
| "ovsKeyAttr_value KeyAttrVlan = 5"
| "ovsKeyAttr_value KeyAttrEthertype = 6"
| "ovsKeyAttr_value KeyAttrIpv4 = 7"
| "ovsKeyAttr_value KeyAttrIpv6 = 8"
| "ovsKeyAttr_value KeyAttrTcp = 9"
| "ovsKeyAttr_value KeyAttrUdp = 10"
| "ovsKeyAttr_value KeyAttrIcmp = 11"
| "ovsKeyAttr_value KeyAttrIcmpv6 = 12"
| "ovsKeyAttr_value KeyAttrArp = 13"
| "ovsKeyAttr_value KeyAttrNd = 14"
| "ovsKeyAttr_value KeyAttrSkbMark = 15"
| "ovsKeyAttr_value KeyAttrTunnel = 16"
| "ovsKeyAttr_value KeyAttrSctp = 17"
| "ovsKeyAttr_value KeyAttrTcpFlags = 18"
| "ovsKeyAttr_value KeyAttrDpHash = 19"
| "ovsKeyAttr_value KeyAttrRecircId = 20"
| "ovsKeyAttr_value KeyAttrMpls = 21"
| "ovsKeyAttr_value KeyAttrCtState = 22"
| "ovsKeyAttr_value KeyAttrCtZone = 23"
| "ovsKeyAttr_value KeyAttrCtMark = 24"
| "ovsKeyAttr_value KeyAttrCtLabels = 25"
| "ovsKeyAttr_value KeyAttrCtOrigTupleIpv4 = 26"
| "ovsKeyAttr_value KeyAttrCtOrigTupleIpv6 = 27"

definition KeyAttrMax' :: int where "KeyAttrMax' = 28"

datatype ovsTunnelKeyAttr =
  TunnelKeyAttrId | TunnelKeyAttrIpv4Src | TunnelKeyAttrIpv4Dst | TunnelKeyAttrTos
  | TunnelKeyAttrTtl | TunnelKeyAttrDontFragment | TunnelKeyAttrCsum | TunnelKeyAttrOam
  | TunnelKeyAttrGeneveOpts | TunnelKeyAttrTpSrc | TunnelKeyAttrTpDst | TunnelKeyAttrVxlanOpts
  | TunnelKeyAttrIpv6Src | TunnelKeyAttrIpv6Dst | TunnelKeyAttrPad

primrec ovsTunnelKeyAttr_value :: "ovsTunnelKeyAttr \<Rightarrow> int" where
  "ovsTunnelKeyAttr_value TunnelKeyAttrId = 0"
| "ovsTunnelKeyAttr_value TunnelKeyAttrIpv4Src = 1"
| "ovsTunnelKeyAttr_value TunnelKeyAttrIpv4Dst = 2"
| "ovsTunnelKeyAttr_value TunnelKeyAttrTos = 3"
| "ovsTunnelKeyAttr_value TunnelKeyAttrTtl = 4"
| "ovsTunnelKeyAttr_value TunnelKeyAttrDontFragment = 5"
| "ovsTunnelKeyAttr_value TunnelKeyAttrCsum = 6"
| "ovsTunnelKeyAttr_value TunnelKeyAttrOam = 7"
| "ovsTunnelKeyAttr_value TunnelKeyAttrGeneveOpts = 8"
| "ovsTunnelKeyAttr_value TunnelKeyAttrTpSrc = 9"
| "ovsTunnelKeyAttr_value TunnelKeyAttrTpDst = 10"
| "ovsTunnelKeyAttr_value TunnelKeyAttrVxlanOpts = 11"
| "ovsTunnelKeyAttr_value TunnelKeyAttrIpv6Src = 12"
| "ovsTunnelKeyAttr_value TunnelKeyAttrIpv6Dst = 13"
| "ovsTunnelKeyAttr_value TunnelKeyAttrPad = 14"

definition TunnelKeyAttrMax' :: int where "TunnelKeyAttrMax' = 15"

datatype ovsFragType =
  FragTypeNone | FragTypeFirst | FragTypeLater

primrec ovsFragType_value :: "ovsFragType \<Rightarrow> int" where
  "ovsFragType_value FragTypeNone = 0"
| "ovsFragType_value FragTypeFirst = 1"
| "ovsFragType_value FragTypeLater = 2"

definition FragTypeMax' :: int where "FragTypeMax' = 3"

datatype ovsFlowAttr =
  FlowAttrUnspec | FlowAttrKey | FlowAttrActions | FlowAttrStats | FlowAttrTcpFlags | FlowAttrUsed
  | FlowAttrClear | FlowAttrMask | FlowAttrProbe | FlowAttrUfid | FlowAttrUfidFlags | FlowAttrPad

primrec ovsFlowAttr_value :: "ovsFlowAttr \<Rightarrow> int" where
  "ovsFlowAttr_value FlowAttrUnspec = 0"
| "ovsFlowAttr_value FlowAttrKey = 1"
| "ovsFlowAttr_value FlowAttrActions = 2"
| "ovsFlowAttr_value FlowAttrStats = 3"
| "ovsFlowAttr_value FlowAttrTcpFlags = 4"
| "ovsFlowAttr_value FlowAttrUsed = 5"
| "ovsFlowAttr_value FlowAttrClear = 6"
| "ovsFlowAttr_value FlowAttrMask = 7"
| "ovsFlowAttr_value FlowAttrProbe = 8"
| "ovsFlowAttr_value FlowAttrUfid = 9"
| "ovsFlowAttr_value FlowAttrUfidFlags = 10"
| "ovsFlowAttr_value FlowAttrPad = 11"

definition FlowAttrMax' :: int where "FlowAttrMax' = 12"

datatype ovsSampleAttr =
  SampleAttrUnspec | SampleAttrProbability | SampleAttrActions

primrec ovsSampleAttr_value :: "ovsSampleAttr \<Rightarrow> int" where
  "ovsSampleAttr_value SampleAttrUnspec = 0"
| "ovsSampleAttr_value SampleAttrProbability = 1"
| "ovsSampleAttr_value SampleAttrActions = 2"

definition SampleAttrMax' :: int where "SampleAttrMax' = 3"

datatype ovsUserspaceAttr =
  UserspaceAttrUnspec | UserspaceAttrPid | UserspaceAttrUserdata | UserspaceAttrEgressTunPort
  | UserspaceAttrActions

primrec ovsUserspaceAttr_value :: "ovsUserspaceAttr \<Rightarrow> int" where
  "ovsUserspaceAttr_value UserspaceAttrUnspec = 0"
| "ovsUserspaceAttr_value UserspaceAttrPid = 1"
| "ovsUserspaceAttr_value UserspaceAttrUserdata = 2"
| "ovsUserspaceAttr_value UserspaceAttrEgressTunPort = 3"
| "ovsUserspaceAttr_value UserspaceAttrActions = 4"

definition UserspaceAttrMax' :: int where "UserspaceAttrMax' = 5"

datatype ovsHashAlg =
  HashAlgL4

primrec ovsHashAlg_value :: "ovsHashAlg \<Rightarrow> int" where
  "ovsHashAlg_value HashAlgL4 = 0"

datatype ovsCtAttr =
  CtAttrUnspec | CtAttrCommit | CtAttrZone | CtAttrMark | CtAttrLabels | CtAttrHelper | CtAttrNat
  | CtAttrForceCommit | CtAttrEventmask

primrec ovsCtAttr_value :: "ovsCtAttr \<Rightarrow> int" where
  "ovsCtAttr_value CtAttrUnspec = 0"
| "ovsCtAttr_value CtAttrCommit = 1"
| "ovsCtAttr_value CtAttrZone = 2"
| "ovsCtAttr_value CtAttrMark = 3"
| "ovsCtAttr_value CtAttrLabels = 4"
| "ovsCtAttr_value CtAttrHelper = 5"
| "ovsCtAttr_value CtAttrNat = 6"
| "ovsCtAttr_value CtAttrForceCommit = 7"
| "ovsCtAttr_value CtAttrEventmask = 8"

definition CtAttrMax' :: int where "CtAttrMax' = 9"

datatype ovsNatAttr =
  NatAttrUnspec | NatAttrSrc | NatAttrDst | NatAttrIpMin | NatAttrIpMax | NatAttrProtoMin
  | NatAttrProtoMax | NatAttrPersistent | NatAttrProtoHash | NatAttrProtoRandom

primrec ovsNatAttr_value :: "ovsNatAttr \<Rightarrow> int" where
  "ovsNatAttr_value NatAttrUnspec = 0"
| "ovsNatAttr_value NatAttrSrc = 1"
| "ovsNatAttr_value NatAttrDst = 2"
| "ovsNatAttr_value NatAttrIpMin = 3"
| "ovsNatAttr_value NatAttrIpMax = 4"
| "ovsNatAttr_value NatAttrProtoMin = 5"
| "ovsNatAttr_value NatAttrProtoMax = 6"
| "ovsNatAttr_value NatAttrPersistent = 7"
| "ovsNatAttr_value NatAttrProtoHash = 8"
| "ovsNatAttr_value NatAttrProtoRandom = 9"

definition NatAttrMax' :: int where "NatAttrMax' = 10"

datatype ovsActionAttr =
  ActionAttrUnspec | ActionAttrOutput | ActionAttrUserspace | ActionAttrSet | ActionAttrPushVlan
  | ActionAttrPopVlan | ActionAttrSample | ActionAttrRecirc | ActionAttrHash | ActionAttrPushMpls
  | ActionAttrPopMpls | ActionAttrSetMasked | ActionAttrCt | ActionAttrTrunc | ActionAttrPushEth
  | ActionAttrPopEth

primrec ovsActionAttr_value :: "ovsActionAttr \<Rightarrow> int" where
  "ovsActionAttr_value ActionAttrUnspec = 0"
| "ovsActionAttr_value ActionAttrOutput = 1"
| "ovsActionAttr_value ActionAttrUserspace = 2"
| "ovsActionAttr_value ActionAttrSet = 3"
| "ovsActionAttr_value ActionAttrPushVlan = 4"
| "ovsActionAttr_value ActionAttrPopVlan = 5"
| "ovsActionAttr_value ActionAttrSample = 6"
| "ovsActionAttr_value ActionAttrRecirc = 7"
| "ovsActionAttr_value ActionAttrHash = 8"
| "ovsActionAttr_value ActionAttrPushMpls = 9"
| "ovsActionAttr_value ActionAttrPopMpls = 10"
| "ovsActionAttr_value ActionAttrSetMasked = 11"
| "ovsActionAttr_value ActionAttrCt = 12"
| "ovsActionAttr_value ActionAttrTrunc = 13"
| "ovsActionAttr_value ActionAttrPushEth = 14"
| "ovsActionAttr_value ActionAttrPopEth = 15"

definition ActionAttrMax' :: int where "ActionAttrMax' = 16"

section \<open>Other constants\<close>

definition DatapathFamily :: string where "DatapathFamily = ''ovs_datapath''"
definition DatapathMcgroup :: string where "DatapathMcgroup = ''ovs_datapath''"
definition DatapathVersion :: int where "DatapathVersion = 2"
definition DpVerFeatures :: int where "DpVerFeatures = 2"
definition DpAttrMax :: int where "DpAttrMax = DpAttrMax' - 1"
definition DpFUnaligned :: "32 word" where "DpFUnaligned = push_bit 0 1"
definition DpFVportPids :: "32 word" where "DpFVportPids = push_bit 1 1"
definition PacketFamily :: string where "PacketFamily = ''ovs_packet''"
definition PacketVersion :: int where "PacketVersion = 0x1"
definition PacketAttrMax :: int where "PacketAttrMax = PacketAttrMax' - 1"
definition VportFamily :: string where "VportFamily = ''ovs_vport''"
definition VportMcgroup :: string where "VportMcgroup = ''ovs_vport''"
definition VportVersion :: int where "VportVersion = 0x1"
definition VportTypeMax :: int where "VportTypeMax = VportTypeMax' - 1"
definition VportAttrMax :: int where "VportAttrMax = VportAttrMax' - 1"
definition VxlanExtMax :: int where "VxlanExtMax = VxlanExtMax' - 1"
definition TunnelAttrMax :: int where "TunnelAttrMax = TunnelAttrMax' - 1"
definition FlowFamily :: string where "FlowFamily = ''ovs_flow''"
definition FlowMcgroup :: string where "FlowMcgroup = ''ovs_flow''"
definition FlowVersion :: int where "FlowVersion = 0x1"
definition KeyAttrMax :: int where "KeyAttrMax = KeyAttrMax' - 1"
definition TunnelKeyAttrMax :: int where "TunnelKeyAttrMax = TunnelKeyAttrMax' - 1"
definition FragTypeMax :: int where "FragTypeMax = FragTypeMax' - 1"
definition CtLabelsLen32 :: int where "CtLabelsLen32 = 4"
definition CsFNew :: int where "CsFNew = 0x01"
definition CsFEstablished :: int where "CsFEstablished = 0x02"
definition CsFRelated :: int where "CsFRelated = 0x04"
definition CsFReplyDir :: int where "CsFReplyDir = 0x08"
definition CsFInvalid :: int where "CsFInvalid = 0x10"
definition CsFTracked :: int where "CsFTracked = 0x20"
definition CsFSrcNat :: int where "CsFSrcNat = 0x40"
definition CsFDstNat :: int where "CsFDstNat = 0x80"
definition CsFNatMask :: int where "CsFNatMask = CsFSrcNat OR CsFDstNat"
definition FlowAttrMax :: int where "FlowAttrMax = FlowAttrMax' - 1"
definition UfidFOmitKey :: int where "UfidFOmitKey = push_bit 0 1"
definition UfidFOmitMask :: int where "UfidFOmitMask = push_bit 1 1"
definition UfidFOmitActions :: int where "UfidFOmitActions = push_bit 2 1"
definition SampleAttrMax :: int where "SampleAttrMax = SampleAttrMax' - 1"
definition UserspaceAttrMax :: int where "UserspaceAttrMax = UserspaceAttrMax' - 1"
definition CtAttrMax :: int where "CtAttrMax = CtAttrMax' - 1"
definition NatAttrMax :: int where "NatAttrMax = NatAttrMax' - 1"
definition ActionAttrMax :: int where "ActionAttrMax = ActionAttrMax' - 1"

section \<open>Numberings\<close>

text \<open>
  The members of an enumeration carry the numbers from 0 to the highest one, each once: a type
  or command read from a message stands for at most one member, also at the width of the field
  that carries it.
\<close>

locale numbering =
  fixes number :: "'a \<Rightarrow> int" and members :: "'a list" and top :: int
  assumes every_member: "a \<in> set members"
    and numbered: "map number members = [0..top]"
begin

lemma number_range: "range number = {0..top}"
proof -
  have "range number = set (map number members)"
    using every_member by auto
  then show ?thesis by (simp add: numbered)
qed

lemma number_bounds: "0 \<le> number a" "number a \<le> top"
  using number_range by auto

lemma number_inj: "inj number"
proof (rule injI)
  fix a b
  assume eq: "number a = number b"
  have "distinct (map number members)" by (simp add: numbered)
  then have "inj_on number (set members)" by (simp add: distinct_map)
  with eq show "a = b" using every_member by (auto dest: inj_onD)
qed

lemma number_bij: "bij_betw number UNIV {0..top}"
  using number_inj number_range by (simp add: bij_betw_def)

lemma number_word:
  assumes "top < 2 ^ LENGTH('w::len)"
  shows "inj (\<lambda>a. word_of_int (number a) :: 'w word)"
proof (rule injI)
  fix a b
  assume eq: "(word_of_int (number a) :: 'w word) = word_of_int (number b)"
  have "uint (word_of_int (number c) :: 'w word) = number c" for c
    using assms number_bounds [of c] by (simp add: uint_word_of_int)
  with eq have "number a = number b" by metis
  then show "a = b" using number_inj by (auto dest: injD)
qed

end

lemmas maxima = DpAttrMax_def DpAttrMax'_def PacketAttrMax_def PacketAttrMax'_def VportTypeMax_def
  VportTypeMax'_def VportAttrMax_def VportAttrMax'_def VxlanExtMax_def VxlanExtMax'_def
  TunnelAttrMax_def TunnelAttrMax'_def KeyAttrMax_def KeyAttrMax'_def TunnelKeyAttrMax_def
  TunnelKeyAttrMax'_def FragTypeMax_def FragTypeMax'_def FlowAttrMax_def FlowAttrMax'_def
  SampleAttrMax_def SampleAttrMax'_def UserspaceAttrMax_def UserspaceAttrMax'_def CtAttrMax_def
  CtAttrMax'_def NatAttrMax_def NatAttrMax'_def ActionAttrMax_def ActionAttrMax'_def

interpretation ovsDatapathCmd: numbering ovsDatapathCmd_value
  "[DpCmdUnspec, DpCmdNew, DpCmdDel, DpCmdGet, DpCmdSet]"
  4
  by (unfold_locales, rule ovsDatapathCmd.induct) (simp_all add: maxima upto.simps)

interpretation ovsDatapathAttr: numbering ovsDatapathAttr_value
  "[DpAttrUnspec, DpAttrName, DpAttrUpcallPid, DpAttrStats, DpAttrMegaflowStats,
    DpAttrUserFeatures, DpAttrPad]"
  DpAttrMax
  by (unfold_locales, rule ovsDatapathAttr.induct) (simp_all add: maxima upto.simps)

interpretation ovsPacketCmd: numbering ovsPacketCmd_value
  "[PacketCmdUnspec, PacketCmdMiss, PacketCmdAction, PacketCmdExecute]"
  3
  by (unfold_locales, rule ovsPacketCmd.induct) (simp_all add: maxima upto.simps)

interpretation ovsPacketAttr: numbering ovsPacketAttr_value
  "[PacketAttrUnspec, PacketAttrPacket, PacketAttrKey, PacketAttrActions, PacketAttrUserdata,
    PacketAttrEgressTunKey, PacketAttrUnused1, PacketAttrUnused2, PacketAttrProbe, PacketAttrMru,
    PacketAttrLen]"
  PacketAttrMax
  by (unfold_locales, rule ovsPacketAttr.induct) (simp_all add: maxima upto.simps)

interpretation ovsVportCmd: numbering ovsVportCmd_value
  "[VportCmdUnspec, VportCmdNew, VportCmdDel, VportCmdGet, VportCmdSet]"
  4
  by (unfold_locales, rule ovsVportCmd.induct) (simp_all add: maxima upto.simps)

interpretation ovsVportType: numbering ovsVportType_value
  "[VportTypeUnspec, VportTypeNetdev, VportTypeInternal, VportTypeGre, VportTypeVxlan,
    VportTypeGeneve]"
  VportTypeMax
  by (unfold_locales, rule ovsVportType.induct) (simp_all add: maxima upto.simps)

interpretation ovsVportAttr: numbering ovsVportAttr_value
  "[VportAttrUnspec, VportAttrPortNo, VportAttrType, VportAttrName, VportAttrOptions,
    VportAttrUpcallPid, VportAttrStats, VportAttrPad]"
  VportAttrMax
  by (unfold_locales, rule ovsVportAttr.induct) (simp_all add: maxima upto.simps)

interpretation ovsVxlanExt: numbering ovsVxlanExt_value
  "[VxlanExtUnspec, VxlanExtGbp]"
  VxlanExtMax
  by (unfold_locales, rule ovsVxlanExt.induct) (simp_all add: maxima upto.simps)

interpretation ovsTunnelAttr: numbering ovsTunnelAttr_value
  "[TunnelAttrUnspec, TunnelAttrDstPort, TunnelAttrExtension]"
  TunnelAttrMax
  by (unfold_locales, rule ovsTunnelAttr.induct) (simp_all add: maxima upto.simps)

interpretation ovsFlowCmd: numbering ovsFlowCmd_value
  "[FlowCmdUnspec, FlowCmdNew, FlowCmdDel, FlowCmdGet, FlowCmdSet]"
  4
  by (unfold_locales, rule ovsFlowCmd.induct) (simp_all add: maxima upto.simps)

interpretation ovsKeyAttr: numbering ovsKeyAttr_value
  "[KeyAttrUnspec, KeyAttrEncap, KeyAttrPriority, KeyAttrInPort, KeyAttrEthernet, KeyAttrVlan,
    KeyAttrEthertype, KeyAttrIpv4, KeyAttrIpv6, KeyAttrTcp, KeyAttrUdp, KeyAttrIcmp,
    KeyAttrIcmpv6, KeyAttrArp, KeyAttrNd, KeyAttrSkbMark, KeyAttrTunnel, KeyAttrSctp,
    KeyAttrTcpFlags, KeyAttrDpHash, KeyAttrRecircId, KeyAttrMpls, KeyAttrCtState, KeyAttrCtZone,
    KeyAttrCtMark, KeyAttrCtLabels, KeyAttrCtOrigTupleIpv4, KeyAttrCtOrigTupleIpv6]"
  KeyAttrMax
  by (unfold_locales, rule ovsKeyAttr.induct) (simp_all add: maxima upto.simps)

interpretation ovsTunnelKeyAttr: numbering ovsTunnelKeyAttr_value
  "[TunnelKeyAttrId, TunnelKeyAttrIpv4Src, TunnelKeyAttrIpv4Dst, TunnelKeyAttrTos,
    TunnelKeyAttrTtl, TunnelKeyAttrDontFragment, TunnelKeyAttrCsum, TunnelKeyAttrOam,
    TunnelKeyAttrGeneveOpts, TunnelKeyAttrTpSrc, TunnelKeyAttrTpDst, TunnelKeyAttrVxlanOpts,
    TunnelKeyAttrIpv6Src, TunnelKeyAttrIpv6Dst, TunnelKeyAttrPad]"
  TunnelKeyAttrMax
  by (unfold_locales, rule ovsTunnelKeyAttr.induct) (simp_all add: maxima upto.simps)

interpretation ovsFragType: numbering ovsFragType_value
  "[FragTypeNone, FragTypeFirst, FragTypeLater]"
  FragTypeMax
  by (unfold_locales, rule ovsFragType.induct) (simp_all add: maxima upto.simps)

interpretation ovsFlowAttr: numbering ovsFlowAttr_value
  "[FlowAttrUnspec, FlowAttrKey, FlowAttrActions, FlowAttrStats, FlowAttrTcpFlags, FlowAttrUsed,
    FlowAttrClear, FlowAttrMask, FlowAttrProbe, FlowAttrUfid, FlowAttrUfidFlags, FlowAttrPad]"
  FlowAttrMax
  by (unfold_locales, rule ovsFlowAttr.induct) (simp_all add: maxima upto.simps)

interpretation ovsSampleAttr: numbering ovsSampleAttr_value
  "[SampleAttrUnspec, SampleAttrProbability, SampleAttrActions]"
  SampleAttrMax
  by (unfold_locales, rule ovsSampleAttr.induct) (simp_all add: maxima upto.simps)

interpretation ovsUserspaceAttr: numbering ovsUserspaceAttr_value
  "[UserspaceAttrUnspec, UserspaceAttrPid, UserspaceAttrUserdata, UserspaceAttrEgressTunPort,
    UserspaceAttrActions]"
  UserspaceAttrMax
  by (unfold_locales, rule ovsUserspaceAttr.induct) (simp_all add: maxima upto.simps)

interpretation ovsHashAlg: numbering ovsHashAlg_value
  "[HashAlgL4]"
  0
  by (unfold_locales, rule ovsHashAlg.induct) (simp_all add: maxima upto.simps)

interpretation ovsCtAttr: numbering ovsCtAttr_value
  "[CtAttrUnspec, CtAttrCommit, CtAttrZone, CtAttrMark, CtAttrLabels, CtAttrHelper, CtAttrNat,
    CtAttrForceCommit, CtAttrEventmask]"
  CtAttrMax
  by (unfold_locales, rule ovsCtAttr.induct) (simp_all add: maxima upto.simps)

interpretation ovsNatAttr: numbering ovsNatAttr_value
  "[NatAttrUnspec, NatAttrSrc, NatAttrDst, NatAttrIpMin, NatAttrIpMax, NatAttrProtoMin,
    NatAttrProtoMax, NatAttrPersistent, NatAttrProtoHash, NatAttrProtoRandom]"
  NatAttrMax
  by (unfold_locales, rule ovsNatAttr.induct) (simp_all add: maxima upto.simps)

interpretation ovsActionAttr: numbering ovsActionAttr_value
  "[ActionAttrUnspec, ActionAttrOutput, ActionAttrUserspace, ActionAttrSet, ActionAttrPushVlan,
    ActionAttrPopVlan, ActionAttrSample, ActionAttrRecirc, ActionAttrHash, ActionAttrPushMpls,
    ActionAttrPopMpls, ActionAttrSetMasked, ActionAttrCt, ActionAttrTrunc, ActionAttrPushEth,
    ActionAttrPopEth]"
  ActionAttrMax
  by (unfold_locales, rule ovsActionAttr.induct) (simp_all add: maxima upto.simps)

text \<open>The flags of a connection's state are the bits of a byte.\<close>

lemma conntrack_flags:
  "[CsFNew, CsFEstablished, CsFRelated, CsFReplyDir, CsFInvalid, CsFTracked, CsFSrcNat, CsFDstNat] =
     map (\<lambda>i. push_bit i 1) [0..<8]"
  "CsFNatMask = CsFSrcNat + CsFDstNat"
  by (simp_all add: CsFNew_def CsFEstablished_def CsFRelated_def CsFReplyDir_def CsFInvalid_def
      CsFTracked_def CsFSrcNat_def CsFDstNat_def CsFNatMask_def upt_rec)

text \<open>
  In every enumeration the constant named as its maximum is the number of its last member: the
  members are numbered from 0 to it without a gap and without a repetition.
\<close>

theorem maxima_are_highest:
  "bij_betw ovsDatapathAttr_value UNIV {0..DpAttrMax} \<and>
   bij_betw ovsPacketAttr_value UNIV {0..PacketAttrMax} \<and>
   bij_betw ovsVportType_value UNIV {0..VportTypeMax} \<and>
   bij_betw ovsVportAttr_value UNIV {0..VportAttrMax} \<and>
   bij_betw ovsVxlanExt_value UNIV {0..VxlanExtMax} \<and>
   bij_betw ovsTunnelAttr_value UNIV {0..TunnelAttrMax} \<and>
   bij_betw ovsKeyAttr_value UNIV {0..KeyAttrMax} \<and>
   bij_betw ovsTunnelKeyAttr_value UNIV {0..TunnelKeyAttrMax} \<and>
   bij_betw ovsFragType_value UNIV {0..FragTypeMax} \<and>
   bij_betw ovsFlowAttr_value UNIV {0..FlowAttrMax} \<and>
   bij_betw ovsSampleAttr_value UNIV {0..SampleAttrMax} \<and>
   bij_betw ovsUserspaceAttr_value UNIV {0..UserspaceAttrMax} \<and>
   bij_betw ovsCtAttr_value UNIV {0..CtAttrMax} \<and>
   bij_betw ovsNatAttr_value UNIV {0..NatAttrMax} \<and>
   bij_betw ovsActionAttr_value UNIV {0..ActionAttrMax}"
  by (intro conjI) (rule ovsDatapathAttr.number_bij ovsPacketAttr.number_bij ovsVportType.number_bij ovsVportAttr.number_bij ovsVxlanExt.number_bij ovsTunnelAttr.number_bij ovsKeyAttr.number_bij ovsTunnelKeyAttr.number_bij ovsFragType.number_bij ovsFlowAttr.number_bij ovsSampleAttr.number_bij ovsUserspaceAttr.number_bij ovsCtAttr.number_bij ovsNatAttr.number_bij ovsActionAttr.number_bij)+

end
