(* ===== verification/Ovs_Netlink.thy ===== *)
theory Ovs_Netlink
  imports Go_Net Ovsh "HOL-Library.Multiset"
begin

text \<open>
  \<^verbatim>\<open>ovsnl\<close>: the client of the kernel's generic netlink families. The netlink packages
  (\<^verbatim>\<open>github.com/mdlayher/netlink\<close>, \<^verbatim>\<open>genetlink\<close>, \<^verbatim>\<open>nlenc\<close>) are not part of the repository: what the
  code calls of them is a record of functions. The casts through \<^verbatim>\<open>unsafe.Pointer\<close> read and write
  the byte order of the machine, which is the parameter \<open>big\<close>.
\<close>

unbundle bit_operations_syntax

text \<open>The constants are untyped in the source: they take the width of the field they are used for.\<close>

abbreviation dp_cmd :: "ovsDatapathCmd \<Rightarrow> 8 word" where
  "dp_cmd c \<equiv> word_of_int (ovsDatapathCmd_value c)"

abbreviation packet_cmd :: "ovsPacketCmd \<Rightarrow> 8 word" where
  "packet_cmd c \<equiv> word_of_int (ovsPacketCmd_value c)"

abbreviation dp_attr :: "ovsDatapathAttr \<Rightarrow> 16 word" where
  "dp_attr a \<equiv> word_of_int (ovsDatapathAttr_value a)"

section \<open>Bytes in the order of the machine\<close>

primrec nat_bytes :: "nat \<Rightarrow> nat \<Rightarrow> byte list" where
  "nat_bytes 0 n = []"
| "nat_bytes (Suc k) n = of_nat (n mod 256) # nat_bytes k (n div 256)"

primrec bytes_nat :: "byte list \<Rightarrow> nat" where
  "bytes_nat [] = 0"
| "bytes_nat (b # bs) = unat b + 256 * bytes_nat bs"

definition native_bytes :: "bool \<Rightarrow> nat \<Rightarrow> nat \<Rightarrow> byte list" where
  "native_bytes big k n = (if big then rev (nat_bytes k n) else nat_bytes k n)"

definition native_nat :: "bool \<Rightarrow> byte list \<Rightarrow> nat" where
  "native_nat big bs = bytes_nat (if big then rev bs else bs)"

text \<open>The field at an offset of a structure in memory.\<close>

definition native_field :: "bool \<Rightarrow> nat \<Rightarrow> nat \<Rightarrow> byte list \<Rightarrow> 'a::len word" where
  "native_field big off k b = of_nat (native_nat big (take k (drop off b)))"

definition sizeofHeader :: nat where "sizeofHeader = 4"
definition sizeofDPStats :: nat where "sizeofDPStats = 32"
definition sizeofDPMegaflowStats :: nat where "sizeofDPMegaflowStats = 32"

definition headerBytes :: "bool \<Rightarrow> Header \<Rightarrow> byte list" where
  "headerBytes big h = native_bytes big sizeofHeader (unat (Ifindex h))"

definition parseHeader :: "bool \<Rightarrow> byte list \<Rightarrow> Header result" where
  "parseHeader big b =
     (if length b < sizeofHeader then Err (ErrHeaderSize (length b))
      else Ok \<lparr>Ifindex = native_field big 0 4 (take sizeofHeader b)\<rparr>)"

definition cast_DPStats :: "bool \<Rightarrow> byte list \<Rightarrow> DPStats" where
  "cast_DPStats big b =
     \<lparr>dps_Hit = native_field big 0 8 b, dps_Missed = native_field big 8 8 b,
      dps_Lost = native_field big 16 8 b, dps_Flows = native_field big 24 8 b\<rparr>"

definition cast_DPMegaflowStats :: "bool \<Rightarrow> byte list \<Rightarrow> DPMegaflowStats" where
  "cast_DPMegaflowStats big b =
     \<lparr>Mask_hit = native_field big 0 8 b, dpm_Masks = native_field big 8 4 b, Pad0 = native_field big 12 4 b,
      Pad1 = native_field big 16 8 b, Pad2 = native_field big 24 8 b\<rparr>"

section \<open>The client\<close>

record Family =
  fam_ID :: "16 word"
  fam_Version :: "8 word"
  fam_Name :: string

text \<open>
  A service is the family it uses; a nil pointer is \<open>None\<close>. The connection of the client is implicit
  in the functions that act on the world.
\<close>

record Client =
  c_Datapath :: "Family option"
  c_Packet :: "Family option"

definition initFamily :: "Client \<Rightarrow> Family \<Rightarrow> Client result" where
  "initFamily c f =
     (if fam_Name f = DatapathFamily then Ok (c\<lparr>c_Datapath := Some f\<rparr>)
      else if fam_Name f = PacketFamily then Ok (c\<lparr>c_Packet := Some f\<rparr>)
      else if fam_Name f = FlowFamily \<or> fam_Name f = VportFamily then Ok c
      else Err (ErrUnknownFamily (fam_Name f)))"

fun init_loop :: "Client \<Rightarrow> nat \<Rightarrow> Family list \<Rightarrow> (Client \<times> nat) result" where
  "init_loop c gotf [] = Ok (c, gotf)"
| "init_loop c gotf (f # fs) =
     (if \<not> HasPrefix (fam_Name f) ''ovs_'' then init_loop c gotf fs
      else and_then (initFamily c f) (\<lambda>c'. init_loop c' (gotf + 1) fs))"

definition Client_init :: "Client \<Rightarrow> Family list \<Rightarrow> Client result" where
  "Client_init c families =
     and_then (init_loop c 0 families) (\<lambda>(c', gotf).
       if gotf = 0 then Err ErrNotExist
       else if gotf \<noteq> 4 then Err (ErrFamilyCount gotf)
       else Ok c')"

text \<open>
  \<^verbatim>\<open>newClient\<close>: the connection is closed on every error.
\<close>

definition newClient ::
  "('w \<Rightarrow> Family list result \<times> 'w) \<Rightarrow> ('w \<Rightarrow> 'w) \<Rightarrow> 'w \<Rightarrow> Client result \<times> 'w" where
  "newClient listFamilies close w =
     (case listFamilies w of
        (Ok families, w') \<Rightarrow>
          (case Client_init \<lparr>c_Datapath = None, c_Packet = None\<rparr> families of
             Err e \<Rightarrow> (Err e, close w')
           | r \<Rightarrow> (r, w'))
      | (Err e, w') \<Rightarrow> (Err e, close w')
      | (Panic, w') \<Rightarrow> (Panic, w'))"

section \<open>Datapaths and packets\<close>

record DatapathStats =
  Hit :: "64 word"
  Missed :: "64 word"
  Lost :: "64 word"
  Flows :: "64 word"

record DatapathMegaflowStats =
  MaskHits :: "64 word"
  Masks :: "32 word"

record Datapath =
  dp_Index :: int
  dp_Name :: string
  dp_Features :: "32 word"
  dp_Stats :: DatapathStats
  dp_MegaflowStats :: DatapathMegaflowStats

record Packet =
  pkt_Index :: int
  pkt_Packet :: string

definition parseDPStats :: "bool \<Rightarrow> byte list \<Rightarrow> DatapathStats result" where
  "parseDPStats big b =
     (if length b \<noteq> sizeofDPStats then Err (ErrDPStatsSize (length b))
      else let s = cast_DPStats big b in
        Ok \<lparr>Hit = dps_Hit s, Missed = dps_Missed s, Lost = dps_Lost s, Flows = dps_Flows s\<rparr>)"

definition parseDPMegaflowStats :: "bool \<Rightarrow> byte list \<Rightarrow> DatapathMegaflowStats result" where
  "parseDPMegaflowStats big b =
     (if length b \<noteq> sizeofDPMegaflowStats then Err (ErrMegaflowStatsSize (length b))
      else let s = cast_DPMegaflowStats big b in Ok \<lparr>MaskHits = Mask_hit s, Masks = dpm_Masks s\<rparr>)"

text \<open>What is used of the netlink packages; \<^verbatim>\<open>nlenc.Uint32\<close> panics on a wrong length.\<close>

type_synonym attribute = "16 word \<times> byte list"

record netlink_lib =
  UnmarshalAttributes :: "byte list \<Rightarrow> attribute list result"
  nlenc_String :: "byte list \<Rightarrow> string"
  nlenc_Uint32 :: "byte list \<Rightarrow> 32 word result"

definition zero_Datapath :: "int \<Rightarrow> Datapath" where
  "zero_Datapath i =
     \<lparr>dp_Index = i, dp_Name = [], dp_Features = 0,
      dp_Stats = \<lparr>Hit = 0, Missed = 0, Lost = 0, Flows = 0\<rparr>,
      dp_MegaflowStats = \<lparr>MaskHits = 0, Masks = 0\<rparr>\<rparr>"

definition dp_attribute :: "netlink_lib \<Rightarrow> bool \<Rightarrow> Datapath \<Rightarrow> attribute \<Rightarrow> Datapath result" where
  "dp_attribute nl big dp = (\<lambda>(typ, d).
     if typ = dp_attr DpAttrName then Ok (dp\<lparr>dp_Name := nlenc_String nl d\<rparr>)
     else if typ = dp_attr DpAttrUserFeatures then and_then (nlenc_Uint32 nl d) (\<lambda>u. Ok (dp\<lparr>dp_Features := u\<rparr>))
     else if typ = dp_attr DpAttrStats then and_then (parseDPStats big d) (\<lambda>s. Ok (dp\<lparr>dp_Stats := s\<rparr>))
     else if typ = dp_attr DpAttrMegaflowStats then
       and_then (parseDPMegaflowStats big d) (\<lambda>s. Ok (dp\<lparr>dp_MegaflowStats := s\<rparr>))
     else Ok dp)"

fun dp_attributes :: "netlink_lib \<Rightarrow> bool \<Rightarrow> Datapath \<Rightarrow> attribute list \<Rightarrow> Datapath result" where
  "dp_attributes nl big dp [] = Ok dp"
| "dp_attributes nl big dp (a # as) = and_then (dp_attribute nl big dp a) (\<lambda>dp'. dp_attributes nl big dp' as)"

definition parseDatapath :: "netlink_lib \<Rightarrow> bool \<Rightarrow> byte list \<Rightarrow> Datapath result" where
  "parseDatapath nl big m =
     and_then (parseHeader big m) (\<lambda>h.
       and_then (UnmarshalAttributes nl (drop sizeofHeader m)) (\<lambda>attrs.
         dp_attributes nl big (zero_Datapath (sint (Ifindex h))) attrs))"

definition parseDatapaths :: "netlink_lib \<Rightarrow> bool \<Rightarrow> byte list list \<Rightarrow> Datapath list result" where
  "parseDatapaths nl big msgs = each (parseDatapath nl big) msgs"

definition pkt_attribute :: "netlink_lib \<Rightarrow> attribute \<Rightarrow> Packet \<Rightarrow> Packet" where
  "pkt_attribute nl = (\<lambda>(typ, d) pkt. if typ = dp_attr DpAttrName then pkt\<lparr>pkt_Packet := nlenc_String nl d\<rparr> else pkt)"

definition parsePacket :: "netlink_lib \<Rightarrow> bool \<Rightarrow> byte list \<Rightarrow> Packet result" where
  "parsePacket nl big m =
     and_then (parseHeader big m) (\<lambda>h.
       and_then (UnmarshalAttributes nl (drop sizeofHeader m)) (\<lambda>attrs.
         Ok (fold (pkt_attribute nl) attrs \<lparr>pkt_Index = sint (Ifindex h), pkt_Packet = []\<rparr>)))"

definition parsePackets :: "netlink_lib \<Rightarrow> bool \<Rightarrow> byte list list \<Rightarrow> Packet list result" where
  "parsePackets nl big msgs = each (parsePacket nl big) msgs"

text \<open>
  A request: command, version and data; \<open>execute\<close> sends it with the family's number as a dump and
  returns the data of the messages received. A nil service is a nil pointer dereference.
\<close>

record request =
  req_Command :: "8 word"
  req_Version :: "8 word"
  req_Data :: "byte list"

type_synonym 'w execute = "request \<Rightarrow> 16 word \<Rightarrow> 'w \<Rightarrow> byte list list result \<times> 'w"

definition dump_request :: "bool \<Rightarrow> 8 word \<Rightarrow> Family \<Rightarrow> request" where
  "dump_request big cmd f =
     \<lparr>req_Command = cmd, req_Version = fam_Version f, req_Data = headerBytes big \<lparr>Ifindex = 0\<rparr>\<rparr>"

definition dump :: "(byte list list \<Rightarrow> 'a result) \<Rightarrow> 8 word \<Rightarrow> bool \<Rightarrow> 'w execute \<Rightarrow> Family option \<Rightarrow> 'w \<Rightarrow> 'a result \<times> 'w" where
  "dump parse cmd big execute s w =
     (case s of
        None \<Rightarrow> (Panic, w)
      | Some f \<Rightarrow>
          (case execute (dump_request big cmd f) (fam_ID f) w of (r, w') \<Rightarrow> (and_then r parse, w')))"

definition List :: "netlink_lib \<Rightarrow> bool \<Rightarrow> 'w execute \<Rightarrow> Family option \<Rightarrow> 'w \<Rightarrow> Datapath list result \<times> 'w" where
  "List nl big execute s w = dump (parseDatapaths nl big) (dp_cmd DpCmdGet) big execute s w"

definition PktList :: "netlink_lib \<Rightarrow> bool \<Rightarrow> 'w execute \<Rightarrow> Family option \<Rightarrow> 'w \<Rightarrow> Packet list result \<times> 'w" where
  "PktList nl big execute s w = dump (parsePackets nl big) (packet_cmd PacketCmdAction) big execute s w"

section \<open>Feature flags\<close>

fun feature_names :: "nat \<Rightarrow> string list \<Rightarrow> 32 word \<Rightarrow> string \<Rightarrow> string" where
  "feature_names i [] f s = s"
| "feature_names i (name # names) f s =
     feature_names (i + 1) names f
       (if f AND push_bit i 1 \<noteq> 0 then (if s \<noteq> [] then s @ ''|'' else s) @ name else s)"

definition DatapathFeatures_String :: "32 word \<Rightarrow> string" where
  "DatapathFeatures_String f =
     (let s = feature_names 0 [''unaligned'', ''vportpids''] f [] in if s = [] then ''0'' else s)"


section \<open>Structures survive the casts\<close>

lemma length_nat_bytes [simp]: "length (nat_bytes k n) = k"
  by (induction k arbitrary: n) simp_all

lemma bytes_nat_bytes: "bytes_nat (nat_bytes k n) = n mod 256 ^ k"
proof (induction k arbitrary: n)
  case (Suc k)
  have "unat (of_nat (n mod 256) :: byte) = n mod 256" by (simp add: unat_of_nat)
  then show ?case using Suc by (simp add: mod_mult2_eq)
qed simp

lemma length_native_bytes [simp]: "length (native_bytes big k n) = k"
  by (simp add: native_bytes_def)

lemma native_round_trip: "native_nat big (native_bytes big k n) = n mod 256 ^ k"
  by (simp add: native_nat_def native_bytes_def bytes_nat_bytes)

lemma native_field_bytes:
  fixes w :: "'a::len word"
  assumes "drop off b = native_bytes big k (unat w) @ r" "LENGTH('a) = 8 * k"
  shows "native_field big off k b = w"
proof -
  have "unat w < 256 ^ k" using unsigned_less [of w] assms(2) by (simp add: power_mult)
  then show ?thesis using assms(1) by (simp add: native_field_def native_round_trip)
qed

text \<open>The structures as the kernel lays them out.\<close>

definition DPStats_bytes :: "bool \<Rightarrow> DatapathStats \<Rightarrow> byte list" where
  "DPStats_bytes big s =
     native_bytes big 8 (unat (Hit s)) @ native_bytes big 8 (unat (Missed s)) @
     native_bytes big 8 (unat (Lost s)) @ native_bytes big 8 (unat (Flows s))"

definition DPMegaflowStats_bytes :: "bool \<Rightarrow> DatapathMegaflowStats \<Rightarrow> byte list \<Rightarrow> byte list" where
  "DPMegaflowStats_bytes big s pad =
     native_bytes big 8 (unat (MaskHits s)) @ native_bytes big 4 (unat (Masks s)) @ pad"

lemma parseHeader_bytes: "parseHeader big (headerBytes big h @ r) = Ok h"
proof -
  have "native_field big 0 4 (take 4 (headerBytes big h @ r)) = Ifindex h"
    by (rule native_field_bytes [of _ _ _ _ _ "[]"]) (simp_all add: headerBytes_def sizeofHeader_def)
  then show ?thesis by (simp add: parseHeader_def headerBytes_def sizeofHeader_def)
qed

lemma parseDPStats_bytes: "parseDPStats big (DPStats_bytes big s) = Ok s"
  by (simp add: parseDPStats_def cast_DPStats_def DPStats_bytes_def sizeofDPStats_def
      native_field_bytes [where w = "Hit s"] native_field_bytes [where w = "Missed s"]
      native_field_bytes [where w = "Lost s"] native_field_bytes [where w = "Flows s" and r = "[]"])

lemma parseDPMegaflowStats_bytes:
  assumes "length pad = 20"
  shows "parseDPMegaflowStats big (DPMegaflowStats_bytes big s pad) = Ok s"
  using assms
  by (simp add: parseDPMegaflowStats_def cast_DPMegaflowStats_def DPMegaflowStats_bytes_def
      sizeofDPMegaflowStats_def native_field_bytes [where w = "MaskHits s"] native_field_bytes [where w = "Masks s"])


section \<open>Which families a client accepts\<close>

definition ovs_families :: "Family list \<Rightarrow> Family list" where
  "ovs_families fs = filter (\<lambda>f. HasPrefix (fam_Name f) ''ovs_'') fs"

definition known_family :: "Family \<Rightarrow> bool" where
  "known_family f \<longleftrightarrow> fam_Name f \<in> {DatapathFamily, PacketFamily, FlowFamily, VportFamily}"

definition last_named :: "string \<Rightarrow> Family list \<Rightarrow> Family option \<Rightarrow> Family option" where
  "last_named name fs dflt = (case filter (\<lambda>f. fam_Name f = name) fs of [] \<Rightarrow> dflt | xs \<Rightarrow> Some (last xs))"

lemmas family_names = DatapathFamily_def PacketFamily_def FlowFamily_def VportFamily_def

lemma initFamily_known:
  "initFamily c f =
     (if known_family f
      then Ok \<lparr>c_Datapath = last_named DatapathFamily [f] (c_Datapath c), c_Packet = last_named PacketFamily [f] (c_Packet c)\<rparr>
      else Err (ErrUnknownFamily (fam_Name f)))"
  by (auto simp: initFamily_def known_family_def last_named_def family_names)

lemma last_named_Cons: "last_named name (f # fs) d = last_named name fs (last_named name [f] d)"
  by (auto simp: last_named_def split: list.splits)

lemma init_loop_spec:
  "init_loop c n fs =
     (case find (\<lambda>f. \<not> known_family f) (ovs_families fs) of
        Some f \<Rightarrow> Err (ErrUnknownFamily (fam_Name f))
      | None \<Rightarrow> Ok (\<lparr>c_Datapath = last_named DatapathFamily (ovs_families fs) (c_Datapath c),
                    c_Packet = last_named PacketFamily (ovs_families fs) (c_Packet c)\<rparr>,
                  n + length (ovs_families fs)))"
proof (induction fs arbitrary: c n)
  case Nil
  show ?case by (simp add: ovs_families_def last_named_def)
next
  case (Cons f fs)
  have "ovs_families (f # fs) = (if HasPrefix (fam_Name f) ''ovs_'' then f # ovs_families fs else ovs_families fs)"
    by (simp add: ovs_families_def)
  then show ?case
    using Cons by (simp add: initFamily_known last_named_Cons [of _ f "ovs_families fs"] split: option.split)
qed

text \<open>Four known families with distinct names are all four.\<close>

lemma four_families:
  assumes "distinct (map fam_Name fs)" "list_all known_family fs" "length fs = 4"
  shows "fam_Name ` set fs = {DatapathFamily, PacketFamily, FlowFamily, VportFamily}"
proof (rule card_subset_eq)
  show "fam_Name ` set fs \<subseteq> {DatapathFamily, PacketFamily, FlowFamily, VportFamily}"
    using assms(2) by (auto simp: list_all_iff known_family_def)
  have "card (fam_Name ` set fs) = 4"
    using assms(1,3) distinct_card [of "map fam_Name fs"] by simp
  then show "card (fam_Name ` set fs) = card {DatapathFamily, PacketFamily, FlowFamily, VportFamily}"
    by (simp add: family_names)
qed simp

lemma last_named_some:
  assumes "name \<in> fam_Name ` set fs"
  shows "\<exists>f \<in> set fs. last_named name fs d = Some f \<and> fam_Name f = name"
proof -
  have ne: "filter (\<lambda>f. fam_Name f = name) fs \<noteq> []" using assms by (auto simp: filter_empty_conv)
  then have "last (filter (\<lambda>f. fam_Name f = name) fs) \<in> set (filter (\<lambda>f. fam_Name f = name) fs)" by (rule last_in_set)
  then show ?thesis using ne by (auto simp: last_named_def split: list.split)
qed

section \<open>Properties\<close>

text \<open>
  C38: when a client can be made. Of the families with the OVS prefix, in the order of the kernel, the first with an unknown
  name is reported; if all are known, none is \<^verbatim>\<open>os.ErrNotExist\<close>, and a number other than four is reported with that number.
  So \<^verbatim>\<open>init\<close> succeeds exactly on four families with the prefix, all known. Since the kernel's families have distinct names, a
  client that was made has both its services set, each to the family of its name.
\<close>

theorem Client_init_families:
  "(\<forall>known f rest. ovs_families fs = known @ f # rest \<and> list_all known_family known \<and> \<not> known_family f \<longrightarrow>
      Client_init \<lparr>c_Datapath = None, c_Packet = None\<rparr> fs = Err (ErrUnknownFamily (fam_Name f))) \<and>
   (list_all known_family (ovs_families fs) \<and> length (ovs_families fs) \<notin> {0, 4} \<longrightarrow>
      Client_init \<lparr>c_Datapath = None, c_Packet = None\<rparr> fs = Err (ErrFamilyCount (length (ovs_families fs)))) \<and>
   (Client_init \<lparr>c_Datapath = None, c_Packet = None\<rparr> fs = Err ErrNotExist \<longleftrightarrow> ovs_families fs = []) \<and>
   (is_ok (Client_init \<lparr>c_Datapath = None, c_Packet = None\<rparr> fs) \<longleftrightarrow>
      length (ovs_families fs) = 4 \<and> list_all known_family (ovs_families fs)) \<and>
   (\<forall>c. Client_init \<lparr>c_Datapath = None, c_Packet = None\<rparr> fs = Ok c \<and> distinct (map fam_Name fs) \<longrightarrow>
      (\<exists>d p. c = \<lparr>c_Datapath = Some d, c_Packet = Some p\<rparr> \<and> {d, p} \<subseteq> set fs \<and>
         fam_Name d = DatapathFamily \<and> fam_Name p = PacketFamily))"
proof -
  let ?o = "ovs_families fs"
  let ?c = "\<lparr>c_Datapath = last_named DatapathFamily ?o None, c_Packet = last_named PacketFamily ?o None\<rparr>"
  have i: "Client_init \<lparr>c_Datapath = None, c_Packet = None\<rparr> fs =
      (case find (\<lambda>f. \<not> known_family f) ?o of
         Some f \<Rightarrow> Err (ErrUnknownFamily (fam_Name f))
       | None \<Rightarrow> if length ?o = 0 then Err ErrNotExist else if length ?o \<noteq> 4 then Err (ErrFamilyCount (length ?o)) else Ok ?c)"
    by (simp add: Client_init_def init_loop_spec split: option.split)
  have k: "find (\<lambda>f. \<not> known_family f) ?o = None \<longleftrightarrow> list_all known_family ?o"
    by (auto simp: find_None_iff list_all_iff)
  have s: "\<exists>d p. ?c = \<lparr>c_Datapath = Some d, c_Packet = Some p\<rparr> \<and> {d, p} \<subseteq> set fs \<and>
         fam_Name d = DatapathFamily \<and> fam_Name p = PacketFamily"
    if "list_all known_family ?o" "length ?o = 4" "distinct (map fam_Name fs)"
  proof -
    have "distinct (map fam_Name ?o)" using that(3) by (simp add: ovs_families_def distinct_map_filter)
    from four_families [OF this that(1,2)] have n: "DatapathFamily \<in> fam_Name ` set ?o" "PacketFamily \<in> fam_Name ` set ?o"
      by simp_all
    have "set ?o \<subseteq> set fs" by (auto simp: ovs_families_def)
    then show ?thesis using last_named_some [OF n(1), of None] last_named_some [OF n(2), of None] by auto
  qed
  have first: "find (\<lambda>f. \<not> known_family f) ?o = Some f" if "?o = known @ f # rest" "list_all known_family known" "\<not> known_family f"
    for known f rest
  proof -
    have "find (\<lambda>f. \<not> known_family f) (known @ f # rest) = Some f" using that(2,3) by (induction known) simp_all
    then show ?thesis by (simp add: that(1))
  qed
  show ?thesis
  proof (cases "find (\<lambda>f. \<not> known_family f) ?o")
    case None
    then show ?thesis using i k s first by (auto split: if_splits)
  next
    case (Some f)
    then have "\<not> list_all known_family ?o" "?o \<noteq> []" using k by auto
    then show ?thesis using i Some first by auto
  qed
qed


definition sample_family :: "string \<Rightarrow> Family" where
  "sample_family name = \<lparr>fam_ID = 7, fam_Version = 2, fam_Name = name\<rparr>"

theorem Client_init_families_witness:
  "\<exists>d p. Client_init \<lparr>c_Datapath = None, c_Packet = None\<rparr>
      (map sample_family [''nlctrl'', ''ovs_datapath'', ''ovs_vport'', ''ovs_flow'', ''ovs_packet'']) =
    Ok \<lparr>c_Datapath = Some d, c_Packet = Some p\<rparr> \<and> fam_Name d = DatapathFamily \<and> fam_Name p = PacketFamily"
proof -
  let ?fs = "map sample_family [''nlctrl'', ''ovs_datapath'', ''ovs_vport'', ''ovs_flow'', ''ovs_packet'']"
  have "length (ovs_families ?fs) = 4" "list_all known_family (ovs_families ?fs)"
    by (simp_all add: ovs_families_def sample_family_def known_family_def family_names)
  then obtain c where "Client_init \<lparr>c_Datapath = None, c_Packet = None\<rparr> ?fs = Ok c"
    using Client_init_families [of ?fs] by (auto simp: is_ok_iff)
  moreover have "distinct (map fam_Name ?fs)" by (simp add: sample_family_def)
  ultimately show ?thesis using Client_init_families [of ?fs] by blast
qed

text \<open>
  A client that could not be made leaves no connection behind. If \<^verbatim>\<open>newClient\<close> fails, for
  whatever reason, the last thing it did was to close the connection; if it succeeds, it has not
  closed it.
\<close>

theorem newClient_closes:
  assumes "fst (listFamilies w) \<noteq> Panic"
  shows "snd (newClient listFamilies close w) =
    (if is_ok (fst (newClient listFamilies close w)) then snd (listFamilies w) else close (snd (listFamilies w)))"
proof -
  have "init_loop c n fs \<noteq> Panic" for c n fs by (simp add: init_loop_spec split: option.split)
  then have "Client_init c fs \<noteq> Panic" for c fs
    by (auto simp: Client_init_def and_then_eq_Panic split: if_splits)
  then show ?thesis
    using assms by (auto simp: newClient_def split: result.split prod.split)
qed

theorem newClient_closes_witness:
  "snd (newClient (\<lambda>n. (Ok [sample_family ''nlctrl''], n)) (\<lambda>n. n + 1) (0 :: nat)) = 1"
proof -
  have "\<not> is_ok (fst (newClient (\<lambda>n. (Ok [sample_family ''nlctrl''], n)) (\<lambda>n. n + 1) (0 :: nat)))"
    by (simp add: newClient_def Client_init_def sample_family_def)
  then show ?thesis
    using newClient_closes [of "\<lambda>n. (Ok [sample_family ''nlctrl''], n)" "0 :: nat" "\<lambda>n. n + 1"] by simp
qed

text \<open>
  The attributes the program reads of a datapath, and a message with attributes \<open>as\<close>. The kernel sends
  others beside them, and promises no order.
\<close>

definition kernel_attributes :: "bool \<Rightarrow> byte list \<Rightarrow> (string \<Rightarrow> byte list) \<Rightarrow> Datapath \<Rightarrow> attribute list" where
  "kernel_attributes big pad enc dp =
     [(dp_attr DpAttrName, enc (dp_Name dp)), (dp_attr DpAttrStats, DPStats_bytes big (dp_Stats dp)),
      (dp_attr DpAttrMegaflowStats, DPMegaflowStats_bytes big (dp_MegaflowStats dp) pad),
      (dp_attr DpAttrUserFeatures, native_bytes big 4 (unat (dp_Features dp)))]"

definition kernel_message :: "bool \<Rightarrow> (attribute list \<Rightarrow> byte list) \<Rightarrow> (Datapath \<Rightarrow> attribute list) \<Rightarrow> Datapath \<Rightarrow> byte list"
  where "kernel_message big pack as dp = headerBytes big \<lparr>Ifindex = word_of_int (dp_Index dp)\<rparr> @ pack (as dp)"

definition read_attribute :: "attribute \<Rightarrow> bool" where
  "read_attribute a \<longleftrightarrow>
     fst a \<in> dp_attr ` {DpAttrName, DpAttrStats, DpAttrMegaflowStats, DpAttrUserFeatures}"

text \<open>The effect of an attribute that can be read; attributes of different types commute.\<close>

definition dp_update :: "netlink_lib \<Rightarrow> bool \<Rightarrow> attribute \<Rightarrow> Datapath \<Rightarrow> Datapath" where
  "dp_update nl big a dp = (case dp_attribute nl big dp a of Ok dp' \<Rightarrow> dp' | _ \<Rightarrow> dp)"

lemma dp_attribute_skips: "\<not> read_attribute a \<Longrightarrow> dp_attribute nl big dp a = Ok dp"
  by (cases a) (auto simp: read_attribute_def dp_attribute_def)

lemma dp_attributes_filter:
  "dp_attributes nl big dp as = dp_attributes nl big dp (filter read_attribute as)"
  by (induction as arbitrary: dp) (simp_all add: dp_attribute_skips)

lemma dp_attributes_fold:
  assumes "\<And>a dp. a \<in> set as \<Longrightarrow> is_ok (dp_attribute nl big dp a)"
  shows "dp_attributes nl big dp as = Ok (fold (dp_update nl big) as dp)"
  using assms
proof (induction as arbitrary: dp)
  case (Cons a as)
  obtain dp' where "dp_attribute nl big dp a = Ok dp'" using Cons.prems [of a dp] by (auto simp: is_ok_iff)
  with Cons show ?case by (simp add: dp_update_def)
qed simp

definition ok_or :: "'a \<Rightarrow> 'a result \<Rightarrow> 'a" where
  "ok_or x r = (case r of Ok y \<Rightarrow> y | _ \<Rightarrow> x)"

lemma dp_update_fields:
  "dp_update nl big (t, d) dp =
     \<lparr>dp_Index = dp_Index dp,
      dp_Name = (if t = dp_attr DpAttrName then nlenc_String nl d else dp_Name dp),
      dp_Features = (if t = dp_attr DpAttrUserFeatures then ok_or (dp_Features dp) (nlenc_Uint32 nl d) else dp_Features dp),
      dp_Stats = (if t = dp_attr DpAttrStats then ok_or (dp_Stats dp) (parseDPStats big d) else dp_Stats dp),
      dp_MegaflowStats = (if t = dp_attr DpAttrMegaflowStats
         then ok_or (dp_MegaflowStats dp) (parseDPMegaflowStats big d) else dp_MegaflowStats dp)\<rparr>"
  by (cases "nlenc_Uint32 nl d"; cases "parseDPStats big d"; cases "parseDPMegaflowStats big d")
    (simp_all add: dp_update_def dp_attribute_def ok_or_def)

lemma dp_update_commute:
  "fst a \<noteq> fst b \<Longrightarrow> dp_update nl big a (dp_update nl big b dp) = dp_update nl big b (dp_update nl big a dp)"
  by (cases a; cases b) (auto simp: dp_update_fields)

lemma dp_attributes_any_order:
  assumes ok: "\<And>a dp. a \<in> set bs \<Longrightarrow> is_ok (dp_attribute nl big dp a)"
    and types: "distinct (map fst bs)" and same: "mset (filter read_attribute as) = mset bs"
  shows "dp_attributes nl big dp as = dp_attributes nl big dp bs"
proof -
  let ?as = "filter read_attribute as"
  have set: "set ?as = set bs" using same by (rule mset_eq_setD)
  have com: "dp_update nl big x \<circ> dp_update nl big y = dp_update nl big y \<circ> dp_update nl big x"
    if "x \<in> set ?as" "y \<in> set ?as" for x y
  proof (cases "x = y")
    case False
    with types that set have "fst x \<noteq> fst y" by (auto simp: distinct_map dest: inj_onD)
    then show ?thesis by (simp add: fun_eq_iff dp_update_commute)
  qed simp
  have "fold (dp_update nl big) ?as = fold (dp_update nl big) bs"
    by (rule fold_multiset_equiv [OF com same])
  moreover have "dp_attributes nl big dp ?as = Ok (fold (dp_update nl big) ?as dp)"
    by (rule dp_attributes_fold) (metis ok set)
  ultimately show ?thesis
    using dp_attributes_filter [of nl big dp as] dp_attributes_fold [of bs nl big dp] ok by simp
qed

text \<open>
  C24: datapaths survive the kernel's encoding. When the netlink package reads attributes,
  strings and 32-bit numbers as they were written, the messages for a list of datapaths with 32-bit
  indexes are parsed to these datapaths, in the byte order of either kind of machine, whatever order
  the attributes come in and whatever attributes of other types lie between them; padding is ignored.
\<close>

theorem parseDatapaths_round_trip:
  assumes unpack: "\<And>dp. dp \<in> set dps \<Longrightarrow> UnmarshalAttributes nl (pack (as dp)) = Ok (as dp)"
    and sent: "\<And>dp. dp \<in> set dps \<Longrightarrow>
      mset (filter read_attribute (as dp)) = mset (kernel_attributes big pad enc dp)"
    and names: "\<And>dp. dp \<in> set dps \<Longrightarrow> nlenc_String nl (enc (dp_Name dp)) = dp_Name dp"
    and numbers: "\<And>u. nlenc_Uint32 nl (native_bytes big 4 (unat u)) = Ok u"
    and pad: "length pad = 20"
    and indexes: "list_all (\<lambda>dp. - (2 ^ 31) \<le> dp_Index dp \<and> dp_Index dp < 2 ^ 31) dps"
  shows "parseDatapaths nl big (map (kernel_message big pack as) dps) = Ok dps"
proof -
  have "parseDatapath nl big (kernel_message big pack as dp) = Ok dp" if dp: "dp \<in> set dps" for dp
  proof -
    let ?bs = "kernel_attributes big pad enc dp"
    have index: "sint (word_of_int (dp_Index dp) :: 32 word) = dp_Index dp"
      using indexes dp by (auto simp: list_all_iff signed_of_int intro: signed_take_bit_int_eq_self)
    have len: "length (headerBytes big h) = 4" for h by (simp add: headerBytes_def sizeofHeader_def)
    note parts = dp_attribute_def parseDPStats_bytes parseDPMegaflowStats_bytes [OF pad] names [OF dp] numbers
    have "dp_attributes nl big z (as dp) = dp_attributes nl big z ?bs" for z
      by (rule dp_attributes_any_order [OF _ _ sent [OF dp]]) (auto simp: kernel_attributes_def parts)
    moreover have "dp_attributes nl big (zero_Datapath (dp_Index dp)) ?bs = Ok dp"
      by (simp add: kernel_attributes_def parts zero_Datapath_def)
    ultimately show ?thesis
      using unpack [OF dp] index len
      by (simp add: parseDatapath_def kernel_message_def parseHeader_bytes sizeofHeader_def)
  qed
  then show ?thesis by (simp add: parseDatapaths_def each_map each_all_Ok [where g = id, simplified])
qed

text \<open>
  A netlink package for the example: attributes with a length, a type and padding to four bytes,
  strings that end with a NUL byte, numbers of four bytes.
\<close>

definition sample_pack :: "attribute list \<Rightarrow> byte list" where
  "sample_pack as = concat (map (\<lambda>(t, d).
     nat_bytes 2 (length d + 4) @ nat_bytes 2 (unat t) @ d @ replicate ((length d + 3) div 4 * 4 - length d) 0) as)"

fun sample_unpack :: "nat \<Rightarrow> byte list \<Rightarrow> attribute list" where
  "sample_unpack 0 b = []"
| "sample_unpack (Suc n) b =
     (if b = [] then []
      else let l = bytes_nat (take 2 b) in
        (of_nat (bytes_nat (take 2 (drop 2 b))), take (l - 4) (drop 4 b)) # sample_unpack n (drop ((l + 3) div 4 * 4) b))"

definition sample_lib :: netlink_lib where
  "sample_lib =
     \<lparr>UnmarshalAttributes = (\<lambda>b. Ok (sample_unpack (length b) b)),
      nlenc_String = (\<lambda>b. map (\<lambda>x. char_of (unat x)) (takeWhile (\<lambda>x. x \<noteq> 0) b)),
      nlenc_Uint32 = (\<lambda>b. if length b = 4 then Ok (of_nat (bytes_nat b)) else Panic)\<rparr>"

definition sample_string :: "string \<Rightarrow> byte list" where
  "sample_string s = map (\<lambda>c. of_nat (of_char c)) s @ [0]"

definition sample_datapath :: Datapath where
  "sample_datapath =
     \<lparr>dp_Index = 5, dp_Name = ''ovs-system'', dp_Features = 3,
      dp_Stats = \<lparr>Hit = 1, Missed = 2, Lost = 3, Flows = 400000\<rparr>,
      dp_MegaflowStats = \<lparr>MaskHits = 10, Masks = 20\<rparr>\<rparr>"

text \<open>The attributes in the reverse order, with one the program does not read.\<close>

definition sample_attributes :: "Datapath \<Rightarrow> attribute list" where
  "sample_attributes dp =
     (dp_attr DpAttrPad, [0, 0]) # rev (kernel_attributes False (replicate 20 0) sample_string dp)"

theorem parseDatapaths_round_trip_witness:
  "parseDatapaths sample_lib False [kernel_message False sample_pack sample_attributes sample_datapath] =
     Ok [sample_datapath]"
proof -
  have a: "UnmarshalAttributes sample_lib (sample_pack (sample_attributes sample_datapath)) =
      Ok (sample_attributes sample_datapath)"
    by code_simp
  have o: "mset (filter read_attribute (sample_attributes dp)) =
      mset (kernel_attributes False (replicate 20 0) sample_string dp)" for dp
    by (simp add: sample_attributes_def kernel_attributes_def read_attribute_def)
  have n: "nlenc_String sample_lib (sample_string (dp_Name sample_datapath)) = dp_Name sample_datapath"
    by code_simp
  have u: "nlenc_Uint32 sample_lib (native_bytes False 4 (unat u)) = Ok u" for u
  proof -
    have "unat u < 256 ^ 4" using unsigned_less [of u] by simp
    then show ?thesis using native_round_trip [of False 4 "unat u"] by (simp add: sample_lib_def native_nat_def)
  qed
  have "parseDatapaths sample_lib False (map (kernel_message False sample_pack sample_attributes) [sample_datapath]) =
      Ok [sample_datapath]"
    by (rule parseDatapaths_round_trip [where pad = "replicate 20 0" and enc = sample_string])
      (use a o n u in \<open>simp_all add: sample_datapath_def\<close>)
  then show ?thesis by simp
qed

text \<open>
  The text of feature flags names exactly the flags that are known and set; flags unknown to the
  program are not shown, and with no known flag set the text is \<^verbatim>\<open>0\<close>.
\<close>

theorem DatapathFeatures_String_flags:
  "DatapathFeatures_String f =
     (if f AND DpFUnaligned = 0 \<and> f AND DpFVportPids = 0 then ''0''
      else Join ((if f AND DpFUnaligned \<noteq> 0 then [''unaligned''] else []) @
                 (if f AND DpFVportPids \<noteq> 0 then [''vportpids''] else [])) ''|'')"
  by (simp add: DatapathFeatures_String_def DpFUnaligned_def DpFVportPids_def)

end
