(* ===== verification/Ntlk_Main.thy ===== *)
theory Ntlk_Main imports Ovs_Netlink Go_Quote begin

text \<open>
  The program \<^verbatim>\<open>ntlk.go\<close>, which lists the datapaths of the kernel over netlink, and the exported
  \<^verbatim>\<open>New\<close> and \<^verbatim>\<open>Close\<close> of \<^verbatim>\<open>ovsnl/client.go\<close>. The connection of the netlink library, standard output,
  the texts of errors and \<^verbatim>\<open>os.IsNotExist\<close> are the fields of \<open>host\<close>.
\<close>

record 'w host =
  Dial :: "'w \<Rightarrow> unit result \<times> 'w"
  ListFamilies :: "'w \<Rightarrow> Family list result \<times> 'w"
  conn_Close :: "'w \<Rightarrow> 'w"
  Execute :: "'w execute"
  Print :: "string \<Rightarrow> 'w \<Rightarrow> 'w"
  IsNotExist :: "error \<Rightarrow> bool"
  err_text :: "error \<Rightarrow> string"
  big_endian :: bool
  nl_lib :: netlink_lib
  rune_print :: "nat \<Rightarrow> bool"

definition ovsnl_New :: "'w host \<Rightarrow> 'w \<Rightarrow> Client result \<times> 'w" where
  "ovsnl_New h w =
     (case Dial h w of
        (Ok _, w') \<Rightarrow> newClient (ListFamilies h) (conn_Close h) w'
      | (Err e, w') \<Rightarrow> (Err e, w')
      | (Panic, w') \<Rightarrow> (Panic, w'))"

text \<open>A call of \<^verbatim>\<open>c.Datapath.List\<close> and what is printed for it; an error prints a message and no entries.\<close>

definition list_and_print :: "'w host \<Rightarrow> string \<Rightarrow> (Datapath \<Rightarrow> string) \<Rightarrow> Client \<Rightarrow> 'w \<Rightarrow> unit result \<times> 'w" where
  "list_and_print h failed entry c w =
     (case List (nl_lib h) (big_endian h) (Execute h) (c_Datapath c) w of
        (Ok dps, w') \<Rightarrow> (Ok (), fold (\<lambda>d. Print h (entry d)) dps w')
      | (Err e, w') \<Rightarrow> (Ok (), Print h (failed @ err_text h e) w')
      | (Panic, w') \<Rightarrow> (Panic, w'))"

definition packets_entry :: "'w host \<Rightarrow> Datapath \<Rightarrow> string" where
  "packets_entry h d = ''packets: '' @ Quote (rune_print h) (dp_Name d)"

definition datapath_entry :: "'w host \<Rightarrow> Datapath \<Rightarrow> string" where
  "datapath_entry h d =
     ''datapath: '' @ Quote (rune_print h) (dp_Name d) @ '', flows: '' @ fmt_d (Flows (dp_Stats d))"

text \<open>
  After the client: \<open>None\<close> is the nil client with which the program goes on after an error; its first use is
  a nil dereference, as is the deferred \<^verbatim>\<open>Close\<close>. Otherwise the connection is closed at the end, also in a panic.
\<close>

definition main_lists :: "'w host \<Rightarrow> Client option \<Rightarrow> 'w \<Rightarrow> unit result \<times> 'w" where
  "main_lists h client w =
     (case client of
        None \<Rightarrow> (Panic, w)
      | Some c \<Rightarrow>
          (case list_and_print h ''failed to list packets: '' (packets_entry h) c w of
             (Ok _, w1) \<Rightarrow>
               (case list_and_print h ''failed to list datapaths: '' (datapath_entry h) c (Print h [CHR 0x0A] w1) of
                  (Ok _, w2) \<Rightarrow> (Ok (), conn_Close h (Print h ([CHR 0x0A] @ ''Stopping go'' @ [CHR 0x0A]) w2))
                | (r, w2) \<Rightarrow> (r, conn_Close h w2))
           | (r, w1) \<Rightarrow> (r, conn_Close h w1)))"

definition main :: "'w host \<Rightarrow> 'w \<Rightarrow> unit result \<times> 'w" where
  "main h w =
     (case ovsnl_New h (Print h (''Testing go'' @ [CHR 0x0A]) w) of
        (Ok c, w1) \<Rightarrow> main_lists h (Some c) w1
      | (Err e, w1) \<Rightarrow>
          if IsNotExist h e then (Ok (), Print h (''generic netlink OVS families not found: '' @ err_text h e) w1)
          else main_lists h None (Print h (''failed to create client '' @ err_text h e) w1)
      | (Panic, w1) \<Rightarrow> (Panic, w1))"

section \<open>Connections and output\<close>

text \<open>
  What can be seen from outside: \<open>opens\<close> counts the connections that are open, \<open>out\<close> is what was printed. Only dialling raises
  the one, only closing lowers it, and only printing adds to the other.
\<close>

definition observes :: "'w host \<Rightarrow> ('w \<Rightarrow> int) \<Rightarrow> ('w \<Rightarrow> string) \<Rightarrow> bool" where
  "observes h opens out \<longleftrightarrow>
     (\<forall>w. opens (snd (Dial h w)) = opens w + (case fst (Dial h w) of Ok _ \<Rightarrow> 1 | _ \<Rightarrow> 0) \<and> out (snd (Dial h w)) = out w) \<and>
     (\<forall>w. opens (snd (ListFamilies h w)) = opens w \<and> out (snd (ListFamilies h w)) = out w) \<and>
     (\<forall>w. opens (conn_Close h w) = opens w - 1 \<and> out (conn_Close h w) = out w) \<and>
     (\<forall>r f w. opens (snd (Execute h r f w)) = opens w \<and> out (snd (Execute h r f w)) = out w) \<and>
     (\<forall>s w. opens (Print h s w) = opens w \<and> out (Print h s w) = out w @ s) \<and>
     (\<forall>w. fst (ListFamilies h w) \<noteq> Panic) \<and> (\<forall>w. fst (Dial h w) \<noteq> Panic)"

lemma observed:
  assumes "observes h opens out"
  shows "opens (snd (ListFamilies h w)) = opens w" "opens (conn_Close h w) = opens w - 1"
    "opens (snd (Execute h r f w)) = opens w" "opens (Print h s w) = opens w"
    "fst (ListFamilies h w) \<noteq> Panic" "fst (Dial h w) \<noteq> Panic"
    "opens (snd (Dial h w)) = opens w + (case fst (Dial h w) of Ok _ \<Rightarrow> 1 | _ \<Rightarrow> 0)"
    "out (snd (ListFamilies h w)) = out w" "out (conn_Close h w) = out w" "out (snd (Execute h r f w)) = out w"
    "out (Print h s w) = out w @ s" "out (snd (Dial h w)) = out w"
  using assms by (simp_all add: observes_def)

lemma observed_New:
  assumes "observes h opens out"
  shows "opens (snd (ovsnl_New h w)) = opens w + (case fst (ovsnl_New h w) of Ok _ \<Rightarrow> 1 | _ \<Rightarrow> 0)"
    "out (snd (ovsnl_New h w)) = out w"
proof -
  obtain r w' where d: "Dial h w = (r, w')" by force
  note o = observed [OF assms]
  let ?n = "newClient (ListFamilies h) (conn_Close h) w'"
  have c: "snd ?n = (if is_ok (fst ?n) then snd (ListFamilies h w') else conn_Close h (snd (ListFamilies h w')))"
    using newClient_closes [of "ListFamilies h" w' "conn_Close h"] o(5) by simp
  show "opens (snd (ovsnl_New h w)) = opens w + (case fst (ovsnl_New h w) of Ok _ \<Rightarrow> 1 | _ \<Rightarrow> 0)"
    using o(6,7) [of w] c by (cases r) (auto simp: ovsnl_New_def d o(1,2) is_ok_def split: result.split)
  show "out (snd (ovsnl_New h w)) = out w"
    using o(12) [of w] c by (cases r) (auto simp: ovsnl_New_def d o(8,9))
qed

text \<open>What the program says of a listing.\<close>

definition listing :: "'w host \<Rightarrow> string \<Rightarrow> (Datapath \<Rightarrow> string) \<Rightarrow> Datapath list result \<Rightarrow> string" where
  "listing h failed entry r = (case r of Ok dps \<Rightarrow> concat (map entry dps) | Err e \<Rightarrow> failed @ err_text h e | Panic \<Rightarrow> [])"

abbreviation datapaths :: "'w host \<Rightarrow> Client \<Rightarrow> 'w \<Rightarrow> Datapath list result" where
  "datapaths h c w \<equiv> fst (List (nl_lib h) (big_endian h) (Execute h) (c_Datapath c) w)"

lemma observed_list:
  assumes "observes h opens out"
  shows "opens (snd (list_and_print h failed entry c w)) = opens w"
    "out (snd (list_and_print h failed entry c w)) = out w @ listing h failed entry (datapaths h c w)"
    "fst (list_and_print h failed entry c w) = (if datapaths h c w = Panic then Panic else Ok ())"
proof -
  note o = observed [OF assms]
  have f: "opens (fold (\<lambda>d. Print h (entry d)) ds w) = opens w"
    "out (fold (\<lambda>d. Print h (entry d)) ds w) = out w @ concat (map entry ds)" for ds w
    by (induction ds arbitrary: w) (simp_all add: o)
  obtain r w' where l: "List (nl_lib h) (big_endian h) (Execute h) (c_Datapath c) w = (r, w')" by force
  have "snd (List (nl_lib h) (big_endian h) (Execute h) (c_Datapath c) w) = w \<or>
      (\<exists>r f. snd (List (nl_lib h) (big_endian h) (Execute h) (c_Datapath c) w) = snd (Execute h r f w))"
    by (auto simp: List_def dump_def split_def split: option.split)
  then have "opens w' = opens w \<and> out w' = out w" using o(3,10) by (auto simp: l)
  then show "opens (snd (list_and_print h failed entry c w)) = opens w"
    "out (snd (list_and_print h failed entry c w)) = out w @ listing h failed entry (datapaths h c w)"
    "fst (list_and_print h failed entry c w) = (if datapaths h c w = Panic then Panic else Ok ())"
    by (cases r; simp add: list_and_print_def listing_def l f o)+
qed

lemma observed_lists:
  assumes "observes h opens out"
  shows "opens (snd (main_lists h (Some c) v)) = opens v - 1"
    "datapaths h c v \<noteq> Panic \<Longrightarrow> \<exists>v'. fst (main_lists h (Some c) v) = (if datapaths h c v' = Panic then Panic else Ok ()) \<and>
      out (snd (main_lists h (Some c) v)) = out v @ listing h ''failed to list packets: '' (packets_entry h) (datapaths h c v) @ [CHR 0x0A] @
        listing h ''failed to list datapaths: '' (datapath_entry h) (datapaths h c v') @
        (if datapaths h c v' = Panic then [] else [CHR 0x0A] @ ''Stopping go'' @ [CHR 0x0A])"
    "datapaths h c v = Panic \<Longrightarrow> fst (main_lists h (Some c) v) = Panic"
proof -
  note o = observed [OF assms] and l = observed_list [OF assms]
  obtain r1 v1 where 1: "list_and_print h ''failed to list packets: '' (packets_entry h) c v = (r1, v1)" by force
  let ?v = "Print h [CHR 0x0A] v1"
  obtain r2 v2 where 2: "list_and_print h ''failed to list datapaths: '' (datapath_entry h) c ?v = (r2, v2)" by force
  note l1 = l [of "''failed to list packets: ''" "packets_entry h" c v, unfolded 1, simplified]
    and l2 = l [of "''failed to list datapaths: ''" "datapath_entry h" c ?v, unfolded 2, simplified]
  show "opens (snd (main_lists h (Some c) v)) = opens v - 1"
    using l1 l2 by (simp add: main_lists_def 1 2 o split: result.split)
  show "fst (main_lists h (Some c) v) = Panic" if "datapaths h c v = Panic"
    using l1 that by (simp add: main_lists_def 1)
  show "\<exists>v'. fst (main_lists h (Some c) v) = (if datapaths h c v' = Panic then Panic else Ok ()) \<and>
      out (snd (main_lists h (Some c) v)) = out v @ listing h ''failed to list packets: '' (packets_entry h) (datapaths h c v) @ [CHR 0x0A] @
        listing h ''failed to list datapaths: '' (datapath_entry h) (datapaths h c v') @
        (if datapaths h c v' = Panic then [] else [CHR 0x0A] @ ''Stopping go'' @ [CHR 0x0A])" if "datapaths h c v \<noteq> Panic"
    using l1 l2 that by (intro exI [of _ ?v]) (simp add: main_lists_def 1 2 o)
qed

text \<open>
  C39: what the program prints, and that it leaves no connection open. Whatever the kernel returns, each netlink
  connection it opens is closed once. After its first line, if the client cannot be made because the families are
  missing, it prints that with the error and ends; for any other reason it prints the error and crashes, since it goes on
  with a nil client. With a client it prints the names of the datapaths, or why they cannot be listed, then, after an end
  of line, the same with the flows from a second listing, then its last line; it crashes only if a listing does.
\<close>

theorem main_prints_and_closes:
  assumes "observes h opens out"
    "ovsnl_New h (Print h (''Testing go'' @ [CHR 0x0A]) w) = (r, v)"
  shows "opens (snd (main h w)) = opens w \<and>
    (\<forall>e. r = Err e \<longrightarrow>
      (if IsNotExist h e
       then fst (main h w) = Ok () \<and>
         out (snd (main h w)) = out w @ ''Testing go'' @ [CHR 0x0A] @ ''generic netlink OVS families not found: '' @ err_text h e
       else fst (main h w) = Panic \<and>
         out (snd (main h w)) = out w @ ''Testing go'' @ [CHR 0x0A] @ ''failed to create client '' @ err_text h e)) \<and>
    (\<forall>c. r = Ok c \<and> datapaths h c v = Panic \<longrightarrow> fst (main h w) = Panic) \<and>
    (\<forall>c. r = Ok c \<and> datapaths h c v \<noteq> Panic \<longrightarrow>
      (\<exists>v'. fst (main h w) = (if datapaths h c v' = Panic then Panic else Ok ()) \<and>
         out (snd (main h w)) = out w @ ''Testing go'' @ [CHR 0x0A] @
           listing h ''failed to list packets: '' (packets_entry h) (datapaths h c v) @ [CHR 0x0A] @
           listing h ''failed to list datapaths: '' (datapath_entry h) (datapaths h c v') @
           (if datapaths h c v' = Panic then [] else [CHR 0x0A] @ ''Stopping go'' @ [CHR 0x0A])))"
proof -
  note o = observed [OF assms(1)] and lists = observed_lists [OF assms(1)]
  have v: "opens v = opens w + (case r of Ok _ \<Rightarrow> 1 | _ \<Rightarrow> 0)" "out v = out w @ ''Testing go'' @ [CHR 0x0A]"
    using observed_New [OF assms(1), of "Print h (''Testing go'' @ [CHR 0x0A]) w"] assms(2) by (simp_all add: o)
  show ?thesis
  proof (cases r)
    case (Ok c)
    then have m: "main h w = main_lists h (Some c) v" using assms(2) by (simp add: main_def)
    show ?thesis using lists(1,3) [of c v] lists(2) [of c v] v unfolding m by (simp add: Ok)
  next
    case (Err e)
    then show ?thesis using v assms(2) by (simp add: main_def main_lists_def o)
  next
    case Panic
    then show ?thesis using v assms(2) by (simp add: main_def)
  qed
qed

definition sample_host :: "(int \<times> string) host" where
  "sample_host =
     \<lparr>Dial = (\<lambda>(n, out). (Ok (), (n + 1, out))),
      ListFamilies = (\<lambda>w. (Ok [sample_family ''ovs_datapath''], w)),
      conn_Close = (\<lambda>(n, out). (n - 1, out)), Execute = (\<lambda>_ _ w. (Ok [], w)),
      Print = (\<lambda>s (n, out). (n, out @ s)), IsNotExist = (\<lambda>e. e = ErrNotExist), err_text = (\<lambda>_. ''expected 4 families''),
      big_endian = False, nl_lib = sample_lib, rune_print = (\<lambda>_. False)\<rparr>"

theorem main_prints_and_closes_witness:
  "fst (main sample_host (0, [])) = Panic \<and>
   snd (main sample_host (0, [])) = (0, ''Testing go'' @ [CHR 0x0A] @ ''failed to create client expected 4 families'')"
proof -
  have c: "observes sample_host fst snd" by (auto simp: observes_def sample_host_def)
  have n: "ovsnl_New sample_host (Print sample_host (''Testing go'' @ [CHR 0x0A]) (0, [])) =
      (Err (ErrFamilyCount 1), 0, ''Testing go'' @ [CHR 0x0A])" by code_simp
  have "\<not> IsNotExist sample_host (ErrFamilyCount 1)" "err_text sample_host (ErrFamilyCount 1) = ''expected 4 families''"
    by code_simp+
  then show ?thesis using main_prints_and_closes [OF c n] by (simp add: prod_eq_iff)
qed

end
