(* ===== verification/Ovsdb_Rpc.thy ===== *)
theory Ovsdb_Rpc imports Go_Json begin

text \<open>
  The messages of the OVSDB client: \<^verbatim>\<open>ovsdb/internal/jsonrpc/conn.go\<close> (requests, responses, the
  connection), \<^verbatim>\<open>ovsdb/result.go\<close> (results and errors in them), \<^verbatim>\<open>ovsdb/transact.go\<close> (the JSON form of
  transactions) and what \<^verbatim>\<open>ovsdb/rpc.go\<close> makes of replies. Numbers are converted by
  \<^verbatim>\<open>strconv.ParseFloat\<close>, of which only success matters: it is the parameter \<open>float_ok\<close>.
\<close>

section \<open>Decoding into structs\<close>

text \<open>
  \<^verbatim>\<open>encoding/json\<close> finds the field of a key regardless of case: besides the ASCII letters, U+017F
  folds to \<open>s\<close> and U+212A to \<open>k\<close>.
\<close>

fun fold_key :: "string \<Rightarrow> string" where
  "fold_key [] = []"
| "fold_key (c # s) =
     (if HasPrefix (c # s) [CHR 0xC5, CHR 0xBF] then CHR ''s'' # fold_key (drop 1 s)
      else if HasPrefix (c # s) [CHR 0xE2, CHR 0x84, CHR 0xAA] then CHR ''k'' # fold_key (drop 2 s)
      else lower_byte c # fold_key s)"

text \<open>A \<^verbatim>\<open>string\<close> field: \<^verbatim>\<open>null\<close> leaves it as it is.\<close>

fun json_string_field :: "string \<Rightarrow> json \<Rightarrow> string result" where
  "json_string_field old (JStr s) = Ok s"
| "json_string_field old JNull = Ok old"
| "json_string_field old _ = Err ErrJSONType"

text \<open>The numbers in a value that is decoded into an \<^verbatim>\<open>interface{}\<close>.\<close>

fun json_numbers :: "json \<Rightarrow> string list" where
  "json_numbers (JNum n) = [n]"
| "json_numbers (JArr vs) = concat (map json_numbers vs)"
| "json_numbers (JObj kvs) = concat (map (\<lambda>kv. json_numbers (snd kv)) kvs)"
| "json_numbers _ = []"

definition json_interface :: "(string \<Rightarrow> bool) \<Rightarrow> json \<Rightarrow> json result" where
  "json_interface float_ok v = (if list_all float_ok (json_numbers v) then Ok v else Err ErrJSONType)"

text \<open>The members of an object, in order, each changing the struct; the first type error is reported.\<close>

fun json_struct :: "('m \<Rightarrow> 'r \<Rightarrow> 'r result) \<Rightarrow> 'm list \<Rightarrow> 'r \<Rightarrow> 'r result" where
  "json_struct field [] r = Ok r"
| "json_struct field (m # ms) r = and_then (field m r) (json_struct field ms)"

section \<open>Requests and responses\<close>

record Request =
  req_ID :: string
  req_Method :: string
  req_Params :: "json option"

definition Request_json :: "Request \<Rightarrow> json" where
  "Request_json r =
     JObj [(''id'', JStr (req_ID r)), (''method'', JStr (req_Method r)),
           (''params'', case req_Params r of None \<Rightarrow> JNull | Some p \<Rightarrow> p)]"

text \<open>
  \<^verbatim>\<open>Send\<close>: \<open>write\<close> is the \<^verbatim>\<open>Write\<close> method of the connection, which the encoder calls once, with the
  request on a line of its own. The encoder keeps the error of a failed write and returns it from
  then on.
\<close>

definition Send ::
  "(string \<Rightarrow> 'w \<Rightarrow> error option \<times> 'w) \<Rightarrow> Request \<Rightarrow> error option \<times> 'w \<Rightarrow> unit result \<times> error option \<times> 'w" where
  "Send write r = (\<lambda>(enc_err, w).
     if req_ID r = [] then (Err ErrRequestID, enc_err, w)
     else
       let r' = (case req_Params r of None \<Rightarrow> r\<lparr>req_Params := Some (JArr [])\<rparr> | Some _ \<Rightarrow> r) in
       case enc_err of
         Some e \<Rightarrow> (Err (ErrEncode e), enc_err, w)
       | None \<Rightarrow>
           (case write (json_text (Request_json r') @ [CHR 0x0A]) w of
              (None, w') \<Rightarrow> (Ok (), None, w')
            | (Some e, w') \<Rightarrow> (Err (ErrEncode e), Some e, w')))"

record Response =
  rsp_ID :: "string option"
  rsp_Result :: "string option"
  rsp_Error :: "(string \<times> json) option"
  rsp_Method :: string
  rsp_Params :: "string option"

definition zero_Response :: Response where
  "zero_Response = \<lparr>rsp_ID = None, rsp_Result = None, rsp_Error = None, rsp_Method = [], rsp_Params = None\<rparr>"

fun json_pointer :: "json \<Rightarrow> string option result" where
  "json_pointer JNull = Ok None"
| "json_pointer (JStr s) = Ok (Some s)"
| "json_pointer _ = Err ErrJSONType"

definition Response_member :: "(string \<Rightarrow> bool) \<Rightarrow> string \<times> string \<times> json \<Rightarrow> Response \<Rightarrow> Response result" where
  "Response_member float_ok = (\<lambda>(k, raw, v) r.
     if fold_key k = ''id'' then and_then (json_pointer v) (\<lambda>p. Ok (r\<lparr>rsp_ID := p\<rparr>))
     else if fold_key k = ''result'' then Ok (r\<lparr>rsp_Result := Some raw\<rparr>)
     else if fold_key k = ''error'' then
       and_then (json_interface float_ok v) (\<lambda>v'. Ok (r\<lparr>rsp_Error := if v' = JNull then None else Some (raw, v')\<rparr>))
     else if fold_key k = ''method'' then
       and_then (json_string_field (rsp_Method r) v) (\<lambda>s. Ok (r\<lparr>rsp_Method := s\<rparr>))
     else if fold_key k = ''params'' then Ok (r\<lparr>rsp_Params := Some raw\<rparr>)
     else Ok r)"

definition Response_decode :: "(string \<Rightarrow> bool) \<Rightarrow> json \<Rightarrow> jmembers \<Rightarrow> Response result" where
  "Response_decode float_ok v ms =
     (case v of
        JObj _ \<Rightarrow> json_struct (Response_member float_ok) ms zero_Response
      | JNull \<Rightarrow> Ok zero_Response
      | _ \<Rightarrow> Err ErrJSONType)"

definition Response_Err :: "Response \<Rightarrow> error option" where
  "Response_Err r = map_option (\<lambda>(raw, _). ErrRPC raw) (rsp_Error r)"

text \<open>
  The decoder of a connection: the texts that arrive, each one value as far as the decoder can
  tell, and the error it stopped at. After malformed input or an error of the connection the decoder
  returns the same error for ever; a value of the wrong type is skipped.
\<close>

datatype arrival = Text string | ReadError error

record decoder =
  dec_input :: "arrival list"
  dec_err :: "error option"

definition decode_error :: "error \<Rightarrow> error" where
  "decode_error e = (if e = ErrEOF then e else ErrDecode e)"

text \<open>\<^verbatim>\<open>Receive\<close>; \<open>None\<close> if it blocks.\<close>

definition Receive :: "(string \<Rightarrow> bool) \<Rightarrow> decoder \<Rightarrow> (Response result \<times> decoder) option" where
  "Receive float_ok d =
     (case dec_err d of
        Some e \<Rightarrow> Some (Err (decode_error e), d)
      | None \<Rightarrow>
          (case dec_input d of
             [] \<Rightarrow> None
           | ReadError e # rest \<Rightarrow> Some (Err (decode_error e), \<lparr>dec_input = rest, dec_err = Some e\<rparr>)
           | Text s # rest \<Rightarrow>
               (case json_parse s of
                  None \<Rightarrow> Some (Err (decode_error ErrJSONSyntax), \<lparr>dec_input = rest, dec_err = Some ErrJSONSyntax\<rparr>)
                | Some (_, v, ms) \<Rightarrow>
                    Some (case Response_decode float_ok v ms of Err e \<Rightarrow> Err (decode_error e) | r \<Rightarrow> r,
                          \<lparr>dec_input = rest, dec_err = None\<rparr>))))"

section \<open>Results\<close>

record rpcResponse =
  rr_Result :: "string option"
  rr_Error :: "error option"

definition errPrefix :: string where
  "errPrefix = [CHR 0x7B, CHR 0x22] @ ''error'' @ [CHR 0x22, CHR '':'']"

definition Error_member :: "string \<times> json \<Rightarrow> string \<times> string \<times> string \<Rightarrow> (string \<times> string \<times> string) result" where
  "Error_member = (\<lambda>(k, v) (err, details, syntax).
     if fold_key k = ''error'' then and_then (json_string_field err v) (\<lambda>s. Ok (s, details, syntax))
     else if fold_key k = ''details'' then and_then (json_string_field details v) (\<lambda>s. Ok (err, s, syntax))
     else if fold_key k = ''syntax'' then and_then (json_string_field syntax v) (\<lambda>s. Ok (err, details, s))
     else Ok (err, details, syntax))"

fun Error_decode :: "json \<Rightarrow> (string \<times> string \<times> string) result" where
  "Error_decode (JObj kvs) = json_struct Error_member kvs ([], [], [])"
| "Error_decode _ = Err ErrJSONType"

text \<open>
  \<^verbatim>\<open>result.UnmarshalJSON\<close>: the reply, or the error the server returned; \<open>decode\<close> is the decoding into
  the type of the reply.
\<close>

datatype 'a reply = Reply 'a | ServerError error

definition result_UnmarshalJSON :: "(json \<Rightarrow> 'a result) \<Rightarrow> string \<Rightarrow> json \<Rightarrow> 'a reply result" where
  "result_UnmarshalJSON decode b v =
     (if \<not> HasPrefix b errPrefix then and_then (decode v) (\<lambda>x. Ok (Reply x))
      else and_then (Error_decode v) (\<lambda>(err, details, syntax). Ok (ServerError (OvsdbError err details syntax))))"

text \<open>
  \<^verbatim>\<open>rpcResult\<close>: \<^verbatim>\<open>json.Unmarshal(res.Result, &r)\<close> sets the pointer \<^verbatim>\<open>r\<close> itself to nil for a \<^verbatim>\<open>null\<close>,
  and reading \<^verbatim>\<open>r.Err\<close> then panics.
\<close>

definition rpcResult :: "(json \<Rightarrow> 'a result) \<Rightarrow> rpcResponse \<Rightarrow> 'a result" where
  "rpcResult decode res =
     (case rr_Error res of
        Some e \<Rightarrow> Err e
      | None \<Rightarrow>
          (case json_parse (case rr_Result res of None \<Rightarrow> [] | Some s \<Rightarrow> s) of
             None \<Rightarrow> Err ErrJSONSyntax
           | Some (raw, v, _) \<Rightarrow>
               if v = JNull then Panic
               else and_then (result_UnmarshalJSON decode raw v) (\<lambda>r.
                 case r of Reply x \<Rightarrow> Ok x | ServerError e \<Rightarrow> Err e)))"

section \<open>Transactions\<close>

record Cond =
  Column :: string
  Function :: string
  Value :: string

definition Equal :: "string \<Rightarrow> string \<Rightarrow> Cond" where
  "Equal column v = \<lparr>Column = column, Function = ''=='', Value = v\<rparr>"

definition Cond_json :: "Cond \<Rightarrow> json" where
  "Cond_json c = JArr [JStr (Column c), JStr (Function c), JStr (Value c)]"

record Select =
  sel_Table :: string
  sel_Where :: "Cond list"

definition Select_json :: "Select \<Rightarrow> json" where
  "Select_json s =
     JObj [(''op'', JStr ''select''), (''table'', JStr (sel_Table s)),
           (''where'', JArr (map Cond_json (sel_Where s)))]"

definition transactArg_json :: "string \<Rightarrow> Select list \<Rightarrow> json" where
  "transactArg_json db ops = JArr (JStr db # map Select_json ops)"

section \<open>Replies\<close>

text \<open>\<^verbatim>\<open>[1]string\<close>: missing elements stay empty, further ones are skipped.\<close>

fun json_one_string :: "json \<Rightarrow> string result" where
  "json_one_string (JArr []) = Ok []"
| "json_one_string (JArr (v # _)) = json_string_field [] v"
| "json_one_string JNull = Ok []"
| "json_one_string _ = Err ErrJSONType"

type_synonym Row = "string \<rightharpoonup> json"

text \<open>Decoding into a map that is there already adds to it.\<close>

fun json_row :: "(string \<Rightarrow> bool) \<Rightarrow> Row \<Rightarrow> json \<Rightarrow> Row result" where
  "json_row float_ok old (JObj kvs) =
     and_then (json_interface float_ok (JObj kvs)) (\<lambda>_. Ok (old ++ map_of (rev kvs)))"
| "json_row float_ok old JNull = Ok Map.empty"
| "json_row float_ok old _ = Err ErrJSONType"

fun json_row_list :: "(string \<Rightarrow> bool) \<Rightarrow> Row list \<Rightarrow> json list \<Rightarrow> Row list result" where
  "json_row_list float_ok olds [] = Ok []"
| "json_row_list float_ok olds (v # vs) =
     and_then (json_row float_ok (case olds of [] \<Rightarrow> Map.empty | old # _ \<Rightarrow> old) v) (\<lambda>r.
       and_then (json_row_list float_ok (tl olds) vs) (\<lambda>rs. Ok (r # rs)))"

fun json_rows :: "(string \<Rightarrow> bool) \<Rightarrow> Row list \<Rightarrow> json \<Rightarrow> Row list result" where
  "json_rows float_ok olds (JArr vs) = json_row_list float_ok olds vs"
| "json_rows float_ok olds JNull = Ok []"
| "json_rows float_ok olds _ = Err ErrJSONType"

definition op_member :: "(string \<Rightarrow> bool) \<Rightarrow> string \<times> json \<Rightarrow> Row list \<Rightarrow> Row list result" where
  "op_member float_ok = (\<lambda>(k, v) rows. if fold_key k = ''rows'' then json_rows float_ok rows v else Ok rows)"

fun json_op_result :: "(string \<Rightarrow> bool) \<Rightarrow> json \<Rightarrow> Row list result" where
  "json_op_result float_ok (JObj kvs) = json_struct (op_member float_ok) kvs []"
| "json_op_result float_ok JNull = Ok []"
| "json_op_result float_ok _ = Err ErrJSONType"

fun json_op_results :: "(string \<Rightarrow> bool) \<Rightarrow> json \<Rightarrow> Row list list result" where
  "json_op_results float_ok (JArr vs) = each (json_op_result float_ok) vs"
| "json_op_results float_ok JNull = Ok []"
| "json_op_results float_ok _ = Err ErrJSONType"

text \<open>
  The methods of \<^verbatim>\<open>rpc.go\<close>, given what the call of \<^verbatim>\<open>rpc\<close> does with its method, its argument and
  the decoding of its reply.
\<close>

type_synonym ('a, 'w) rpc_call = "string \<Rightarrow> json option \<Rightarrow> (json \<Rightarrow> 'a result) \<Rightarrow> 'w \<Rightarrow> 'a result \<times> 'w"

definition ListDatabases :: "(string list, 'w) rpc_call \<Rightarrow> 'w \<Rightarrow> string list result \<times> 'w" where
  "ListDatabases rpc w = rpc ''list_dbs'' None json_to_strings w"

definition echo_text :: string where "echo_text = ''github.com/digitalocean/go-openvswitch/ovsdb''"

definition Echo :: "(string, 'w) rpc_call \<Rightarrow> 'w \<Rightarrow> unit result \<times> 'w" where
  "Echo rpc w =
     (case rpc ''echo'' (Some (JArr [JStr echo_text])) json_one_string w of (r, w') \<Rightarrow>
        (and_then r (\<lambda>res. if res \<noteq> echo_text then Err (ErrInvalidEcho res) else Ok ()), w'))"

definition Transact :: "(string \<Rightarrow> bool) \<Rightarrow> (Row list list, 'w) rpc_call \<Rightarrow> string \<Rightarrow> Select list \<Rightarrow> 'w \<Rightarrow> Row list result \<times> 'w" where
  "Transact float_ok rpc db ops w =
     (case rpc ''transact'' (Some (transactArg_json db ops)) (json_op_results float_ok) w of (out, w') \<Rightarrow>
        (and_then out (\<lambda>rs. Ok (concat rs)), w'))"


section \<open>Properties\<close>

lemma wf_transactArg: "wf_json (transactArg_json db ops)"
  by (simp add: transactArg_json_def Select_json_def Cond_json_def list_all_iff)

lemma wf_Request: "(\<forall>p. req_Params r = Some p \<longrightarrow> wf_json p) \<Longrightarrow> wf_json (Request_json r)"
  by (simp add: Request_json_def split: option.split)

lemma fixed_utf8:
  "valid_utf8 ''id'' = ''id''" "valid_utf8 ''method'' = ''method''" "valid_utf8 ''params'' = ''params''"
  "valid_utf8 ''op'' = ''op''" "valid_utf8 ''select'' = ''select''" "valid_utf8 ''table'' = ''table''"
  "valid_utf8 ''where'' = ''where''" "valid_utf8 ''error'' = ''error''" "valid_utf8 ''details'' = ''details''"
  "valid_utf8 ''syntax'' = ''syntax''"
  by code_simp+

text \<open>
  C22: requests reach the server as they were meant. A request without an identifier is refused and nothing is written;
  after a failed write nothing is written any more, and the error is that of the failed write. Otherwise \<^verbatim>\<open>Send\<close> makes one
  write, of one JSON object whose members are the identifier, the method and the parameters, whatever characters
  they contain (invalid UTF-8 is replaced), with an empty array for missing parameters, and keeps the error of the
  write, if there is one.
\<close>

theorem Send_writes_request:
  assumes "\<forall>p. req_Params r = Some p \<longrightarrow> wf_json p"
  shows "(req_ID r = [] \<longrightarrow> Send write r (enc_err, w) = (Err ErrRequestID, enc_err, w)) \<and>
    (req_ID r \<noteq> [] \<longrightarrow> Send write r (Some e, w) = (Err (ErrEncode e), Some e, w)) \<and>
    (req_ID r \<noteq> [] \<longrightarrow> (\<exists>line raw ms.
      Send write r (None, w) =
        (case write line w of (None, w') \<Rightarrow> (Ok (), None, w') | (Some e, w') \<Rightarrow> (Err (ErrEncode e), Some e, w')) \<and>
      json_parse line = Some (raw,
        JObj [(''id'', JStr (valid_utf8 (req_ID r))), (''method'', JStr (valid_utf8 (req_Method r))),
              (''params'', case req_Params r of None \<Rightarrow> JArr [] | Some p \<Rightarrow> normal_json p)], ms)))"
proof (intro conjI impI)
  let ?r = "case req_Params r of None \<Rightarrow> r\<lparr>req_Params := Some (JArr [])\<rparr> | Some _ \<Rightarrow> r"
  define line where "line = json_text (Request_json ?r) @ [CHR 0x0A]"
  have "wf_json (Request_json ?r)" using assms by (intro wf_Request) (auto split: option.splits)
  from json_parse_text [OF this, of "[CHR 0x0A]"]
  have p: "json_parse line =
      Some (json_text (Request_json ?r), normal_json (Request_json ?r), last_members (Request_json ?r))"
    by (simp add: line_def)
  have n: "normal_json (Request_json ?r) =
      JObj [(''id'', JStr (valid_utf8 (req_ID r))), (''method'', JStr (valid_utf8 (req_Method r))),
            (''params'', case req_Params r of None \<Rightarrow> JArr [] | Some p \<Rightarrow> normal_json p)]"
    by (simp add: Request_json_def fixed_utf8 split: option.split)
  show "\<exists>line raw ms.
      Send write r (None, w) =
        (case write line w of (None, w') \<Rightarrow> (Ok (), None, w') | (Some e, w') \<Rightarrow> (Err (ErrEncode e), Some e, w')) \<and>
      json_parse line = Some (raw,
        JObj [(''id'', JStr (valid_utf8 (req_ID r))), (''method'', JStr (valid_utf8 (req_Method r))),
              (''params'', case req_Params r of None \<Rightarrow> JArr [] | Some p \<Rightarrow> normal_json p)], ms)" if "req_ID r \<noteq> []"
  proof (intro exI conjI)
    show "Send write r (None, w) =
        (case write line w of (None, w') \<Rightarrow> (Ok (), None, w') | (Some e, w') \<Rightarrow> (Err (ErrEncode e), Some e, w'))"
      using that by (simp add: Send_def Let_def line_def)
  qed (rule p [unfolded n])
qed (simp_all add: Send_def Let_def)

theorem Send_writes_request_witness:
  "(\<exists>line raw ms. Send (\<lambda>t w. (None, w @ [t])) \<lparr>req_ID = ''1'', req_Method = ''list_dbs'', req_Params = None\<rparr> (None, []) =
     (Ok (), None, [line]) \<and>
   json_parse line = Some (raw, JObj [(''id'', JStr ''1''), (''method'', JStr ''list_dbs''), (''params'', JArr [])], ms)) \<and>
   Send (\<lambda>t w. (None, w @ [t])) \<lparr>req_ID = [], req_Method = ''list_dbs'', req_Params = None\<rparr> (None, []) =
     (Err ErrRequestID, None, [])"
proof -
  have "valid_utf8 ''1'' = ''1''" "valid_utf8 ''list_dbs'' = ''list_dbs''" by code_simp+
  then show ?thesis
    using Send_writes_request [of "\<lparr>req_ID = ''1'', req_Method = ''list_dbs'', req_Params = None\<rparr>" "\<lambda>t w. (None, w @ [t])" None "[]"]
      Send_writes_request [of "\<lparr>req_ID = [], req_Method = ''list_dbs'', req_Params = None\<rparr>" "\<lambda>t w. (None, w @ [t])" None "[]"]
    by auto
qed

text \<open>
  A transaction means what its parts say. The parameters of a transaction are the database and one
  \<^verbatim>\<open>select\<close> per operation, in order, and reading the JSON text back gives exactly the table and
  conditions of each, so no name or value can change the structure of the request.
\<close>

theorem transactArg_round_trip:
  "\<exists>raw ms. json_parse (json_text (transactArg_json db ops)) =
     Some (raw, transactArg_json (valid_utf8 db)
       (map (\<lambda>s. \<lparr>sel_Table = valid_utf8 (sel_Table s),
                  sel_Where = map (\<lambda>c. \<lparr>Column = valid_utf8 (Column c), Function = valid_utf8 (Function c),
                    Value = valid_utf8 (Value c)\<rparr>) (sel_Where s)\<rparr>) ops), ms)"
  using json_parse_text [OF wf_transactArg, of "[]" db ops]
  by (simp add: transactArg_json_def Select_json_def Cond_json_def fixed_utf8 comp_def del: json_text.simps)

lemma error_keys: "fold_key ''error'' = ''error''" "fold_key ''details'' = ''details''" "fold_key ''syntax'' = ''syntax''"
  by code_simp+

lemma Error_decode_result: "(\<exists>err details syntax. Error_decode v = Ok (err, details, syntax)) \<or> Error_decode v = Err ErrJSONType"
proof -
  have member: "(\<exists>y. Error_member kv x = Ok y) \<or> Error_member kv x = Err ErrJSONType" for kv x
    by (cases kv; cases x; cases "snd kv") (auto simp: Error_member_def)
  have "(\<exists>y. json_struct Error_member kvs x = Ok y) \<or> json_struct Error_member kvs x = Err ErrJSONType" for kvs x
  proof (induction kvs arbitrary: x)
    case Nil
    show ?case by (cases x) simp
  next
    case (Cons kv kvs)
    from member [of kv x] show ?case
    proof
      assume "\<exists>y. Error_member kv x = Ok y"
      then obtain y where "Error_member kv x = Ok y" ..
      then show ?thesis using Cons [of y] by simp
    qed simp
  qed
  then show ?thesis by (cases v) simp_all
qed

text \<open>
  C37: what a call returns. An error of the connection comes first. A missing or malformed result is a syntax error.
  With a decoder that does not panic, a \<^verbatim>\<open>null\<close> makes the client panic, and nothing else does. A value whose text starts with
  the member \<^verbatim>\<open>error\<close> is never a reply: it is an error of the server or a type error. Anything else is what the decoder
  makes of it. The error a server prints comes back with its three texts.
\<close>

theorem rpcResult_outcomes:
  fixes decode :: "json \<Rightarrow> 'a result"
  assumes "\<And>v. decode v \<noteq> Panic"
  shows "rpcResult decode \<lparr>rr_Result = t, rr_Error = Some e\<rparr> = Err e \<and>
    rpcResult decode \<lparr>rr_Result = None, rr_Error = None\<rparr> = Err ErrJSONSyntax \<and>
    (json_parse s = None \<longrightarrow> rpcResult decode \<lparr>rr_Result = Some s, rr_Error = None\<rparr> = Err ErrJSONSyntax) \<and>
    (\<forall>raw v ms. json_parse s = Some (raw, v, ms) \<longrightarrow>
       (rpcResult decode \<lparr>rr_Result = Some s, rr_Error = None\<rparr> = Panic \<longleftrightarrow> v = JNull) \<and>
       (v \<noteq> JNull \<and> HasPrefix raw errPrefix \<longrightarrow>
          (\<exists>err details syntax. rpcResult decode \<lparr>rr_Result = Some s, rr_Error = None\<rparr> = Err (OvsdbError err details syntax)) \<or>
          rpcResult decode \<lparr>rr_Result = Some s, rr_Error = None\<rparr> = Err ErrJSONType) \<and>
       (v \<noteq> JNull \<and> \<not> HasPrefix raw errPrefix \<longrightarrow>
          rpcResult decode \<lparr>rr_Result = Some s, rr_Error = None\<rparr> = decode v)) \<and>
    rpcResult decode
      \<lparr>rr_Result = Some (json_text (JObj [(''error'', JStr err), (''details'', JStr details), (''syntax'', JStr syntax)])),
       rr_Error = None\<rparr> = Err (OvsdbError (valid_utf8 err) (valid_utf8 details) (valid_utf8 syntax))"
proof (intro conjI allI impI)
  have e: "json_parse [] = None" by code_simp
  show "rpcResult decode \<lparr>rr_Result = t, rr_Error = Some e\<rparr> = Err e" by (simp add: rpcResult_def)
  show "rpcResult decode \<lparr>rr_Result = None, rr_Error = None\<rparr> = Err ErrJSONSyntax" by (simp add: rpcResult_def e)
  show "rpcResult decode \<lparr>rr_Result = Some s, rr_Error = None\<rparr> = Err ErrJSONSyntax" if "json_parse s = None"
    using that by (simp add: rpcResult_def)
next
  fix raw v ms
  assume s: "json_parse s = Some (raw, v, ms)"
  show plain: "rpcResult decode \<lparr>rr_Result = Some s, rr_Error = None\<rparr> = decode v" if "v \<noteq> JNull \<and> \<not> HasPrefix raw errPrefix"
    using that by (cases "decode v") (simp_all add: rpcResult_def s result_UnmarshalJSON_def)
  show error: "(\<exists>err details syntax. rpcResult decode \<lparr>rr_Result = Some s, rr_Error = None\<rparr> = Err (OvsdbError err details syntax)) \<or>
      rpcResult decode \<lparr>rr_Result = Some s, rr_Error = None\<rparr> = Err ErrJSONType" if "v \<noteq> JNull \<and> HasPrefix raw errPrefix"
    using that Error_decode_result [of v] by (auto simp: rpcResult_def s result_UnmarshalJSON_def)
  have "rpcResult decode \<lparr>rr_Result = Some s, rr_Error = None\<rparr> = Panic" if "v = JNull"
    using that by (simp add: rpcResult_def s)
  then show "rpcResult decode \<lparr>rr_Result = Some s, rr_Error = None\<rparr> = Panic \<longleftrightarrow> v = JNull"
    using plain error assms [of v] by (cases "HasPrefix raw errPrefix") force+
next
  let ?v = "JObj [(''error'', JStr err), (''details'', JStr details), (''syntax'', JStr syntax)]"
  have "wf_json ?v" by simp
  from json_parse_text [OF this, of "[]"]
  have p: "json_parse (json_text ?v) = Some (json_text ?v, normal_json ?v, last_members ?v)" by simp
  have n: "normal_json ?v = JObj [(''error'', JStr (valid_utf8 err)), (''details'', JStr (valid_utf8 details)), (''syntax'', JStr (valid_utf8 syntax))]"
    by (simp add: fixed_utf8)
  have "encode_string ''error'' = [CHR 0x22] @ ''error'' @ [CHR 0x22]" by code_simp
  then have "HasPrefix (json_text ?v) errPrefix" by (simp add: errPrefix_def HasPrefix_def)
  moreover have "Error_decode (normal_json ?v) = Ok (valid_utf8 err, valid_utf8 details, valid_utf8 syntax)"
    unfolding n by (simp add: Error_member_def error_keys del: fold_key.simps)
  ultimately show "rpcResult decode \<lparr>rr_Result = Some (json_text ?v), rr_Error = None\<rparr> =
      Err (OvsdbError (valid_utf8 err) (valid_utf8 details) (valid_utf8 syntax))"
    using p by (simp add: rpcResult_def result_UnmarshalJSON_def del: json_text.simps Error_decode.simps)
qed

theorem rpcResult_outcomes_witness:
  "rpcResult json_to_strings \<lparr>rr_Result = Some ''null'', rr_Error = None\<rparr> = Panic \<and>
   rpcResult json_to_strings \<lparr>rr_Result = Some ''[]'', rr_Error = None\<rparr> = Ok [] \<and>
   rpcResult json_to_strings \<lparr>rr_Result = Some ''['', rr_Error = None\<rparr> = Err ErrJSONSyntax"
proof -
  have n: "json_to_strings v \<noteq> Panic" for v
  proof -
    have "json_string_element x \<noteq> Panic" for x by (cases x) simp_all
    then show ?thesis by (cases v) (simp_all add: each_no_panic)
  qed
  have "json_parse ''null'' = Some (''null'', JNull, [])" "json_parse ''[]'' = Some (''[]'', JArr [], [])" "json_parse ''['' = None"
    by code_simp+
  then show ?thesis
    using rpcResult_outcomes [OF n, where s = "''null''"] rpcResult_outcomes [OF n, where s = "''[]''"]
      rpcResult_outcomes [OF n, where s = "''[''"]
    by (simp add: HasPrefix_def errPrefix_def)
qed

end
