(* ===== verification/Ovsdb_Client.thy ===== *)
theory Ovsdb_Client imports Ovsdb_Rpc begin

text \<open>
  \<^verbatim>\<open>ovsdb/client.go\<close>: the client as a concurrent state machine. Calls of \<^verbatim>\<open>rpc\<close> run in goroutines of
  the callers, one goroutine (\<^verbatim>\<open>listen\<close>) reads responses and hands them to the calls through callbacks,
  another (\<^verbatim>\<open>echoLoop\<close>) answers the server's echo requests with calls of its own. The critical sections
  of the mutex and the channel operations are the atomic steps.
\<close>

section \<open>Channels and callbacks\<close>

record chan =
  buf :: "rpcResponse option"
  closed :: bool

definition empty_chan :: chan where "empty_chan = \<lparr>buf = None, closed = False\<rparr>"

text \<open>What a call of \<^verbatim>\<open>rpc\<close> returns: an error, the result of a response, or a nil error without one.\<close>

datatype outcome = Failed error | Replied rpcResponse | NoError

text \<open>
  How far a call is: the identifier taken, the callback registered, the request sent, about to return
  (the deferred clean-up is next), returned. A call whose context is cancelled takes no identifier.
\<close>

datatype phase = Unused | HasID string | Registered string | Waiting string
  | Returning string outcome | Done "string option" outcome

datatype listener = Reading | Offering | Stopped | Crashed

datatype echoer = Idle | InCall nat | Ended | EchoCrashed

record client =
  rpcID :: "64 word"
  echoOK :: int
  echoFail :: int
  callbacks :: "string \<rightharpoonup> nat"
  chans :: "nat \<Rightarrow> chan"
  phases :: "nat \<Rightarrow> phase"
  cancelled :: "nat \<Rightarrow> bool"
  closing :: bool
  listen_at :: listener
  echo_at :: echoer
  started :: nat  \<comment> \<open>how many identifiers were taken\<close>
  received :: "(string \<times> rpcResponse) set"  \<comment> \<open>the responses that arrived\<close>

definition new_client :: client where
  "new_client =
     \<lparr>rpcID = 0, echoOK = 0, echoFail = 0, callbacks = Map.empty, chans = (\<lambda>_. empty_chan),
      phases = (\<lambda>_. Unused), cancelled = (\<lambda>_. False), closing = False, listen_at = Reading,
      echo_at = Idle, started = 0, received = {}\<rparr>"

text \<open>\<^verbatim>\<open>requestID\<close>: the counter after an atomic increment, in decimal.\<close>

definition id_text :: "64 word \<Rightarrow> string" where
  "id_text w = Itoa (sint w)"

definition requestID :: "client \<Rightarrow> string \<times> client" where
  "requestID c = (id_text (rpcID c + 1), c\<lparr>rpcID := rpcID c + 1, started := started c + 1\<rparr>)"

definition addCallback :: "string \<Rightarrow> nat \<Rightarrow> client \<Rightarrow> client result" where
  "addCallback i k c =
     (if callbacks c i \<noteq> None then Panic else Ok (c\<lparr>callbacks := (callbacks c)(i \<mapsto> k)\<rparr>))"

text \<open>Sending on a channel of capacity 1 blocks (\<open>None\<close>) when it is full and panics when it is closed.\<close>

definition chan_send :: "rpcResponse \<Rightarrow> chan \<Rightarrow> chan result option" where
  "chan_send r ch =
     (if closed ch then Some Panic else if buf ch = None then Some (Ok (ch\<lparr>buf := Some r\<rparr>)) else None)"

definition chan_close :: "chan \<Rightarrow> chan result" where
  "chan_close ch = (if closed ch then Panic else Ok (ch\<lparr>closed := True\<rparr>))"

text \<open>
  \<^verbatim>\<open>doCallback\<close>: \<open>pick\<close> is the choice of the \<^verbatim>\<open>select\<close> when the context is cancelled and the channel
  ready; \<open>None\<close> means that the listener blocks, holding the mutex.
\<close>

definition finish_callback :: "string \<Rightarrow> nat \<Rightarrow> chan \<Rightarrow> client \<Rightarrow> client result" where
  "finish_callback i k ch c =
     and_then (chan_close ch) (\<lambda>ch'.
       Ok (c\<lparr>callbacks := (callbacks c)(i := None), chans := (chans c)(k := ch')\<rparr>))"

definition doCallback :: "bool \<Rightarrow> string \<Rightarrow> rpcResponse \<Rightarrow> client \<Rightarrow> client result option" where
  "doCallback pick i res c =
     (case callbacks c i of
        None \<Rightarrow> Some (Ok c)
      | Some k \<Rightarrow>
          let drop = Some (finish_callback i k (chans c k) c) in
          if cancelled c k \<and> pick then drop
          else case chan_send res (chans c k) of
            None \<Rightarrow> if cancelled c k then drop else None
          | Some r \<Rightarrow> Some (and_then r (\<lambda>ch. finish_callback i k ch c)))"

text \<open>The deferred clean-up of a call.\<close>

definition deleteCallback :: "string \<Rightarrow> client \<Rightarrow> client" where
  "deleteCallback i c = c\<lparr>callbacks := (callbacks c)(i := None)\<rparr>"

definition Stats_Current :: "client \<Rightarrow> nat" where
  "Stats_Current c = card (dom (callbacks c))"

section \<open>What the listener does with a message\<close>

definition closed_text :: string where "closed_text = ''use of closed network connection''"

text \<open>\<open>error_text\<close> is the method \<^verbatim>\<open>Error()\<close>.\<close>

definition isClosedNetwork :: "(error \<Rightarrow> string) \<Rightarrow> error option \<Rightarrow> bool" where
  "isClosedNetwork error_text e = (case e of None \<Rightarrow> False | Some e' \<Rightarrow> Contains (error_text e') closed_text)"

datatype action = Stop | Skip | OfferEcho | Callback string rpcResponse | Crash

definition listen_action :: "(error \<Rightarrow> string) \<Rightarrow> Response result \<Rightarrow> action" where
  "listen_action error_text r =
     (case r of
        Err e \<Rightarrow> if e = ErrEOF \<or> isClosedNetwork error_text (Some e) then Stop else Skip
      | Panic \<Rightarrow> Crash
      | Ok res \<Rightarrow>
          if rsp_Method res = ''echo'' then OfferEcho
          else case rsp_ID res of
            None \<Rightarrow> Crash
          | Some i \<Rightarrow>
              (case Response_Err res of
                 Some e \<Rightarrow> Callback i \<lparr>rr_Result = None, rr_Error = Some e\<rparr>
               | None \<Rightarrow> Callback i \<lparr>rr_Result = rsp_Result res, rr_Error = None\<rparr>))"

text \<open>The first \<open>n\<close> rounds of the loop of \<^verbatim>\<open>listen\<close>, as the actions it takes.\<close>

fun listen_rounds :: "(error \<Rightarrow> string) \<Rightarrow> (string \<Rightarrow> bool) \<Rightarrow> nat \<Rightarrow> decoder \<Rightarrow> action list" where
  "listen_rounds error_text float_ok 0 d = []"
| "listen_rounds error_text float_ok (Suc n) d =
     (case Receive float_ok d of
        None \<Rightarrow> []
      | Some (r, d') \<Rightarrow>
          let a = listen_action error_text r in
          if a = Stop \<or> a = Crash then [a] else a # listen_rounds error_text float_ok n d')"

text \<open>
  What the call of \<^verbatim>\<open>rpc\<close> returns to its caller: \<open>zero\<close> is the value of \<^verbatim>\<open>out\<close> before the call.
\<close>

definition call_result :: "'a \<Rightarrow> (json \<Rightarrow> 'a result) \<Rightarrow> outcome \<Rightarrow> 'a result" where
  "call_result zero decode out =
     (case out of Failed e \<Rightarrow> Err e | Replied r \<Rightarrow> rpcResult decode r | NoError \<Rightarrow> Ok zero)"

definition echo_result :: "outcome \<Rightarrow> unit result" where
  "echo_result out = fst (Echo (\<lambda>_ _ decode w. (call_result [] decode out, w)) ())"

text \<open>The end of a round of \<^verbatim>\<open>echoLoop\<close>: the counters after an echo.\<close>

definition echo_counted :: "(error \<Rightarrow> string) \<Rightarrow> unit result \<Rightarrow> client \<Rightarrow> client" where
  "echo_counted error_text r c =
     (case r of
        Ok _ \<Rightarrow> c\<lparr>echoOK := echoOK c + 1, echo_at := Idle\<rparr>
      | Err e \<Rightarrow>
          if isClosedNetwork error_text (Some e) then c\<lparr>echo_at := Idle\<rparr>
          else c\<lparr>echoFail := echoFail c + 1, echo_at := Idle\<rparr>
      | Panic \<Rightarrow> c\<lparr>echo_at := EchoCrashed\<rparr>)"

section \<open>The steps\<close>

abbreviation set_phase :: "nat \<Rightarrow> phase \<Rightarrow> client \<Rightarrow> client" where
  "set_phase k p c \<equiv> c\<lparr>phases := (phases c)(k := p)\<rparr>"

text \<open>
  Steps of the calls (\<^verbatim>\<open>rpc\<close>), of the listener and of the echo loop. Messages are arbitrary: the server
  is not part of the program. Of \<^verbatim>\<open>echoTicker\<close> there is only the echo it may trigger at any time, and rounds of the listener
  in which it skips an error change nothing here; \<open>Close_Returns\<close> adds that goroutine and the state of the decoder.
\<close>

inductive step :: "client \<Rightarrow> client \<Rightarrow> bool" where
  refused: "phases c k = Unused \<Longrightarrow> cancelled c k \<Longrightarrow> step c (set_phase k (Done None (Failed ErrCanceled)) c)"
| take_id: "phases c k = Unused \<Longrightarrow> \<not> cancelled c k \<Longrightarrow> requestID c = (i, c') \<Longrightarrow> step c (set_phase k (HasID i) c')"
| register: "phases c k = HasID i \<Longrightarrow> addCallback i k c = Ok c' \<Longrightarrow> step c (set_phase k (Registered i) c')"
| sent: "phases c k = Registered i \<Longrightarrow> step c (set_phase k (Waiting i) c)"
| send_fails: "phases c k = Registered i \<Longrightarrow> step c (set_phase k (Returning i (Failed e)) c)"
| give_up: "phases c k = Waiting i \<Longrightarrow> cancelled c k \<Longrightarrow> step c (set_phase k (Returning i (Failed ErrCanceled)) c)"
| take_response: "phases c k = Waiting i \<Longrightarrow> buf (chans c k) = Some r \<Longrightarrow>
    step c (set_phase k (Returning i (Replied r)) (c\<lparr>chans := (chans c)(k := (chans c k)\<lparr>buf := None\<rparr>)\<rparr>))"
| woken: "phases c k = Waiting i \<Longrightarrow> buf (chans c k) = None \<Longrightarrow> closed (chans c k) \<Longrightarrow>
    step c (set_phase k (Returning i (if cancelled c k then Failed ErrCanceled else NoError)) c)"
| return: "phases c k = Returning i out \<Longrightarrow> step c (set_phase k (Done (Some i) out) (deleteCallback i c))"
| deliver: "listen_at c = Reading \<Longrightarrow> listen_action et m = Callback i r \<Longrightarrow> doCallback pick i r c = Some (Ok c') \<Longrightarrow>
    step c (c'\<lparr>received := insert (i, r) (received c')\<rparr>)"
| offer: "listen_at c = Reading \<Longrightarrow> listen_action et m = OfferEcho \<Longrightarrow> step c (c\<lparr>listen_at := Offering\<rparr>)"
| stop: "listen_at c = Reading \<Longrightarrow> listen_action et m = Stop \<Longrightarrow> step c (c\<lparr>listen_at := Stopped\<rparr>)"
| crash: "listen_at c = Reading \<Longrightarrow> listen_action et m = Crash \<Longrightarrow> step c (c\<lparr>listen_at := Crashed\<rparr>)"
| hand_over: "listen_at c = Offering \<Longrightarrow> echo_at c = Idle \<Longrightarrow> \<not> closing c \<Longrightarrow> phases c k = Unused \<Longrightarrow> \<not> cancelled c k \<Longrightarrow>
    step c (c\<lparr>listen_at := Reading, echo_at := InCall k\<rparr>)"
| hand_over_late: "listen_at c = Offering \<Longrightarrow> echo_at c = Idle \<Longrightarrow> closing c \<Longrightarrow>
    step c (c\<lparr>listen_at := Reading, echo_at := Ended\<rparr>)"
| tick: "echo_at c = Idle \<Longrightarrow> \<not> closing c \<Longrightarrow> phases c k = Unused \<Longrightarrow> \<not> cancelled c k \<Longrightarrow>
    step c (c\<lparr>echo_at := InCall k\<rparr>)"
| echo_done: "echo_at c = InCall k \<Longrightarrow> phases c k = Done i out \<Longrightarrow>
    step c (echo_counted et (echo_result out) c)"
| drop_offer: "listen_at c = Offering \<Longrightarrow> closing c \<Longrightarrow> step c (c\<lparr>listen_at := Reading\<rparr>)"
| end_echo: "echo_at c = Idle \<Longrightarrow> closing c \<Longrightarrow> step c (c\<lparr>echo_at := Ended\<rparr>)"

text \<open>
  Cancellation: of the context of a caller, or, by \<^verbatim>\<open>Close\<close>, of the client's own, which is also that of
  the echo calls.
\<close>

inductive cancel :: "client \<Rightarrow> client \<Rightarrow> bool" where
  caller: "echo_at c \<noteq> InCall k \<Longrightarrow> cancel c (c\<lparr>cancelled := (cancelled c)(k := True)\<rparr>)"
| close: "cancel c (c\<lparr>closing := True, cancelled := (\<lambda>k. cancelled c k \<or> echo_at c = InCall k)\<rparr>)"

inductive reachable :: "client \<Rightarrow> bool" where
  init: "reachable new_client"
| step: "reachable c \<Longrightarrow> step c c' \<Longrightarrow> reachable c'"
| cancel: "reachable c \<Longrightarrow> cancel c c' \<Longrightarrow> reachable c'"

inductive_cases stepE: "step c c'"
inductive_cases cancelE: "cancel c c'"


section \<open>Invariants\<close>

text \<open>The identifier a call has, and the one it may be registered under.\<close>

fun owned_id :: "phase \<Rightarrow> string option" where
  "owned_id (Registered i) = Some i"
| "owned_id (Waiting i) = Some i"
| "owned_id (Returning i _) = Some i"
| "owned_id _ = None"

fun taken_id :: "phase \<Rightarrow> string option" where
  "taken_id (HasID i) = Some i"
| "taken_id (Done i _) = i"
| "taken_id p = owned_id p"

fun fresh_phase :: "phase \<Rightarrow> bool" where
  "fresh_phase Unused = True"
| "fresh_phase (HasID _) = True"
| "fresh_phase _ = False"

fun outcome_of :: "phase \<Rightarrow> (string option \<times> outcome) option" where
  "outcome_of (Returning i out) = Some (Some i, out)"
| "outcome_of (Done i out) = Some (i, out)"
| "outcome_of _ = None"

definition inv_callbacks :: "client \<Rightarrow> bool" where
  "inv_callbacks c \<longleftrightarrow>
     (\<forall>i k. callbacks c i = Some k \<longrightarrow> owned_id (phases c k) = Some i \<and> chans c k = empty_chan) \<and>
     (\<forall>k. fresh_phase (phases c k) \<longrightarrow> chans c k = empty_chan)"

definition inv_ids :: "client \<Rightarrow> bool" where
  "inv_ids c \<longleftrightarrow> rpcID c = of_nat (started c) \<and>
     (\<forall>k i. taken_id (phases c k) = Some i \<longrightarrow> (\<exists>n. n \<le> started c \<and> i = id_text (of_nat n))) \<and>
     (\<forall>k j i. taken_id (phases c k) = Some i \<and> taken_id (phases c j) = Some i \<longrightarrow> k = j)"

text \<open>A call in progress whose channel is still open is registered.\<close>

fun pending_id :: "phase \<Rightarrow> string option" where
  "pending_id (Registered i) = Some i"
| "pending_id (Waiting i) = Some i"
| "pending_id _ = None"

definition inv_registered :: "client \<Rightarrow> bool" where
  "inv_registered c \<longleftrightarrow>
     (\<forall>k i. pending_id (phases c k) = Some i \<longrightarrow> callbacks c i = Some k \<or> closed (chans c k))"

definition inv_responses :: "client \<Rightarrow> bool" where
  "inv_responses c \<longleftrightarrow>
     (\<forall>k. pending_id (phases c k) \<noteq> None \<and> buf (chans c k) = None \<and> closed (chans c k) \<longrightarrow> cancelled c k) \<and>
     (\<forall>k i r. owned_id (phases c k) = Some i \<and> buf (chans c k) = Some r \<longrightarrow> (i, r) \<in> received c) \<and>
     (\<forall>k i out. outcome_of (phases c k) = Some (i, out) \<longrightarrow>
        out \<noteq> NoError \<and> (\<forall>r. out = Replied r \<longrightarrow> (\<exists>j. i = Some j \<and> (j, r) \<in> received c)))"

lemma owned_phase [simp]:
  "owned_id p = Some i \<Longrightarrow> taken_id p = Some i" "owned_id p = Some i \<Longrightarrow> \<not> fresh_phase p"
  "fresh_phase p \<Longrightarrow> outcome_of p = None"
  "fresh_phase p \<Longrightarrow> pending_id p = None" "pending_id p = Some i \<Longrightarrow> taken_id p = Some i"
  by (cases p; simp)+

lemma empty_chan_simps [simp]: "buf empty_chan = None" "closed empty_chan = False"
  by (simp_all add: empty_chan_def)

text \<open>On an open and empty channel a callback neither blocks nor panics.\<close>

lemma doCallback_empty:
  assumes "callbacks c i = Some k" "chans c k = empty_chan"
  shows "doCallback pick i r c =
    Some (Ok (c\<lparr>callbacks := (callbacks c)(i := None),
      chans := (chans c)(k := \<lparr>buf = if cancelled c k \<and> pick then None else Some r, closed = True\<rparr>)\<rparr>))"
  using assms by (simp add: doCallback_def finish_callback_def chan_send_def chan_close_def empty_chan_def Let_def)

lemma doCallback_None: "callbacks c i = None \<Longrightarrow> doCallback pick i r c = Some (Ok c)"
  by (simp add: doCallback_def)

lemma doCallback_cases:
  assumes "inv_callbacks c" "doCallback pick i r c = Some (Ok c')"
  obtains (unknown) "callbacks c i = None" "c' = c"
    | (known) k b where "callbacks c i = Some k" "owned_id (phases c k) = Some i" "chans c k = empty_chan"
      "b = Some r \<or> b = None \<and> cancelled c k"
      "c' = c\<lparr>callbacks := (callbacks c)(i := None), chans := (chans c)(k := \<lparr>buf = b, closed = True\<rparr>)\<rparr>"
proof (cases "callbacks c i")
  case None
  then show thesis using unknown assms(2) by (simp add: doCallback_None)
next
  case (Some k)
  then have k: "owned_id (phases c k) = Some i" "chans c k = empty_chan" using assms(1) by (auto simp: inv_callbacks_def)
  then show thesis
    using known [OF Some k, of "if cancelled c k \<and> pick then None else Some r"] assms(2)
      doCallback_empty [OF Some k(2), of pick r] by auto
qed

lemma deliver_callbacks:
  assumes "inv_callbacks c" "doCallback pick i r c = Some (Ok c')"
  shows "inv_callbacks (c'\<lparr>received := x\<rparr>)"
  using assms
proof (cases rule: doCallback_cases)
  case unknown
  then show ?thesis using assms(1) by (simp add: inv_callbacks_def)
next
  case (known k b)
  have "k' \<noteq> k" if "callbacks c i' = Some k'" "i' \<noteq> i" for i' k'
    using that known(2) assms(1) by (auto simp: inv_callbacks_def)
  moreover have "k' \<noteq> k" if "fresh_phase (phases c k')" for k' using that known(2) by auto
  ultimately show ?thesis using assms(1) known(5) by (auto simp: inv_callbacks_def)
qed


lemma callback_owner:
  assumes "inv_callbacks c" "callbacks c i = Some k"
  shows "owned_id (phases c k) = Some i" "chans c k = empty_chan"
  using assms by (auto simp: inv_callbacks_def)

lemma inv_callbacks_cong:
  "callbacks c' = callbacks c \<Longrightarrow> chans c' = chans c \<Longrightarrow> phases c' = phases c \<Longrightarrow> inv_callbacks c' = inv_callbacks c"
  by (simp add: inv_callbacks_def)

text \<open>A call moves on: it keeps its identifier or gets one, and its channel stops being fresh.\<close>

lemma phase_callbacks:
  assumes "inv_callbacks c" "owned_id (phases c k) \<in> {None, owned_id p}" "fresh_phase p \<longrightarrow> fresh_phase (phases c k)"
  shows "inv_callbacks (set_phase k p c)"
  using assms by (auto simp: inv_callbacks_def)

lemma step_callbacks:
  assumes "step c c'" "inv_callbacks c"
  shows "inv_callbacks c'"
  using assms(1)
proof (cases rule: step.cases)
  case (take_id k i c0)
  then show ?thesis
    using phase_callbacks [OF assms(2), of k "HasID i"] inv_callbacks_cong [of c' "set_phase k (HasID i) c"]
    by (auto simp: requestID_def)
next
  case (register k i c0)
  then have "callbacks c j \<noteq> Some k" for j by (auto dest: callback_owner [OF assms(2)])
  moreover have "chans c k = empty_chan" using register(2) assms(2) by (auto simp: inv_callbacks_def)
  ultimately show ?thesis using register assms(2) by (auto simp: inv_callbacks_def addCallback_def split: if_splits)
next
  case (take_response k i r)
  then have "callbacks c j \<noteq> Some k" for j by (auto dest: callback_owner [OF assms(2)])
  then show ?thesis using assms(2) take_response(1,2) by (auto simp: inv_callbacks_def)
next
  case (return k i out)
  then have "callbacks c j \<noteq> Some k" if "j \<noteq> i" for j using that by (auto dest: callback_owner [OF assms(2)])
  then show ?thesis using assms(2) return by (auto simp: inv_callbacks_def deleteCallback_def)
next
  case (deliver et m i r pick c0)
  then show ?thesis using deliver_callbacks [OF assms(2)] by simp
next
  case (echo_done k i out et)
  then show ?thesis
    using assms(2) inv_callbacks_cong [of c' c] by (auto simp: echo_counted_def split: result.splits)
qed (auto intro!: phase_callbacks [OF assms(2)] intro: inv_callbacks_cong [THEN iffD2, OF _ _ _ assms(2)])


text \<open>Identifiers: \<open>started\<close> many are in use, all different while the counter has not wrapped.\<close>

lemma id_text_inj: "id_text v = id_text w \<longleftrightarrow> v = w"
proof
  assume "id_text v = id_text w"
  then have "ParseInt (Itoa (sint v)) 10 0 = ParseInt (Itoa (sint w)) 10 0" by (simp add: id_text_def)
  then have "sint v = sint w"
    using sint_range_size [of v] sint_range_size [of w] by (simp add: ParseInt_Itoa int64_def word_size)
  then show "v = w" by (simp add: word_uint_eq_iff uint_sint)
qed simp

lemma inv_ids_mono:
  assumes "inv_ids c" "rpcID c' = rpcID c" "started c' = started c"
    "\<And>k i. taken_id (phases c' k) = Some i \<Longrightarrow> taken_id (phases c k) = Some i"
  shows "inv_ids c'"
  using assms(1-3) unfolding inv_ids_def by (metis assms(4))

lemma taken_id_bound:
  assumes "inv_ids c" "started c + 1 < 2 ^ 64"
  shows "taken_id (phases c j) \<noteq> Some (id_text (of_nat (started c + 1)))"
proof
  assume "taken_id (phases c j) = Some (id_text (of_nat (started c + 1)))"
  then obtain n where n: "n \<le> started c" "id_text (of_nat (started c + 1)) = id_text (of_nat n)"
    using assms(1) unfolding inv_ids_def by blast
  then have "(of_nat n :: 64 word) = of_nat (started c + 1)" by (simp only: id_text_inj)
  then have "n mod 2 ^ 64 = (started c + 1) mod 2 ^ 64" by (simp only: word_of_nat_eq_iff) (simp add: take_bit_eq_mod)
  then show False using n(1) assms(2) by simp
qed

lemma take_ids:
  assumes "inv_ids c" "started c + 1 < 2 ^ 64" "requestID c = (i, c')"
  shows "inv_ids (set_phase k (HasID i) c')"
proof -
  have i: "i = id_text (of_nat (started c + 1))" using assms(1,3) by (auto simp: requestID_def inv_ids_def add.commute)
  have c': "started c' = started c + 1" "rpcID c' = of_nat (started c + 1)" "phases c' = phases c"
    using assms(1,3) by (auto simp: requestID_def inv_ids_def add.commute)
  have old: "m \<noteq> i" "\<exists>n. n \<le> started c \<and> m = id_text (of_nat n)" if "taken_id (phases c j) = Some m" for j m
    using that taken_id_bound [OF assms(1,2)] assms(1) i by (auto simp: inv_ids_def simp del: of_nat_add)
  have uniq: "j = j'" if "taken_id (phases c j) = Some m" "taken_id (phases c j') = Some m" for j j' m
    using that assms(1) unfolding inv_ids_def by blast
  have a: "\<exists>n. n \<le> started c + 1 \<and> m = id_text (of_nat n)" if "taken_id (((phases c)(k := HasID i)) j) = Some m" for j m
    using that old(2) [of j m] i by (cases "j = k") (auto intro: le_SucI simp del: of_nat_add of_nat_Suc)
  have b: "j = j'" if "taken_id (((phases c)(k := HasID i)) j) = Some m" "taken_id (((phases c)(k := HasID i)) j') = Some m" for j j' m
    using that old(1) uniq by (cases "j = k"; cases "j' = k") auto
  have "phases (set_phase k (HasID i) c') = (phases c)(k := HasID i)" using c'(3) by simp
  moreover have "started (set_phase k (HasID i) c') = started c + 1"
    "rpcID (set_phase k (HasID i) c') = of_nat (started (set_phase k (HasID i) c'))" using c'(1,2) by simp_all
  ultimately show ?thesis unfolding inv_ids_def using a b by presburger
qed

lemma doCallback_kept:
  assumes "doCallback pick i r c = Some (Ok c')"
  shows "rpcID c' = rpcID c" "started c' = started c" "phases c' = phases c" "cancelled c' = cancelled c"
    "received c' = received c" "listen_at c' = listen_at c" "echo_at c' = echo_at c" "closing c' = closing c"
  using assms by (auto simp: doCallback_def finish_callback_def Let_def and_then_eq_Ok split: option.splits if_splits)

lemma echo_counted_kept [simp]:
  "rpcID (echo_counted et r c) = rpcID c" "started (echo_counted et r c) = started c"
  "phases (echo_counted et r c) = phases c" "cancelled (echo_counted et r c) = cancelled c"
  "received (echo_counted et r c) = received c" "chans (echo_counted et r c) = chans c"
  "callbacks (echo_counted et r c) = callbacks c" "listen_at (echo_counted et r c) = listen_at c"
  by (simp_all add: echo_counted_def split: result.split)

lemma step_started: "step c c' \<Longrightarrow> started c \<le> started c'"
  by (erule stepE) (auto simp: requestID_def addCallback_def deleteCallback_def doCallback_kept split: if_splits)

lemma step_ids:
  assumes "step c c'" "inv_ids c" "started c' < 2 ^ 64"
  shows "inv_ids c'"
  using assms(1)
proof (cases rule: step.cases)
  case (take_id k i c0)
  then show ?thesis using take_ids [OF assms(2)] assms(3) by (auto simp: requestID_def)
next
  case (deliver et m i r pick c0)
  then show ?thesis using inv_ids_mono [OF assms(2), of c'] by (simp add: doCallback_kept)
qed (auto intro!: inv_ids_mono [OF assms(2)] simp: addCallback_def deleteCallback_def split: if_splits)

text \<open>Responses: what changes in a step, against the state before it.\<close>

lemma inv_responsesD:
  assumes "inv_responses c"
  shows "pending_id (phases c k) \<noteq> None \<Longrightarrow> buf (chans c k) = None \<Longrightarrow> closed (chans c k) \<Longrightarrow> cancelled c k"
    "owned_id (phases c k) = Some i \<Longrightarrow> buf (chans c k) = Some r \<Longrightarrow> (i, r) \<in> received c"
    "outcome_of (phases c k) = Some (io, out) \<Longrightarrow>
      out \<noteq> NoError \<and> (\<forall>r. out = Replied r \<longrightarrow> (\<exists>j. io = Some j \<and> (j, r) \<in> received c))"
  using assms unfolding inv_responses_def by blast+

lemma inv_responses_mono:
  assumes "inv_responses c" "received c \<subseteq> received c'" "\<And>k. cancelled c k \<Longrightarrow> cancelled c' k"
    "\<And>k. pending_id (phases c' k) \<noteq> None \<Longrightarrow> buf (chans c' k) = None \<Longrightarrow> closed (chans c' k) \<Longrightarrow>
      cancelled c' k \<or> pending_id (phases c k) \<noteq> None \<and> buf (chans c k) = None \<and> closed (chans c k)"
    "\<And>k i r. owned_id (phases c' k) = Some i \<Longrightarrow> buf (chans c' k) = Some r \<Longrightarrow>
      (i, r) \<in> received c' \<or> owned_id (phases c k) = Some i \<and> buf (chans c k) = Some r"
    "\<And>k i out. outcome_of (phases c' k) = Some (i, out) \<Longrightarrow> outcome_of (phases c k) = Some (i, out) \<or>
      out \<noteq> NoError \<and> (\<forall>r. out = Replied r \<longrightarrow> (\<exists>j. i = Some j \<and> (j, r) \<in> received c'))"
  shows "inv_responses c'"
  unfolding inv_responses_def
proof (intro conjI allI impI; (elim conjE)?)
  fix k assume "pending_id (phases c' k) \<noteq> None" "buf (chans c' k) = None" "closed (chans c' k)"
  then show "cancelled c' k" using assms(1,3,4) unfolding inv_responses_def by blast
next
  fix k i r assume "owned_id (phases c' k) = Some i" "buf (chans c' k) = Some r"
  then show "(i, r) \<in> received c'" using assms(1,2,5) unfolding inv_responses_def by blast
next
  fix k i out assume "outcome_of (phases c' k) = Some (i, out)"
  from assms(6) [OF this] show "out \<noteq> NoError" using assms(1) unfolding inv_responses_def by blast
next
  fix k i out r assume "outcome_of (phases c' k) = Some (i, out)" "out = Replied r"
  from assms(6) [OF this(1)] this(2) show "\<exists>j. i = Some j \<and> (j, r) \<in> received c'"
    using assms(1,2) unfolding inv_responses_def by blast
qed

lemma step_responses:
  assumes "step c c'" "inv_callbacks c" "inv_responses c"
  shows "inv_responses c'"
  using assms(1)
proof (cases rule: step.cases)
  case (register k i c0)
  then have "chans c k = empty_chan" using assms(2) by (auto simp: inv_callbacks_def)
  then show ?thesis
    using register by (intro inv_responses_mono [OF assms(3)]) (auto simp: addCallback_def split: if_splits)
next
  case (take_response k i r)
  then have "(i, r) \<in> received c" using inv_responsesD(2) [OF assms(3), of k] by simp
  then show ?thesis using take_response by (intro inv_responses_mono [OF assms(3)]) (auto split: if_splits)
next
  case (woken k i)
  then have "cancelled c k" using inv_responsesD(1) [OF assms(3), of k] by simp
  then show ?thesis using woken by (intro inv_responses_mono [OF assms(3)]) (auto split: if_splits)
next
  case (deliver et m i r pick c0)
  from assms(2) deliver(4) show ?thesis
  proof (cases rule: doCallback_cases)
    case unknown
    then show ?thesis using deliver(1) by (intro inv_responses_mono [OF assms(3)]) auto
  next
    case (known k b)
    then show ?thesis using deliver(1) by (intro inv_responses_mono [OF assms(3)]) (auto split: if_splits)
  qed
qed (auto intro!: inv_responses_mono [OF assms(3)] simp: requestID_def deleteCallback_def split: if_splits)

lemma inv_registeredI:
  assumes "inv_registered c" "\<And>k. closed (chans c k) \<Longrightarrow> closed (chans c' k)"
    "\<And>k i. pending_id (phases c' k) = Some i \<Longrightarrow> callbacks c' i = Some k \<or> closed (chans c' k) \<or>
      pending_id (phases c k) = Some i \<and> (callbacks c i = Some k \<longrightarrow> callbacks c' i = Some k)"
  shows "inv_registered c'"
  using assms unfolding inv_registered_def by metis

lemma step_registered:
  assumes "step c c'" "inv_callbacks c" "inv_ids c" "inv_registered c"
  shows "inv_registered c'"
  using assms(1)
proof (cases rule: step.cases)
  case (register k i c0)
  then show ?thesis by (intro inv_registeredI [OF assms(4)]) (auto simp: addCallback_def split: if_splits)
next
  case (return k i out)
  have "callbacks c i \<noteq> Some k'" if "pending_id (phases c k') = Some i'" for k' i'
  proof
    assume "callbacks c i = Some k'"
    then have "taken_id (phases c k') = Some i" using callback_owner(1) [OF assms(2)] by simp
    then have "k' = k" using return(2) assms(3) unfolding inv_ids_def by (metis owned_id.simps(3) owned_phase(1))
    then show False using that return(2) by simp
  qed
  then show ?thesis
    using return by (intro inv_registeredI [OF assms(4)]) (auto simp: deleteCallback_def split: if_splits)
next
  case (deliver et m i r pick c0)
  from assms(2) deliver(4) show ?thesis
  proof (cases rule: doCallback_cases)
    case unknown
    then show ?thesis using deliver(1) by (intro inv_registeredI [OF assms(4)]) auto
  next
    case (known k b)
    then show ?thesis using deliver(1) by (intro inv_registeredI [OF assms(4)]) (auto split: if_splits)
  qed
qed (auto intro!: inv_registeredI [OF assms(4)] simp: requestID_def split: if_splits)

text \<open>Cancellation changes none of what the invariants read, but for the flags of the contexts.\<close>

definition client_inv :: "client \<Rightarrow> bool" where
  "client_inv c \<longleftrightarrow> inv_callbacks c \<and> inv_ids c \<and> inv_registered c \<and> inv_responses c"

lemma step_invariants:
  assumes "step c c'" "client_inv c" "started c' < 2 ^ 64"
  shows "client_inv c'"
  using assms step_callbacks step_ids step_registered step_responses unfolding client_inv_def by blast

lemma cancel_invariants:
  assumes "cancel c c'" "client_inv c"
  shows "client_inv c'"
proof -
  have c': "callbacks c' = callbacks c" "chans c' = chans c" "phases c' = phases c" "rpcID c' = rpcID c"
    "started c' = started c" "received c' = received c" "cancelled c k \<Longrightarrow> cancelled c' k" for k
    using assms(1) by (auto elim: cancelE)
  have inv: "inv_callbacks c" "inv_ids c" "inv_registered c" "inv_responses c" using assms(2) by (simp_all add: client_inv_def)
  show ?thesis unfolding client_inv_def
  proof (intro conjI)
    show "inv_callbacks c'" using inv(1) c' inv_callbacks_cong by blast
    show "inv_ids c'" by (rule inv_ids_mono [OF inv(2)]) (simp_all add: c')
    show "inv_registered c'" by (rule inv_registeredI [OF inv(3)]) (simp_all add: c')
    show "inv_responses c'" by (rule inv_responses_mono [OF inv(4)]) (simp_all add: c')
  qed
qed

lemma reachable_client_inv:
  assumes "reachable c" "started c < 2 ^ 64"
  shows "client_inv c"
  using assms
proof (induction rule: reachable.induct)
  case init
  then show ?case
    by (simp add: new_client_def client_inv_def inv_callbacks_def inv_ids_def inv_registered_def inv_responses_def)
next
  case (step c c')
  then have "client_inv c" using step_started by (auto dest: le_less_trans)
  then show ?case using step step_invariants by blast
next
  case (cancel c c')
  then have "started c < 2 ^ 64" by (auto elim: cancelE)
  with cancel show ?case using cancel_invariants by blast
qed

lemmas reachable_invariants = reachable_client_inv [unfolded client_inv_def]

lemma free_identifier:
  assumes "client_inv c" "phases c k = HasID i"
  shows "callbacks c i = None"
proof (rule ccontr)
  assume "callbacks c i \<noteq> None"
  then obtain k' where k': "owned_id (phases c k') = Some i"
    using callback_owner(1) assms(1) unfolding client_inv_def by blast
  then have "taken_id (phases c k') = Some i" "taken_id (phases c k) = Some i" using assms(2) by simp_all
  then have "k = k'" using assms(1) unfolding client_inv_def inv_ids_def by blast
  then show False using assms(2) k' by simp
qed

lemma reachable_finite: "reachable c \<Longrightarrow> finite {k. phases c k \<noteq> Unused}"
proof (induction rule: reachable.induct)
  case init
  then show ?case by (simp add: new_client_def)
next
  case (step c c')
  have "\<exists>k. {k. phases c' k \<noteq> Unused} \<subseteq> insert k {k. phases c k \<noteq> Unused}"
    using step.hyps(2)
    by (rule stepE) (auto simp: requestID_def addCallback_def deleteCallback_def doCallback_kept split: if_splits)
  then show ?case using step.IH by (meson finite_insert finite_subset)
next
  case (cancel c c')
  then show ?case by (auto elim: cancelE)
qed

text \<open>
  Runs: a call (number 0) of a caller or of the echo loop that waits for its response, the same call after a
  response, and the listener offering a second echo while the first waits.
\<close>

definition waiting_client :: "echoer \<Rightarrow> client" where
  "waiting_client e = new_client\<lparr>rpcID := 1, started := 1, callbacks := [''1'' \<mapsto> 0],
     phases := (\<lambda>_. Unused)(0 := Waiting ''1''), echo_at := e\<rparr>"

definition answered_client :: client where
  "answered_client = (waiting_client Idle)\<lparr>callbacks := Map.empty,
     chans := (\<lambda>_. empty_chan)(0 := \<lparr>buf = None, closed = True\<rparr>),
     phases := (\<lambda>_. Unused)(0 := Done (Some ''1'') (Replied \<lparr>rr_Result = Some ''[]'', rr_Error = None\<rparr>)),
     received := {(''1'', \<lparr>rr_Result = Some ''[]'', rr_Error = None\<rparr>)}\<rparr>"

definition stuck_client :: client where
  "stuck_client = (waiting_client (InCall 0))\<lparr>listen_at := Offering\<rparr>"

lemma id_text_1: "id_text 1 = ''1''" by code_simp

lemma waiting_reachable:
  assumes "e = Idle \<or> e = InCall 0"
  shows "reachable (waiting_client e)"
proof -
  let ?c = "new_client\<lparr>echo_at := e\<rparr>"
  have "reachable ?c"
    using assms reachable.step [OF reachable.init step.tick, of 0] reachable.init by (auto simp: new_client_def)
  from reachable.step [OF this step.take_id, of 0 "''1''" "?c\<lparr>rpcID := 1, started := 1\<rparr>"]
  have "reachable (?c\<lparr>rpcID := 1, started := 1, phases := (\<lambda>_. Unused)(0 := HasID ''1'')\<rparr>)"
    by (simp add: new_client_def requestID_def id_text_1)
  from reachable.step [OF this step.register, of 0 "''1''"]
  have "reachable (?c\<lparr>rpcID := 1, started := 1, callbacks := [''1'' \<mapsto> 0], phases := (\<lambda>_. Unused)(0 := Registered ''1'')\<rparr>)"
    by (simp add: new_client_def addCallback_def)
  from reachable.step [OF this step.sent, of 0 "''1''"] show ?thesis by (simp add: new_client_def waiting_client_def)
qed

lemma answered_reachable: "reachable answered_client"
proof -
  let ?c = "waiting_client Idle" and ?r = "\<lparr>rr_Result = Some ''[]'', rr_Error = None\<rparr>"
  let ?m = "Ok (zero_Response\<lparr>rsp_ID := Some ''1'', rsp_Result := Some ''[]''\<rparr>)"
  have "listen_action et ?m = Callback ''1'' ?r" for et
    by (simp add: listen_action_def zero_Response_def Response_Err_def)
  from reachable.step [OF waiting_reachable step.deliver [OF _ this], of Idle False]
  have "reachable (?c\<lparr>callbacks := Map.empty, chans := (\<lambda>_. empty_chan)(0 := \<lparr>buf = Some ?r, closed = True\<rparr>),
      received := {(''1'', ?r)}\<rparr>)"
    by (simp add: waiting_client_def new_client_def doCallback_empty)
  from reachable.step [OF this step.take_response, of 0 "''1''" ?r]
  have "reachable (?c\<lparr>callbacks := Map.empty, chans := (\<lambda>_. empty_chan)(0 := \<lparr>buf = None, closed = True\<rparr>),
      phases := (\<lambda>_. Unused)(0 := Returning ''1'' (Replied ?r)), received := {(''1'', ?r)}\<rparr>)"
    by (simp add: waiting_client_def new_client_def)
  from reachable.step [OF this step.return, of 0 "''1''" "Replied ?r"] show ?thesis
    by (simp add: answered_client_def waiting_client_def new_client_def deleteCallback_def)
qed

lemma stuck_reachable: "reachable stuck_client"
proof -
  have "listen_action et (Ok (zero_Response\<lparr>rsp_Method := ''echo''\<rparr>)) = OfferEcho" for et
    by (simp add: listen_action_def)
  from reachable.step [OF waiting_reachable step.offer [OF _ this], of "InCall 0"] show ?thesis
    by (simp add: stuck_client_def waiting_client_def new_client_def)
qed

section \<open>Properties of the client\<close>

text \<open>
  C4: the client's calls and its listener never trip over each other. In every state reachable by any
  interleaving of calls, cancellations, responses, echoes and \<^verbatim>\<open>Close\<close>, as long as the 64-bit
  counter has not wrapped around: registering the callback of a call that has its identifier does not panic, and
  handling any response neither blocks the listener (which holds the mutex) nor panics by sending on, or
  closing, a closed channel.
\<close>

theorem callbacks_safe:
  assumes "reachable c" "started c < 2 ^ 64"
  shows "(phases c k = HasID i \<longrightarrow> addCallback i k c = Ok (c\<lparr>callbacks := (callbacks c)(i \<mapsto> k)\<rparr>)) \<and>
    (\<exists>c'. doCallback pick j r c = Some (Ok c') \<and> callbacks c' = (callbacks c)(j := None))"
proof (intro conjI impI)
  assume "phases c k = HasID i"
  then have "callbacks c i = None" by (rule free_identifier [OF reachable_client_inv [OF assms]])
  then show "addCallback i k c = Ok (c\<lparr>callbacks := (callbacks c)(i \<mapsto> k)\<rparr>)" by (simp add: addCallback_def)
next
  have inv: "inv_callbacks c" using reachable_invariants [OF assms] by simp
  show "\<exists>c'. doCallback pick j r c = Some (Ok c') \<and> callbacks c' = (callbacks c)(j := None)"
  proof (cases "callbacks c j")
    case None
    then have "callbacks c = (callbacks c)(j := None)" by (simp add: fun_upd_idem)
    then show ?thesis using doCallback_None [OF None] by simp
  next
    case (Some k')
    then show ?thesis using doCallback_empty [OF Some callback_owner(2) [OF inv Some]] by simp
  qed
qed

theorem callbacks_safe_witness:
  "\<exists>c'. doCallback True ''1'' \<lparr>rr_Result = None, rr_Error = None\<rparr> (waiting_client Idle) = Some (Ok c') \<and>
     callbacks c' = (callbacks (waiting_client Idle))(''1'' := None)"
  using callbacks_safe [OF waiting_reachable, of Idle _ _ True "''1''" "\<lparr>rr_Result = None, rr_Error = None\<rparr>"]
  by (simp add: waiting_client_def)

text \<open>
  C8: every caller gets its own answer. A call that returns a response returns one the server sent under
  the identifier of this very call, no other call, finished or not, has the same identifier, and no call
  returns a nil error without a response.
\<close>

theorem calls_get_own_response:
  assumes "reachable c" "started c < 2 ^ 64" "phases c k = Done io out"
  shows "out \<noteq> NoError \<and> (\<forall>r. out = Replied r \<longrightarrow> (\<exists>i. io = Some i \<and> (i, r) \<in> received c \<and>
    (\<forall>k'. taken_id (phases c k') = Some i \<longrightarrow> k' = k)))"
proof -
  have inv: "inv_ids c" "inv_responses c" using reachable_invariants [OF assms(1,2)] by simp_all
  have "k' = k" if "taken_id (phases c k') = Some i" "io = Some i" for i k'
    using that inv(1) assms(3) unfolding inv_ids_def by (metis taken_id.simps(2))
  then show ?thesis using inv_responsesD(3) [OF inv(2), of k] assms(3) by fastforce
qed

theorem calls_get_own_response_witness:
  "(''1'', \<lparr>rr_Result = Some ''[]'', rr_Error = None\<rparr>) \<in> received answered_client \<and>
   {k. taken_id (phases answered_client k) = Some ''1''} \<subseteq> {0}"
  using calls_get_own_response [OF answered_reachable, of 0 "Some ''1''" "Replied \<lparr>rr_Result = Some ''[]'', rr_Error = None\<rparr>"]
  by (auto simp: answered_client_def)

text \<open>
  C21: callbacks do not leak. The number of registered callbacks that \<^verbatim>\<open>Stats\<close> reports is at most the number of
  calls in progress, so it is 0 once all calls have returned, however they ended.
\<close>

theorem callbacks_no_leak:
  assumes "reachable c" "started c < 2 ^ 64"
  shows "Stats_Current c \<le> card {k. owned_id (phases c k) \<noteq> None}"
proof -
  have inv: "inv_callbacks c" using reachable_invariants [OF assms] by simp
  have "finite {k. owned_id (phases c k) \<noteq> None}"
    by (rule finite_subset [OF _ reachable_finite [OF assms(1)]]) auto
  moreover have "dom (callbacks c) \<subseteq> (\<lambda>k. the (owned_id (phases c k))) ` {k. owned_id (phases c k) \<noteq> None}"
  proof
    fix i assume "i \<in> dom (callbacks c)"
    then obtain k where "owned_id (phases c k) = Some i" using callback_owner(1) [OF inv] by blast
    then show "i \<in> (\<lambda>k. the (owned_id (phases c k))) ` {k. owned_id (phases c k) \<noteq> None}" by force
  qed
  ultimately show ?thesis unfolding Stats_Current_def by (meson card_image_le card_mono finite_imageI le_trans)
qed


theorem callbacks_no_leak_witness:
  "Stats_Current answered_client = 0 \<and> Stats_Current (waiting_client Idle) \<le> 1"
proof -
  have "{k. owned_id (phases answered_client k) \<noteq> None} = {}" by (auto simp: answered_client_def)
  moreover have "{k. owned_id (phases (waiting_client Idle) k) \<noteq> None} = {0}" by (auto simp: waiting_client_def)
  moreover have "started answered_client < 2 ^ 64" "started (waiting_client Idle) < 2 ^ 64"
    by (simp_all add: answered_client_def waiting_client_def)
  ultimately show ?thesis
    using callbacks_no_leak [OF answered_reachable] callbacks_no_leak [OF waiting_reachable, of Idle] by simp
qed

text \<open>
  C10: an answered call returns. In every reachable state in which a call waits and the listener is reading, if
  a message arrives that answers the call, there are steps of the listener and of the call after which the call has
  returned and its callback is gone; it returns this answer unless its context was cancelled or an
  answer was there already.
\<close>

theorem answered_call_returns:
  assumes "reachable c" "started c < 2 ^ 64" "phases c k = Waiting i" "listen_at c = Reading"
    "listen_action et m = Callback i r"
  shows "\<exists>c' out. step\<^sup>*\<^sup>* c c' \<and> phases c' k = Done (Some i) out \<and> callbacks c' i = None \<and>
    (\<not> cancelled c k \<and> chans c k = empty_chan \<longrightarrow> out = Replied r)"
proof -
  have inv: "inv_callbacks c" "inv_registered c" using reachable_invariants [OF assms(1,2)] by simp_all
  let ?ret = "\<lambda>c' out. set_phase k (Done (Some i) out) (deleteCallback i (set_phase k (Returning i out) c'))"
  have fin: "step\<^sup>*\<^sup>* c' (?ret c'' out)" if "step c' (set_phase k (Returning i out) c'')" for c' c'' out
    using that step.return [of "set_phase k (Returning i out) c''" k i out] by (simp add: converse_rtranclp_into_rtranclp)
  show ?thesis
  proof (cases "closed (chans c k)")
    case True
    then have "chans c k \<noteq> empty_chan" by auto
    show ?thesis
    proof (cases "buf (chans c k)")
      case None
      show ?thesis
        by (intro exI conjI, rule fin [OF step.woken [OF assms(3) None True]])
          (simp_all add: deleteCallback_def \<open>chans c k \<noteq> empty_chan\<close>)
    next
      case (Some r')
      show ?thesis
        by (intro exI conjI, rule fin [OF step.take_response [OF assms(3) Some]])
          (simp_all add: deleteCallback_def \<open>chans c k \<noteq> empty_chan\<close>)
    qed
  next
    case False
    then have cb: "callbacks c i = Some k" using inv(2) assms(3) unfolding inv_registered_def by (metis pending_id.simps(2))
    have e: "chans c k = empty_chan" by (rule callback_owner(2) [OF inv(1) cb])
    let ?c = "c\<lparr>callbacks := (callbacks c)(i := None), chans := (chans c)(k := \<lparr>buf = Some r, closed = True\<rparr>),
      received := insert (i, r) (received c)\<rparr>"
    have "step c ?c"
      using step.deliver [OF assms(4,5), of False] doCallback_empty [OF cb e, of False r] by simp
    moreover have "step\<^sup>*\<^sup>* ?c (?ret (?c\<lparr>chans := (chans ?c)(k := (chans ?c k)\<lparr>buf := None\<rparr>)\<rparr>) (Replied r))"
      by (rule fin [OF step.take_response]) (simp_all add: assms(3))
    ultimately have "step\<^sup>*\<^sup>* c (?ret (?c\<lparr>chans := (chans ?c)(k := (chans ?c k)\<lparr>buf := None\<rparr>)\<rparr>) (Replied r))"
      by (rule converse_rtranclp_into_rtranclp)
    moreover have "phases (?ret d out) k = Done (Some i) out" "callbacks (?ret d out) i = None" for d out
      by (simp_all add: deleteCallback_def)
    ultimately show ?thesis by blast
  qed
qed

theorem answered_call_returns_witness:
  "\<exists>c' out. step\<^sup>*\<^sup>* (waiting_client Idle) c' \<and> phases c' 0 = Done (Some ''1'') out \<and> callbacks c' ''1'' = None \<and>
     out = Replied \<lparr>rr_Result = Some ''[]'', rr_Error = None\<rparr>"
proof -
  have "listen_action (\<lambda>_. []) (Ok (zero_Response\<lparr>rsp_ID := Some ''1'', rsp_Result := Some ''[]''\<rparr>)) =
      Callback ''1'' \<lparr>rr_Result = Some ''[]'', rr_Error = None\<rparr>"
    by (simp add: listen_action_def zero_Response_def Response_Err_def)
  from answered_call_returns [OF waiting_reachable _ _ _ this, of Idle 0] show ?thesis
    by (simp add: waiting_client_def new_client_def)
qed

text \<open>
  The listener holds an echo of the server that the echo loop cannot take, because it waits for the response to
  an echo of its own, which only the listener could deliver.
\<close>

definition stuck :: "nat \<Rightarrow> string \<Rightarrow> client \<Rightarrow> bool" where
  "stuck k i c \<longleftrightarrow> listen_at c = Offering \<and> echo_at c = InCall k \<and> phases c k = Waiting i \<and>
     chans c k = empty_chan \<and> \<not> cancelled c k \<and> \<not> closing c"

lemma step_stuck:
  assumes "step c c'" "stuck k i c"
  shows "stuck k i c'"
  using assms(1)
proof (cases rule: step.cases)
  case (echo_done k' i' out et)
  then show ?thesis using assms(2) by (simp add: stuck_def)
qed (use assms(2) in \<open>auto simp: stuck_def requestID_def addCallback_def deleteCallback_def split: if_splits\<close>)

text \<open>
  C34: an echo of the server can stop the client for good. Once the server asks for an echo while the echo loop waits for
  the response to an earlier one, no run of the client without a \<^verbatim>\<open>Close\<close> or another cancellation ever leaves this
  state: nothing more is read from the connection, so no call is answered any more.
\<close>

theorem echo_deadlock:
  assumes "stuck k i c" "step\<^sup>*\<^sup>* c c'"
  shows "stuck k i c' \<and> received c' = received c"
  using assms(2,1)
proof (induction rule: rtranclp_induct)
  case (step c' c'')
  then have "stuck k i c'" "received c' = received c" by simp_all
  moreover have "received c'' = received c'"
    using step.hyps(2)
    by (rule stepE) (use \<open>stuck k i c'\<close> in \<open>auto simp: stuck_def requestID_def addCallback_def deleteCallback_def split: if_splits\<close>)
  ultimately show ?case using step_stuck [OF step.hyps(2)] by simp
qed simp

theorem echo_deadlock_witness:
  "reachable stuck_client \<and> stuck 0 ''1'' stuck_client \<and>
   stuck 0 ''1'' (stuck_client\<lparr>rpcID := 2, started := 2, phases := (phases stuck_client)(1 := HasID ''2'')\<rparr>)"
proof -
  have "id_text 2 = ''2''" by code_simp
  then have "step stuck_client (stuck_client\<lparr>rpcID := 2, started := 2, phases := (phases stuck_client)(1 := HasID ''2'')\<rparr>)"
    using step.take_id [of stuck_client 1 "''2''" "stuck_client\<lparr>rpcID := 2, started := 2\<rparr>"]
    by (simp add: stuck_client_def waiting_client_def new_client_def requestID_def)
  moreover have s: "stuck 0 ''1'' stuck_client"
    by (simp add: stuck_def stuck_client_def waiting_client_def new_client_def)
  ultimately show ?thesis using echo_deadlock [OF s r_into_rtranclp] stuck_reachable by blast
qed


section \<open>Properties of the listener\<close>

definition response_json :: "string \<Rightarrow> json \<Rightarrow> json" where
  "response_json i v = JObj [(''id'', JStr i), (''result'', v), (''error'', JNull)]"

lemma Receive_value:
  assumes "wf_json v"
  shows "Receive float_ok \<lparr>dec_input = Text (json_text v) # rest, dec_err = None\<rparr> =
    Some (case Response_decode float_ok (normal_json v) (last_members v) of Err e \<Rightarrow> Err (decode_error e) | r \<Rightarrow> r,
          \<lparr>dec_input = rest, dec_err = None\<rparr>)"
  using json_parse_text [OF assms, of "[]"] by (simp add: Receive_def)

lemma response_utf8: "valid_utf8 ''id'' = ''id''" "valid_utf8 ''result'' = ''result''" "valid_utf8 ''error'' = ''error''"
  by code_simp+

lemma response_keys: "fold_key ''id'' = ''id''" "fold_key ''result'' = ''result''" "fold_key ''error'' = ''error''"
  by code_simp+

lemma response_decoded:
  "Response_decode float_ok (normal_json (response_json i v)) (last_members (response_json i v)) =
     Ok \<lparr>rsp_ID = Some (valid_utf8 i), rsp_Result = Some (json_text v), rsp_Error = None, rsp_Method = [], rsp_Params = None\<rparr>"
  by (simp add: response_json_def Response_decode_def Response_member_def response_utf8 response_keys
      zero_Response_def json_interface_def del: fold_key.simps)

lemma listen_response:
  assumes "wf_json v"
  shows "listen_rounds error_text float_ok (Suc n)
      \<lparr>dec_input = Text (json_text (response_json i v)) # rest, dec_err = None\<rparr> =
    Callback (valid_utf8 i) \<lparr>rr_Result = Some (json_text v), rr_Error = None\<rparr>
      # listen_rounds error_text float_ok n \<lparr>dec_input = rest, dec_err = None\<rparr>"
proof -
  have "wf_json (response_json i v)" using assms by (simp add: response_json_def)
  then show ?thesis by (simp add: Receive_value response_decoded listen_action_def Response_Err_def)
qed

text \<open>
  An answer of the server reaches the call it belongs to, unchanged. For a response object with an
  identifier, any result and a null error, the listener calls the callback of this identifier and goes
  on with the rest of the input; the response it hands over decodes, in the calling goroutine, to exactly the value the server
  sent, if this is neither \<^verbatim>\<open>null\<close> nor an object whose first member is \<^verbatim>\<open>error\<close>.
\<close>

theorem listen_delivers:
  assumes "wf_json v" "v \<noteq> JNull" "\<not> HasPrefix (json_text v) errPrefix"
  shows "listen_rounds error_text float_ok (Suc n)
      \<lparr>dec_input = Text (json_text (response_json i v)) # rest, dec_err = None\<rparr> =
    Callback (valid_utf8 i) \<lparr>rr_Result = Some (json_text v), rr_Error = None\<rparr>
      # listen_rounds error_text float_ok n \<lparr>dec_input = rest, dec_err = None\<rparr> \<and>
    rpcResult decode \<lparr>rr_Result = Some (json_text v), rr_Error = None\<rparr> = decode (normal_json v)"
proof (rule conjI [OF listen_response [OF assms(1)]])
  have "json_parse (json_text v) = Some (json_text v, normal_json v, last_members v)"
    using json_parse_text [OF assms(1), of "[]"] by simp
  moreover have "normal_json v \<noteq> JNull" using assms(2) by (cases v) simp_all
  ultimately show "rpcResult decode \<lparr>rr_Result = Some (json_text v), rr_Error = None\<rparr> = decode (normal_json v)"
    using assms(3) by (cases "decode (normal_json v)") (simp_all add: rpcResult_def result_UnmarshalJSON_def)
qed

theorem listen_delivers_witness:
  "rpcResult json_to_strings \<lparr>rr_Result = Some (json_text (JArr [JStr ''Open_vSwitch''])), rr_Error = None\<rparr> =
     Ok [''Open_vSwitch'']"
proof -
  have "\<not> HasPrefix (json_text (JArr [JStr ''Open_vSwitch''])) errPrefix" "valid_utf8 ''Open_vSwitch'' = ''Open_vSwitch''"
    by code_simp+
  then show ?thesis
    using listen_delivers [of "JArr [JStr ''Open_vSwitch'']" "\<lambda>_. []" "\<lambda>_. True" 0 "''1''" "[]" json_to_strings] by simp
qed

lemma listen_sticky:
  assumes "\<not> Contains (error_text (ErrDecode e)) closed_text" "e \<noteq> ErrEOF"
  shows "listen_rounds error_text float_ok n \<lparr>dec_input = rest, dec_err = Some e\<rparr> = replicate n Skip"
  using assms by (induction n) (simp_all add: Receive_def decode_error_def listen_action_def isClosedNetwork_def)

text \<open>
  One malformed message disables the listener without stopping it. After text that is not JSON, every further round
  of \<^verbatim>\<open>listen\<close> gets the decoder's old error and skips, whatever the server sends later and also after the
  connection is closed: no response is delivered any more and the loop never ends.
\<close>

theorem listen_malformed_spins:
  assumes "json_parse t = None" "\<not> Contains (error_text (ErrDecode ErrJSONSyntax)) closed_text"
  shows "listen_rounds error_text float_ok n \<lparr>dec_input = Text t # rest, dec_err = None\<rparr> = replicate n Skip"
proof (cases n)
  case (Suc m)
  then show ?thesis
    using assms listen_sticky [of error_text ErrJSONSyntax, OF assms(2)]
    by (simp add: Receive_def decode_error_def listen_action_def isClosedNetwork_def)
qed simp

theorem listen_malformed_spins_witness:
  "listen_rounds (\<lambda>_. ''invalid character'') (\<lambda>_. True) 100
     \<lparr>dec_input = [Text ''bad'', ReadError ErrEOF], dec_err = None\<rparr> = replicate 100 Skip"
proof -
  have "json_parse ''bad'' = None" "\<not> Contains ''invalid character'' closed_text" by code_simp+
  then show ?thesis using listen_malformed_spins [of "''bad''" "\<lambda>_. ''invalid character''"] by blast
qed

text \<open>
  C40: which messages crash the client. On a well-formed JSON message the listener panics exactly when the message decodes
  into a response whose method is not \<^verbatim>\<open>echo\<close> and whose identifier is missing or null, as in every notification
  of the server other than an echo.
\<close>

theorem listen_crash_iff:
  assumes "wf_json v"
  shows "listen_rounds error_text float_ok (Suc n) \<lparr>dec_input = Text (json_text v) # rest, dec_err = None\<rparr> = [Crash] \<longleftrightarrow>
    (\<exists>res. Response_decode float_ok (normal_json v) (last_members v) = Ok res \<and> rsp_Method res \<noteq> ''echo'' \<and> rsp_ID res = None)"
proof -
  have p: "Response_decode float_ok w ms \<noteq> Panic" for w ms
  proof -
    have "Response_member float_ok m r \<noteq> Panic" for m r
      by (cases m; cases "snd (snd m)") (auto simp: Response_member_def and_then_eq_Panic json_interface_def split: if_splits)
    then have "json_struct (Response_member float_ok) ms r \<noteq> Panic" for r
      by (induction ms arbitrary: r) (auto simp: and_then_eq_Panic)
    then show ?thesis by (simp add: Response_decode_def split: json.split)
  qed
  show ?thesis
    using p [of "normal_json v" "last_members v"]
    by (auto simp: Receive_value [OF assms] listen_action_def Let_def split: result.splits option.splits if_splits)
qed

theorem listen_crash_iff_witness:
  "listen_rounds (\<lambda>_. []) (\<lambda>_. True) (Suc 0)
     \<lparr>dec_input = [Text (json_text (JObj [(''method'', JStr ''update''), (''params'', JArr [])]))], dec_err = None\<rparr> = [Crash]"
proof -
  let ?v = "JObj [(''method'', JStr ''update''), (''params'', JArr [])]"
  have "Response_decode (\<lambda>_. True) (normal_json ?v) (last_members ?v) =
      Ok (zero_Response\<lparr>rsp_Method := ''update'', rsp_Params := Some ''[]''\<rparr>)" by code_simp
  then show ?thesis
    using listen_crash_iff [of ?v "\<lambda>_. []" "\<lambda>_. True" 0 "[]"] by (auto simp: zero_Response_def)
qed

end
