(* ===== verification/Error_Texts.thy ===== *)
theory Error_Texts imports Ovsdb_Client Go_Quote begin

text \<open>
  The texts of errors: the \<^verbatim>\<open>Error\<close> methods of \<^verbatim>\<open>FlowError\<close> (\<^verbatim>\<open>flow.go\<close>), \<^verbatim>\<open>MatchFlowError\<close>
  (\<^verbatim>\<open>matchflow.go\<close>), \<^verbatim>\<open>Error\<close> (\<^verbatim>\<open>ovs.go\<close>) and the OVSDB client's \<^verbatim>\<open>Error\<close> (\<^verbatim>\<open>result.go\<close>), and the wrapping
  of errors by \<^verbatim>\<open>Send\<close>, \<^verbatim>\<open>Receive\<close> and \<^verbatim>\<open>Discard\<close>. Errors of the Go library have their text from
  \<open>base\<close>. The client recognises a closed connection by its text.
\<close>

definition FlowError_Error :: "(nat \<Rightarrow> bool) \<Rightarrow> string \<Rightarrow> string \<Rightarrow> string" where
  "FlowError_Error is_print str err =
     (if str = [] then err else ''flow error due to string '' @ Quote is_print str @ '': '' @ err)"

definition MatchFlowError_Error :: "(nat \<Rightarrow> bool) \<Rightarrow> string \<Rightarrow> string \<Rightarrow> string" where
  "MatchFlowError_Error is_print str err =
     (if str = [] then err else ''flow error due to string '' @ Quote is_print str @ '': '' @ err)"

definition Error_Error :: "string option \<Rightarrow> string \<Rightarrow> string" where
  "Error_Error out err = err @ '': '' @ (case out of None \<Rightarrow> [] | Some s \<Rightarrow> s)"

definition pipeError_Error :: "(nat \<Rightarrow> bool) \<Rightarrow> string option \<Rightarrow> string \<Rightarrow> string" where
  "pipeError_Error is_print out err = ''pipe error: '' @ err @ '': '' @ Quote is_print (case out of None \<Rightarrow> [] | Some s \<Rightarrow> s)"

definition ovsdb_Error_Error :: "string \<Rightarrow> string \<Rightarrow> string \<Rightarrow> string" where
  "ovsdb_Error_Error err details syntax = err @ '': '' @ details @ '': '' @ syntax"

text \<open>The errors the packages declare as variables, or return without data.\<close>

definition action_errors :: "(error \<times> string) list" where
  "action_errors =
     [(ErrCTNoArguments, ''no arguments for connection tracking''),
      (ErrInvalidVLANVID, ''VLAN VID must be between 0 and 4095''),
      (ErrOutputNegativePort, ''output port number must not be negative''),
      (ErrResubmitPortTableZero, ''both port and table are zero for action resubmit''),
      (ErrLoadSetFieldZero, ''value and/or field for action load or set_field are empty''),
      (ErrResubmitPortInvalid, ''resubmit port must be between 0 and 65279 inclusive''),
      (ErrDimensionTooLarge, ''dimension number exceeds total number of dimensions'')]"

definition flow_errors :: "(error \<times> string) list" where
  "flow_errors =
     [(ErrActionsWithDrop, ''Flow actions include drop, but multiple actions specified''),
      (ErrInvalidActions, ''invalid actions for Flow''),
      (ErrNoActions, ''no actions defined for Flow'')]"

definition service_errors :: "(error \<times> string) list" where
  "service_errors =
     [(ErrMultipleValues, ''multiple values returned''),
      (ErrNotCommitted, ''flow bundle not committed, discarding flows'')]"

definition portrange_errors :: "(error \<times> string) list" where
  "portrange_errors = [(ErrInvalidPortRange, ''invalid port range'')]"

definition matchflow_errors :: "(error \<times> string) list" where
  "matchflow_errors = [(ErrEmptyMatchFlow, ''match flow is empty'')]"

definition flowstats_errors :: "(error \<times> string) list" where
  "flowstats_errors = [(ErrInvalidFlowStats, ''invalid flow statistics'')]"

definition portstats_errors :: "(error \<times> string) list" where
  "portstats_errors = [(ErrInvalidPortStats, ''invalid port statistics'')]"

definition table_errors :: "(error \<times> string) list" where
  "table_errors = [(ErrInvalidTable, ''invalid openflow table'')]"

definition modNetwork_errors :: "(error \<times> string) list" where
  "modNetwork_errors = [(ErrModNetworkInvalid, ''invalid IPv4 address for ModNetwork action'')]"

definition request_errors :: "(error \<times> string) list" where
  "request_errors = [(ErrRequestID, ''JSON-RPC request ID must not be empty'')]"

definition package_errors :: "(error \<times> string) list" where
  "package_errors = action_errors @ flow_errors @ service_errors @ portrange_errors @ matchflow_errors @ flowstats_errors @
     portstats_errors @ table_errors @ modNetwork_errors @ request_errors"

fun error_text :: "(nat \<Rightarrow> bool) \<Rightarrow> (error \<Rightarrow> string) \<Rightarrow> error \<Rightarrow> string" where
  "error_text p base (FlowError s e) = FlowError_Error p s (error_text p base e)"
| "error_text p base (MatchFlowError s e) = MatchFlowError_Error p s (error_text p base e)"
| "error_text p base (ExecError out e) = Error_Error out (error_text p base e)"
| "error_text p base (PipeError out e) = pipeError_Error p out (error_text p base e)"
| "error_text p base (OvsdbError e d s) = ovsdb_Error_Error e d s"
| "error_text p base (DiscardError e) = ''discarding add flow transaction: '' @ error_text p base e"
| "error_text p base (ErrEncode e) = ''failed to encode JSON-RPC request: '' @ error_text p base e"
| "error_text p base (ErrDecode e) = ''failed to decode JSON-RPC response: '' @ error_text p base e"
| "error_text p base (ErrInvalidEcho s) = ''invalid echo response: '' @ Quote p s"
| "error_text p base e = (case map_of package_errors e of Some t \<Rightarrow> t | None \<Rightarrow> base e)"

text \<open>The text of a declared error identifies it, and is never taken for that of a closed connection.\<close>

lemmas package_error_defs = package_errors_def action_errors_def flow_errors_def service_errors_def
  portrange_errors_def matchflow_errors_def flowstats_errors_def portstats_errors_def
  table_errors_def modNetwork_errors_def request_errors_def

lemma Contains_set: "Contains s sub \<Longrightarrow> set sub \<subseteq> set s"
proof (induction s)
  case (Cons c s)
  show ?case
  proof (cases "HasPrefix (c # s) sub")
    case True
    then obtain t where "c # s = sub @ t" unfolding HasPrefix_iff by blast
    then have "set (c # s) = set sub \<union> set t" by (metis set_append)
    then show ?thesis by blast
  next
    case False
    then show ?thesis using Cons by (auto simp: Contains_def)
  qed
qed (simp add: Contains_def split: if_splits)

lemma package_error_texts:
  assumes "map_of package_errors e = Some t" "map_of package_errors e' = Some t'"
  shows "t = t' \<longleftrightarrow> e = e'" "\<not> isClosedNetwork (error_text p base) (Some e)"
proof -
  have in_list: "(e, t) \<in> set package_errors" "(e', t') \<in> set package_errors" using assms by (simp_all add: map_of_SomeD)
  have d: "distinct (map snd package_errors)" by code_simp
  show "t = t' \<longleftrightarrow> e = e'"
    using d in_list assms inj_onD [of snd "set package_errors" "(e, t)" "(e', t')"] by (auto simp: distinct_map)
  have "error_text p base e = t" using in_list(1) by (auto simp: package_error_defs)
  moreover have "list_all (\<lambda>(e, t). \<not> list_all (\<lambda>c. c \<in> set t) closed_text) package_errors" by code_simp
  ultimately show "\<not> isClosedNetwork (error_text p base) (Some e)"
    using in_list(1) Contains_set [of t closed_text] by (fastforce simp: isClosedNetwork_def list_all_iff)
qed

lemma Contains_append: "Contains s sub \<Longrightarrow> Contains (p @ s) sub"
  by (induction p) (auto simp: Contains_def)

lemma listen_closed:
  assumes "e = ErrEOF \<or> Contains (error_text p base e) closed_text"
  shows "listen_rounds (error_text p base) float_ok (Suc n) \<lparr>dec_input = ReadError e # rest, dec_err = None\<rparr> = [Stop]"
proof -
  have "isClosedNetwork (error_text p base) (Some (ErrDecode e))" if "e \<noteq> ErrEOF"
    using assms that Contains_append [of _ closed_text "''failed to decode JSON-RPC response: ''"]
    by (auto simp: isClosedNetwork_def)
  then show ?thesis by (simp add: Receive_def decode_error_def listen_action_def)
qed

text \<open>
  C27: the listener serves until the connection ends, and then stops. On any number of responses of
  the server followed by the end of the stream, or by an error of the closed connection, \<^verbatim>\<open>listen\<close>
  hands every response to the callback of its identifier, in order, and returns, so that \<^verbatim>\<open>Close\<close> does
  not wait for it: although \<^verbatim>\<open>Receive\<close> wraps the error, its text is still recognised.
\<close>

theorem listen_until_closed:
  assumes "\<forall>(i, v) \<in> set rs. wf_json v" "e = ErrEOF \<or> Contains (error_text p base e) closed_text"
  shows "listen_rounds (error_text p base) float_ok (length rs + Suc n)
      \<lparr>dec_input = map (\<lambda>(i, v). Text (json_text (response_json i v))) rs @ ReadError e # rest, dec_err = None\<rparr> =
    map (\<lambda>(i, v). Callback (valid_utf8 i) \<lparr>rr_Result = Some (json_text v), rr_Error = None\<rparr>) rs @ [Stop]"
  using assms(1)
proof (induction rs)
  case Nil
  then show ?case using listen_closed [OF assms(2)] by simp
next
  case (Cons r rs)
  then show ?case using listen_response by (cases r) (simp del: listen_rounds.simps)
qed

theorem listen_until_closed_witness:
  "listen_rounds (error_text (\<lambda>_. False) (\<lambda>_. ''use of closed network connection'')) (\<lambda>_. True) (Suc (Suc 0))
     \<lparr>dec_input = [Text (json_text (response_json ''1'' (JArr []))), ReadError (ErrExternal ''closed'')], dec_err = None\<rparr> =
   [Callback ''1'' \<lparr>rr_Result = Some ''[]'', rr_Error = None\<rparr>, Stop]"
proof -
  have "Contains ''use of closed network connection'' closed_text" "valid_utf8 ''1'' = ''1''"
    "map_of package_errors (ErrExternal ''closed'') = None" by code_simp+
  then show ?thesis
    using listen_until_closed [of "[(''1'', JArr [])]" "ErrExternal ''closed''" "\<lambda>_. False"
        "\<lambda>_. ''use of closed network connection''" "\<lambda>_. True" 0 "[]"] by (simp del: listen_rounds.simps)
qed

end
