(* ===== verification/Parsed_Values.thy ===== *)
theory Parsed_Values
  imports Ovs_Flow Go_Syntax
begin

text \<open>
  What the parsers of \<^verbatim>\<open>matchparser.go\<close>, \<^verbatim>\<open>actionparser.go\<close> and \<^verbatim>\<open>flow.go\<close> can return. The structs for matches and
  actions have unexported fields, so that outside the package only the constructors build them; the parsers,
  which lie inside it, build no other values, and every number they put in a Go \<^verbatim>\<open>int\<close> fits.
\<close>

section \<open>Numbers\<close>

lemma ParseInt_64: "ParseInt s base 64 = ParseInt s base 0"
  by (simp add: ParseInt_def)

lemma int_readers_int64:
  "Atoi s = Ok i \<Longrightarrow> int64 i"
  "scan_int s = Ok (i, t) \<Longrightarrow> int64 i"
  "optional_int s = Ok i \<Longrightarrow> int64 i"
  by (auto simp: Atoi_def scan_int_def optional_int_def ParseInt_64 Let_def int64_def [of 0] dest: ParseInt_range
      split: if_splits)

lemma int64_uint16: "int64 (uint (w :: 16 word))"
  using order_trans [OF _ uint_ge_0, of "- (2 ^ 63)" w] uint_lt2p [of w] by (simp add: int64_def)

lemma To4_length: "To4 ip = Some a \<Longrightarrow> length a = 4"
  by (auto simp: To4_def split: if_splits)

section \<open>Matches and actions\<close>

lemma key_parsers_built:
  "parseMACMatch key v = Ok m \<Longrightarrow> built_match m"
  "parseIntMatch key v mx = Ok m \<Longrightarrow> built_match m"
  "parsePort key v mx = Ok m \<Longrightarrow> built_match m"
  "parseCTState v = Ok m \<Longrightarrow> built_match m"
  "parseTCPFlags v = Ok m \<Longrightarrow> built_match m"
  "parseDataLinkVLAN v = Ok m \<Longrightarrow> built_match m"
  "parseVLANTCI v = Ok m \<Longrightarrow> built_match m"
  "parseCTMark v = Ok m \<Longrightarrow> built_match m"
  "parseTunID v = Ok m \<Longrightarrow> built_match m"
  by (auto simp: key_parsers match_constructors Let_def int64_uint16 dest: int_readers_int64 split: if_splits)

lemma parseMatch_built: "parseMatch key v = Ok m \<Longrightarrow> built_match m"
  unfolding parseMatch_def
  by (auto dest: key_parsers_built split: if_splits) (auto simp: match_constructors)

lemma action_parsers_built:
  "(\<And>mac. built_action (mk mac)) \<Longrightarrow> parse_mac_action pat mk s = Ok a \<Longrightarrow> built_action a"
  "(\<And>ip. length ip = 4 \<Longrightarrow> built_action (mk' ip)) \<Longrightarrow> parse_ip_action pat mk' s = Ok a \<Longrightarrow> built_action a"
  "(\<And>port. built_action (mk'' port)) \<Longrightarrow> parse_port_action pat mk'' s = Ok a \<Longrightarrow> built_action a"
  "(\<And>i. int64 i \<Longrightarrow> built_action (mk''' i)) \<Longrightarrow> parse_int_action pat mk''' s = Ok a \<Longrightarrow> built_action a"
  "parse_conjunction s = Ok a \<Longrightarrow> built_action a"
  "parse_regex_action s = Ok a \<Longrightarrow> built_action a"
  by (auto simp: parse_mac_action_def parse_ip_action_def parse_port_action_def parse_int_action_def parse_conjunction_def
      parse_regex_action_def action_constructors bind_eq_Some_conv dest: int_readers_int64 To4_length split: option.splits prod.splits)

lemma parseAction_built: "parseAction s = Ok a \<Longrightarrow> built_action a"
  unfolding parseAction_def Let_def
  by (auto split: if_splits option.splits elim!: action_parsers_built [rotated])
    (auto simp: action_constructors To4_def)

lemma Parse_built: "Parse p = Ok (actions, raw) \<Longrightarrow> list_all built_action actions"
proof (induction p arbitrary: actions raw rule: Parse.induct)
  case (1 p)
  show ?case
  proof (cases "actionParser_parseAction p")
    case (Ok x)
    then obtain a r p' where x: "x = (a, r, p')" "built_action a"
      by (cases x) (auto simp: actionParser_parseAction_def dest: parseAction_built split: if_splits)
    then show ?thesis using "1.prems" "1.IH" [OF Ok x(1) [symmetric] refl] by (subst (asm) Parse.simps) (auto simp: Ok)
  qed (use "1.prems" in \<open>(subst (asm) Parse.simps, simp split: if_splits)+\<close>)
qed

section \<open>Flows\<close>

definition typed_flow :: "Flow \<Rightarrow> bool" where
  "typed_flow f \<longleftrightarrow> int64 (f_Priority f) \<and> int64 (f_InPort f) \<and> int64 (f_Table f) \<and> int64 (f_IdleTimeout f) \<and>
     list_all built_match (f_Matches f) \<and> list_all built_action (f_Actions f)"

lemma flow_error_Ok [simp]: "flow_error s r = Ok x \<longleftrightarrow> r = Ok x"
  by (cases r) simp_all

lemma flow_field_typed: "flow_field f s = Ok g \<Longrightarrow> typed_flow f \<Longrightarrow> typed_flow g"
  by (auto simp: flow_field_def typed_flow_def Let_def PortLOCAL_def int64_def [of "- 1"] dest: ParseInt_range parseMatch_built
      split: if_splits)

lemma flow_fields_typed: "flow_fields f ss = Ok g \<Longrightarrow> typed_flow f \<Longrightarrow> typed_flow g"
  by (induction f ss rule: flow_fields.induct) (auto dest: flow_field_typed)

text \<open>
  C17: parsing a flow gives a value that the package's constructors could have built. Whatever text
  \<^verbatim>\<open>Flow.UnmarshalText\<close> accepts, every match and every action in the flow is one that an exported constructor builds, the
  numbers fit in 64 bits, and so the Go syntax of each match and action rebuilds it.
\<close>

theorem Flow_UnmarshalText_typed:
  assumes "Flow_UnmarshalText f s = Ok g" "typed_flow f"
  shows "typed_flow g \<and>
    map (\<lambda>m. go_eval match_call (Match_GoString is_print m)) (f_Matches g) = map Some (f_Matches g) \<and>
    map (\<lambda>a. go_eval action_call (Action_GoString is_print a)) (f_Actions g) = map Some (f_Actions g)"
proof -
  obtain ss f1 actions raw where "flow_fields (f\<lparr>f_Matches := []\<rparr>) ss = Ok f1" and g: "g = f1\<lparr>f_Actions := actions\<rparr>"
    and built: "list_all built_action actions"
    using assms(1) by (cases "Parse (newActionParser (TrimSpace (Split s (keyActions @ ''='') ! 1)))")
      (auto simp: Flow_UnmarshalText_def Let_def dest!: Parse_built split: if_splits)
  then have "typed_flow f1" using assms(2) flow_fields_typed by (simp add: typed_flow_def)
  with built have "typed_flow g" by (simp add: typed_flow_def g)
  then show ?thesis
    using match_rebuilds action_rebuilds by (auto simp: typed_flow_def list_all_iff)
qed

theorem Flow_UnmarshalText_typed_witness:
  "Flow_UnmarshalText zero_Flow ''priority=5,ip,in_port=2,dl_vlan=12,table=3,actions=mod_vlan_vid:7,output:1'' =
     Ok \<lparr>f_Priority = 5, f_Protocol = ''ip'', f_InPort = 2, f_Matches = [DataLinkVLAN 12], f_Table = 3,
         f_IdleTimeout = 0, f_Cookie = 0, f_Actions = [ModVLANVID 7, Output 1]\<rparr> \<and>
   go_eval match_call (Match_GoString (\<lambda>_. False) (DataLinkVLAN 12)) = Some (DataLinkVLAN 12)"
proof -
  have p: "Flow_UnmarshalText zero_Flow ''priority=5,ip,in_port=2,dl_vlan=12,table=3,actions=mod_vlan_vid:7,output:1'' =
     Ok \<lparr>f_Priority = 5, f_Protocol = ''ip'', f_InPort = 2, f_Matches = [DataLinkVLAN 12], f_Table = 3,
         f_IdleTimeout = 0, f_Cookie = 0, f_Actions = [ModVLANVID 7, Output 1]\<rparr>" by code_simp
  have "typed_flow zero_Flow" by code_simp
  from Flow_UnmarshalText_typed [OF p this, of "\<lambda>_. False"] p show ?thesis by simp
qed

end
