(* ===== verification/Ovs_Constants.thy ===== *)
theory Ovs_Constants imports V_Switch Match_Parser begin

text \<open>
  The declared constants of the string types of package \<^verbatim>\<open>ovs\<close> (\<^verbatim>\<open>match.go\<close>, \<^verbatim>\<open>ovs.go\<close>, \<^verbatim>\<open>client.go\<close>). A Go
  \<^verbatim>\<open>type T string\<close> admits any string, so that the operations take strings; here are the values the package names, and what
  holds of them in particular.
\<close>

section \<open>Flags of matches\<close>

datatype CTState = CTStateNew | CTStateEstablished | CTStateRelated | CTStateReply | CTStateInvalid | CTStateTracked

fun CTState_text :: "CTState \<Rightarrow> string" where
  "CTState_text CTStateNew = ''new''"
| "CTState_text CTStateEstablished = ''est''"
| "CTState_text CTStateRelated = ''rel''"
| "CTState_text CTStateReply = ''rpl''"
| "CTState_text CTStateInvalid = ''inv''"
| "CTState_text CTStateTracked = ''trk''"

datatype TCPFlag = TCPFlagURG | TCPFlagACK | TCPFlagPSH | TCPFlagRST | TCPFlagSYN | TCPFlagFIN

fun TCPFlag_text :: "TCPFlag \<Rightarrow> string" where
  "TCPFlag_text TCPFlagURG = ''urg''"
| "TCPFlag_text TCPFlagACK = ''ack''"
| "TCPFlag_text TCPFlagPSH = ''psh''"
| "TCPFlag_text TCPFlagRST = ''rst''"
| "TCPFlag_text TCPFlagSYN = ''syn''"
| "TCPFlag_text TCPFlagFIN = ''fin''"

section \<open>Configuration values\<close>

datatype FailMode = FailModeStandalone | FailModeSecure

fun FailMode_text :: "FailMode \<Rightarrow> string" where
  "FailMode_text FailModeStandalone = ''standalone''"
| "FailMode_text FailModeSecure = ''secure''"

datatype InterfaceType = InterfaceTypeGRE | InterfaceTypeInternal | InterfaceTypePatch | InterfaceTypeSTT | InterfaceTypeVXLAN

fun InterfaceType_text :: "InterfaceType \<Rightarrow> string" where
  "InterfaceType_text InterfaceTypeGRE = ''gre''"
| "InterfaceType_text InterfaceTypeInternal = ''internal''"
| "InterfaceType_text InterfaceTypePatch = ''patch''"
| "InterfaceType_text InterfaceTypeSTT = ''stt''"
| "InterfaceType_text InterfaceTypeVXLAN = ''vxlan''"

datatype PortAction = PortActionUp | PortActionDown | PortActionSTP | PortActionNoSTP | PortActionReceive | PortActionNoReceive
  | PortActionReceiveSTP | PortActionNoReceiveSTP | PortActionForward | PortActionNoForward | PortActionFlood
  | PortActionNoFlood | PortActionPacketIn | PortActionNoPacketIn

fun PortAction_text :: "PortAction \<Rightarrow> string" where
  "PortAction_text PortActionUp = ''up''"
| "PortAction_text PortActionDown = ''down''"
| "PortAction_text PortActionSTP = ''stp''"
| "PortAction_text PortActionNoSTP = ''no-stp''"
| "PortAction_text PortActionReceive = ''receive''"
| "PortAction_text PortActionNoReceive = ''no-receive''"
| "PortAction_text PortActionReceiveSTP = ''receive-stp''"
| "PortAction_text PortActionNoReceiveSTP = ''no-receive-stp''"
| "PortAction_text PortActionForward = ''forward''"
| "PortAction_text PortActionNoForward = ''no-forward''"
| "PortAction_text PortActionFlood = ''flood''"
| "PortAction_text PortActionNoFlood = ''no-flood''"
| "PortAction_text PortActionPacketIn = ''packet-in''"
| "PortAction_text PortActionNoPacketIn = ''no-packet-in''"

datatype FlowFormatName = FlowFormatNXMTableID | FlowFormatOXMOpenFlow14

fun FlowFormat_text :: "FlowFormatName \<Rightarrow> string" where
  "FlowFormat_text FlowFormatNXMTableID = ''NXM+table_id''"
| "FlowFormat_text FlowFormatOXMOpenFlow14 = ''OXM-OpenFlow14''"

datatype OpenFlowProtocol = ProtocolOpenFlow10 | ProtocolOpenFlow11 | ProtocolOpenFlow12 | ProtocolOpenFlow13
  | ProtocolOpenFlow14 | ProtocolOpenFlow15

fun Protocol_text :: "OpenFlowProtocol \<Rightarrow> string" where
  "Protocol_text ProtocolOpenFlow10 = ''OpenFlow10''"
| "Protocol_text ProtocolOpenFlow11 = ''OpenFlow11''"
| "Protocol_text ProtocolOpenFlow12 = ''OpenFlow12''"
| "Protocol_text ProtocolOpenFlow13 = ''OpenFlow13''"
| "Protocol_text ProtocolOpenFlow14 = ''OpenFlow14''"
| "Protocol_text ProtocolOpenFlow15 = ''OpenFlow15''"

section \<open>Different constants have different texts\<close>

lemma constant_texts_inj:
  "CTState_text a = CTState_text b \<longleftrightarrow> a = b" "TCPFlag_text c = TCPFlag_text d \<longleftrightarrow> c = d"
  "FailMode_text e = FailMode_text f \<longleftrightarrow> e = f" "InterfaceType_text g = InterfaceType_text h \<longleftrightarrow> g = h"
  "PortAction_text i = PortAction_text j \<longleftrightarrow> i = j" "FlowFormat_text k = FlowFormat_text l \<longleftrightarrow> k = l"
  "Protocol_text m = Protocol_text n \<longleftrightarrow> m = n"
proof -
  show "CTState_text a = CTState_text b \<longleftrightarrow> a = b" by (cases a; cases b; simp)
  show "TCPFlag_text c = TCPFlag_text d \<longleftrightarrow> c = d" by (cases c; cases d; simp)
  show "FailMode_text e = FailMode_text f \<longleftrightarrow> e = f" by (cases e; cases f; simp)
  show "InterfaceType_text g = InterfaceType_text h \<longleftrightarrow> g = h" by (cases g; cases h; simp)
  show "PortAction_text i = PortAction_text j \<longleftrightarrow> i = j" by (cases i; cases j; simp)
  show "FlowFormat_text k = FlowFormat_text l \<longleftrightarrow> k = l" by (cases k; cases l; simp)
  show "Protocol_text m = Protocol_text n \<longleftrightarrow> m = n" by (cases m; cases n; simp)
qed

section \<open>Matches on declared flags\<close>

text \<open>A state or a flag that is set, or unset.\<close>

definition ct_flag :: "bool \<times> CTState \<Rightarrow> string" where
  "ct_flag = (\<lambda>(b, s). if b then SetState (CTState_text s) else UnsetState (CTState_text s))"

definition tcp_flag :: "bool \<times> TCPFlag \<Rightarrow> string" where
  "tcp_flag = (\<lambda>(b, f). if b then SetTCPFlag (TCPFlag_text f) else UnsetTCPFlag (TCPFlag_text f))"

lemma declared_flag_text: "flag_text (ct_flag x)" "flag_text (tcp_flag y)"
proof -
  have p: "plain c" if "c \<in> set ''+-abcdefghijklmnopqrstuvwxyz''" for c
  proof -
    have "list_all plain ''+-abcdefghijklmnopqrstuvwxyz''" by code_simp
    with that show ?thesis unfolding list_all_iff by blast
  qed
  show "flag_text (ct_flag x)"
    by (cases x; cases "snd x") (simp_all add: flag_text_def ct_flag_def SetState_def UnsetState_def p)
  show "flag_text (tcp_flag y)"
    by (cases y; cases "snd y") (simp_all add: flag_text_def tcp_flag_def SetTCPFlag_def UnsetTCPFlag_def p)
qed

text \<open>
  Matches on the declared states and flags are read back as they were written. For every non-empty list of declared
  connection tracking states, each set or unset, and every such list of TCP flags, \<^verbatim>\<open>parseMatch\<close> reads the concatenation of
  their texts, which has no separators, back to the very list.
\<close>

theorem declared_flags_round_trip:
  assumes "cs \<noteq> []" "fs \<noteq> []"
  shows "Match_MarshalText (ConnectionTrackingState (map ct_flag cs)) = Ok (''ct_state='' @ concat (map ct_flag cs)) \<and>
    parseMatch ''ct_state'' (concat (map ct_flag cs)) = Ok (ConnectionTrackingState (map ct_flag cs)) \<and>
    Match_MarshalText (TCPFlags (map tcp_flag fs)) = Ok (''tcp_flags='' @ concat (map tcp_flag fs)) \<and>
    parseMatch ''tcp_flags'' (concat (map tcp_flag fs)) = Ok (TCPFlags (map tcp_flag fs))"
proof -
  let ?c = "ConnectionTrackingState (map ct_flag cs)" and ?f = "TCPFlags (map tcp_flag fs)"
  have m: "Match_MarshalText ?c = Ok (''ct_state='' @ concat (map ct_flag cs))"
    "Match_MarshalText ?f = Ok (''tcp_flags='' @ concat (map tcp_flag fs))"
    by (simp_all add: match_constructors connectionTrackingMatch_MarshalText_def tcpFlagsMatch_MarshalText_def key_value_def match_names)
  have "wf_match ?c" "wf_match ?f" by (simp_all add: match_constructors list_all_iff declared_flag_text)
  note reads = marshal_reads_back [OF this(1) m(1), unfolded reads_back_def Let_def]
    marshal_reads_back [OF this(2) m(2), unfolded reads_back_def Let_def]
  have k: "match_key ?c = ''ct_state''" "match_key ?f = ''tcp_flags''" by (simp_all add: match_constructors match_names)
  have "normalize ?c = ?c" "normalize ?f = ?f" using assms by (simp_all add: match_constructors)
  moreover have "match_value ?c = concat (map ct_flag cs)" "match_value ?f = concat (map tcp_flag fs)"
    using m k by (simp_all add: match_value_def)
  ultimately have "parseMatch ''ct_state'' (concat (map ct_flag cs)) = Ok ?c" "parseMatch ''tcp_flags'' (concat (map tcp_flag fs)) = Ok ?f"
    using reads k by simp_all
  then show ?thesis using m by blast
qed

theorem declared_flags_round_trip_witness:
  "parseMatch ''ct_state'' ''+trk-new'' = Ok (ConnectionTrackingState [SetState ''trk'', UnsetState ''new'']) \<and>
   parseMatch ''tcp_flags'' ''+syn-ack'' = Ok (TCPFlags [SetTCPFlag ''syn'', UnsetTCPFlag ''ack''])"
  using declared_flags_round_trip [of "[(True, CTStateTracked), (False, CTStateNew)]" "[(True, TCPFlagSYN), (False, TCPFlagACK)]"]
  by (simp add: ct_flag_def tcp_flag_def SetState_def UnsetState_def SetTCPFlag_def UnsetTCPFlag_def)

end
