(* ===== verification/Shell_Pipe.thy ===== *)
theory Shell_Pipe imports Prelude begin

text \<open>
  \<^verbatim>\<open>shellPipe\<close> of \<^verbatim>\<open>ovs/client.go\<close>: the default way to run a program with an input. The process that calls it
  and the program it starts are two processes that communicate over three pipes of bounded capacity, so
  that each may block; the steps of the relation are the transfers of single bytes. The program is a
  parameter: the function \<open>next\<close> says what it does in each of its states.
\<close>

section \<open>Processes and pipes\<close>

datatype 'p doing = ReadByte "char option \<Rightarrow> 'p" | WriteOut char 'p | WriteErr char 'p | Exit int

text \<open>
  Where the caller is: copying its input to the program, reading standard output up to its end, then standard error
  (\<^verbatim>\<open>io.MultiReader\<close>), waiting for the exit status, returned. \<open>Broken\<close> is a failed write to a program that is gone.
\<close>

datatype caller = Copying string | ReadingOut | ReadingErr | Waiting | Returned string int | Broken | NotStarted error

record 'p shell =
  at :: caller
  in_pipe :: string
  in_closed :: bool
  out_pipe :: string
  err_pipe :: string
  got :: string
  program :: "'p option"  \<comment> \<open>\<open>None\<close> after its exit, which closes its ends of the pipes\<close>
  status :: int

text \<open>Up to \<^verbatim>\<open>command.Start\<close>, whose error (or that of making a pipe) is returned.\<close>

definition shell_start :: "error option \<Rightarrow> 'p \<Rightarrow> string \<Rightarrow> 'p shell" where
  "shell_start e p input =
     \<lparr>at = (case e of None \<Rightarrow> Copying input | Some err \<Rightarrow> NotStarted err), in_pipe = [], in_closed = False, out_pipe = [],
      err_pipe = [], got = [], program = (case e of None \<Rightarrow> Some p | Some _ \<Rightarrow> None), status = 0\<rparr>"

inductive shell_step :: "nat \<Rightarrow> ('p \<Rightarrow> 'p doing) \<Rightarrow> 'p shell \<Rightarrow> 'p shell \<Rightarrow> bool" for cap :: nat and nxt :: "'p \<Rightarrow> 'p doing" where
  copy: "at s = Copying (c # input) \<Longrightarrow> program s \<noteq> None \<Longrightarrow> length (in_pipe s) < cap \<Longrightarrow>
    shell_step cap nxt s (s\<lparr>at := Copying input, in_pipe := in_pipe s @ [c]\<rparr>)"
| broken: "at s = Copying (c # input) \<Longrightarrow> program s = None \<Longrightarrow> shell_step cap nxt s (s\<lparr>at := Broken\<rparr>)"
| close_input: "at s = Copying [] \<Longrightarrow> shell_step cap nxt s (s\<lparr>at := ReadingOut, in_closed := True\<rparr>)"
| read_out: "at s = ReadingOut \<Longrightarrow> out_pipe s = c # rest \<Longrightarrow>
    shell_step cap nxt s (s\<lparr>got := got s @ [c], out_pipe := rest\<rparr>)"
| end_out: "at s = ReadingOut \<Longrightarrow> out_pipe s = [] \<Longrightarrow> program s = None \<Longrightarrow> shell_step cap nxt s (s\<lparr>at := ReadingErr\<rparr>)"
| read_err: "at s = ReadingErr \<Longrightarrow> err_pipe s = c # rest \<Longrightarrow>
    shell_step cap nxt s (s\<lparr>got := got s @ [c], err_pipe := rest\<rparr>)"
| end_err: "at s = ReadingErr \<Longrightarrow> err_pipe s = [] \<Longrightarrow> program s = None \<Longrightarrow> shell_step cap nxt s (s\<lparr>at := Waiting\<rparr>)"
| waited: "at s = Waiting \<Longrightarrow> program s = None \<Longrightarrow> shell_step cap nxt s (s\<lparr>at := Returned (got s) (status s)\<rparr>)"
| program_reads: "program s = Some p \<Longrightarrow> nxt p = ReadByte f \<Longrightarrow> in_pipe s = c # rest \<Longrightarrow>
    shell_step cap nxt s (s\<lparr>program := Some (f (Some c)), in_pipe := rest\<rparr>)"
| program_eof: "program s = Some p \<Longrightarrow> nxt p = ReadByte f \<Longrightarrow> in_pipe s = [] \<Longrightarrow> in_closed s \<Longrightarrow>
    shell_step cap nxt s (s\<lparr>program := Some (f None)\<rparr>)"
| program_out: "program s = Some p \<Longrightarrow> nxt p = WriteOut c q \<Longrightarrow> length (out_pipe s) < cap \<Longrightarrow>
    shell_step cap nxt s (s\<lparr>program := Some q, out_pipe := out_pipe s @ [c]\<rparr>)"
| program_err: "program s = Some p \<Longrightarrow> nxt p = WriteErr c q \<Longrightarrow> length (err_pipe s) < cap \<Longrightarrow>
    shell_step cap nxt s (s\<lparr>program := Some q, err_pipe := err_pipe s @ [c]\<rparr>)"
| program_exit: "program s = Some p \<Longrightarrow> nxt p = Exit code \<Longrightarrow>
    shell_step cap nxt s (s\<lparr>program := None, status := code\<rparr>)"

inductive_cases shell_stepE: "shell_step cap nxt s s'"

section \<open>The program by itself\<close>

text \<open>
  What the program writes on a given input, if it ends within \<open>n\<close> steps: its output, its error output, its status and
  the input it left; and how much output it writes while it has not consumed its input.
\<close>

fun program_run :: "('p \<Rightarrow> 'p doing) \<Rightarrow> nat \<Rightarrow> 'p \<Rightarrow> string \<Rightarrow> (string \<times> string \<times> int \<times> string) option" where
  "program_run nxt 0 p i = None"
| "program_run nxt (Suc n) p i =
     (case nxt p of
        ReadByte f \<Rightarrow> (case i of [] \<Rightarrow> program_run nxt n (f None) [] | c # r \<Rightarrow> program_run nxt n (f (Some c)) r)
      | WriteOut c q \<Rightarrow> map_option (\<lambda>(out, err, rest). (c # out, err, rest)) (program_run nxt n q i)
      | WriteErr c q \<Rightarrow> map_option (\<lambda>(out, err, rest). (out, c # err, rest)) (program_run nxt n q i)
      | Exit code \<Rightarrow> Some ([], [], code, i))"

fun early_output :: "('p \<Rightarrow> 'p doing) \<Rightarrow> nat \<Rightarrow> 'p \<Rightarrow> string \<Rightarrow> nat" where
  "early_output nxt 0 p i = 0"
| "early_output nxt (Suc n) p i =
     (if i = [] then 0 else
      case nxt p of
        ReadByte f \<Rightarrow> early_output nxt n (f (Some (hd i))) (tl i)
      | WriteOut c q \<Rightarrow> Suc (early_output nxt n q i)
      | WriteErr c q \<Rightarrow> early_output nxt n q i
      | Exit code \<Rightarrow> 0)"

section \<open>The invariant\<close>

fun to_copy :: "caller \<Rightarrow> string" where
  "to_copy (Copying input) = input"
| "to_copy _ = []"

fun copying :: "caller \<Rightarrow> bool" where
  "copying (Copying _) = True"
| "copying _ = False"

fun rank :: "caller \<Rightarrow> nat" where
  "rank (Copying _) = 4"
| "rank ReadingOut = 3"
| "rank ReadingErr = 2"
| "rank Waiting = 1"
| "rank _ = 0"

text \<open>
  What is still to come: the rest of the program's run, given the input on its way, completes the output read and
  buffered to the output \<open>out\<close> and \<open>err\<close> of the whole run.
\<close>

definition to_come :: "('p \<Rightarrow> 'p doing) \<Rightarrow> nat \<Rightarrow> 'p shell \<Rightarrow> string \<Rightarrow> string \<Rightarrow> int \<Rightarrow> bool" where
  "to_come nxt n s out err code \<longleftrightarrow>
     (case program s of
        None \<Rightarrow> n = 0 \<and> out = [] \<and> err = [] \<and> code = status s \<and> in_pipe s @ to_copy (at s) = []
      | Some p \<Rightarrow> program_run nxt n p (in_pipe s @ to_copy (at s)) = Some (out, err, code, []))"

definition shell_inv :: "nat \<Rightarrow> ('p \<Rightarrow> 'p doing) \<Rightarrow> string \<Rightarrow> string \<Rightarrow> int \<Rightarrow> nat \<Rightarrow> 'p shell \<Rightarrow> bool" where
  "shell_inv cap nxt out err code n s \<longleftrightarrow>
     (\<exists>o' e'. to_come nxt n s o' e' code \<and> in_closed s = (\<not> copying (at s)) \<and>
       (case at s of
          Copying i \<Rightarrow> got s = [] \<and> out_pipe s @ o' = out \<and> err_pipe s @ e' = err \<and> length err \<le> cap \<and>
            (case program s of None \<Rightarrow> True | Some p \<Rightarrow> length (out_pipe s) + early_output nxt n p (in_pipe s @ i) \<le> cap)
        | ReadingOut \<Rightarrow> got s @ out_pipe s @ o' = out \<and> err_pipe s @ e' = err \<and> length err \<le> cap
        | ReadingErr \<Rightarrow> program s = None \<and> got s @ err_pipe s = out @ err
        | Waiting \<Rightarrow> program s = None \<and> got s = out @ err
        | Returned b c \<Rightarrow> b = out @ err \<and> c = code \<and> program s = None
        | _ \<Rightarrow> False))"


definition weight :: "'p shell \<Rightarrow> nat" where
  "weight s = length (out_pipe s) + length (err_pipe s) + length (to_copy (at s)) + rank (at s)"

lemma program_run_Some:
  "program_run nxt n p i = Some r \<Longrightarrow> \<exists>m. n = Suc m"
  by (cases n) simp_all

lemma early_output_Nil [simp]: "early_output nxt n p [] = 0"
  by (cases n) simp_all

lemma shell_runs: "shell_inv cap nxt out err code n s \<Longrightarrow> program s = Some p \<Longrightarrow> \<exists>m. n = Suc m"
  using program_run_Some by (fastforce simp: shell_inv_def to_come_def)

lemmas shell_inv_simps = shell_inv_def to_come_def weight_def

lemma shell_step_inv:
  assumes "shell_step cap nxt s s'" "shell_inv cap nxt out err code n s"
  shows "\<exists>m. shell_inv cap nxt out err code m s' \<and> 2 * m + weight s' < 2 * n + weight s"
proof -
  have stay: ?thesis if "shell_inv cap nxt out err code n s'" "weight s' < weight s" using that by auto
  have moves: ?thesis if "program s = Some p" "\<And>m. n = Suc m \<Longrightarrow> shell_inv cap nxt out err code m s'" "weight s' < weight s + 2" for p
    using that shell_runs [OF assms(2)] by fastforce
  from assms(1) show ?thesis
  proof (cases rule: shell_step.cases)
    case program_reads
    then show ?thesis using assms(2) by (intro moves; cases "at s") (auto simp: shell_inv_simps)
  next
    case program_eof
    then show ?thesis using assms(2) by (intro moves; cases "at s") (auto simp: shell_inv_simps)
  next
    case program_out
    then show ?thesis using assms(2) by (intro moves; cases "at s") (auto simp: shell_inv_simps split: if_splits)
  next
    case program_err
    then show ?thesis using assms(2) by (intro moves; cases "at s") (auto simp: shell_inv_simps split: if_splits)
  next
    case (program_exit p c)
    then obtain m where "n = Suc m" using shell_runs [OF assms(2)] by blast
    with program_exit show ?thesis
      using assms(2) by (intro exI [of _ 0]; cases "at s") (auto simp: shell_inv_simps)
  qed ((rule stay; use assms(2) in \<open>auto simp: shell_inv_simps split: option.splits\<close>)+)
qed

text \<open>While the caller has not returned, one of the two can go on.\<close>

lemma shell_alive:
  assumes "shell_inv cap nxt out err code n s" "program s = Some p"
  shows "copying (at s) \<or> at s = ReadingOut"
    "nxt p = WriteErr c q \<Longrightarrow> length (err_pipe s) < cap"
    "nxt p = WriteOut c q \<Longrightarrow> at s = Copying (d # i) \<Longrightarrow> length (out_pipe s) < cap"
proof -
  obtain m where m: "n = Suc m" using shell_runs [OF assms] by blast
  show alive: "copying (at s) \<or> at s = ReadingOut" using assms by (cases "at s") (auto simp: shell_inv_def)
  show "length (err_pipe s) < cap" if "nxt p = WriteErr c q"
    using alive that assms by (cases "at s") (auto simp: shell_inv_def to_come_def m)
  show "length (out_pipe s) < cap" if "nxt p = WriteOut c q" "at s = Copying (d # i)"
    using that assms by (auto simp: shell_inv_def to_come_def m)
qed

lemma shell_progress:
  assumes "shell_inv cap nxt out err code n s" "0 < cap" "at s \<noteq> Returned (out @ err) code"
  shows "\<exists>s'. shell_step cap nxt s s'"
proof (cases "program s")
  case None
  show ?thesis
  proof (cases "at s")
    case (Copying i)
    then show ?thesis using None by (cases i) (blast intro: broken close_input)+
  next
    case ReadingOut
    then show ?thesis using None by (cases "out_pipe s") (blast intro: end_out read_out)+
  next
    case ReadingErr
    then show ?thesis using None by (cases "err_pipe s") (blast intro: end_err read_err)+
  next
    case Waiting
    then show ?thesis using None by (blast intro: waited)
  qed (use assms(1,3) in \<open>auto simp: shell_inv_def\<close>)
next
  case (Some p)
  note alive = shell_alive [OF assms(1) Some]
  have run: ?thesis if "\<And>c q. nxt p = WriteOut c q \<Longrightarrow> length (out_pipe s) < cap" "in_pipe s \<noteq> [] \<or> in_closed s"
    using that alive(2) Some by (cases "nxt p"; cases "in_pipe s")
      (blast intro: program_reads program_eof program_out program_err program_exit)+
  show ?thesis
  proof (cases "at s")
    case (Copying i)
    show ?thesis
    proof (cases i)
      case Nil
      then show ?thesis using Copying close_input by blast
    next
      case (Cons d i')
      show ?thesis
      proof (cases "length (in_pipe s) < cap")
        case True
        then show ?thesis using Copying Cons Some copy by blast
      next
        case False
        then show ?thesis using alive(3) [of _ _ d i'] Copying Cons assms(2) by (intro run) auto
      qed
    qed
  next
    case ReadingOut
    show ?thesis
    proof (cases "out_pipe s")
      case Nil
      then show ?thesis using assms(1,2) ReadingOut by (intro run) (auto simp: shell_inv_def)
    next
      case (Cons c rest)
      then show ?thesis using ReadingOut read_out by blast
    qed
  qed (use alive(1) in auto)
qed

lemma shell_start_inv:
  assumes "program_run nxt n p input = Some (out, err, code, [])" "early_output nxt n p input \<le> cap" "length err \<le> cap"
  shows "shell_inv cap nxt out err code n (shell_start None p input)"
  using assms by (auto simp: shell_inv_def to_come_def shell_start_def)

text \<open>
  C15: the pipe to a program works out if the program reads before it writes much. Let a program, by itself, read all
  of its input, end, write no more output than a pipe holds before it has read its input, and no more
  error output than a pipe holds. Then every run of \<^verbatim>\<open>shellPipe\<close> with it ends after a bounded number of steps,
  however the two are scheduled, and returns exactly the output followed by the error output, and the exit status.
\<close>

theorem shellPipe_completes:
  assumes "program_run nxt n p input = Some (out, err, code, [])"
    "early_output nxt n p input \<le> cap" "length err \<le> cap" "0 < cap"
    "(shell_step cap nxt ^^ k) (shell_start None p input) s"
  shows "k \<le> 2 * n + length input + 4 \<and>
    (at s = Returned (out @ err) code \<or> (\<exists>s'. shell_step cap nxt s s'))"
proof -
  have "\<exists>m. shell_inv cap nxt out err code m s \<and> k + (2 * m + weight s) \<le> 2 * n + weight (shell_start None p input)"
    using assms(5)
  proof (induction k arbitrary: s)
    case 0
    then show ?case using shell_start_inv [OF assms(1-3)] by auto
  next
    case (Suc k)
    then obtain t where t: "(shell_step cap nxt ^^ k) (shell_start None p input) t" "shell_step cap nxt t s" by auto
    with Suc.IH [OF t(1)] shell_step_inv [OF t(2)] show ?case by fastforce
  qed
  then show ?thesis using shell_progress [OF _ assms(4)] by (fastforce simp: weight_def shell_start_def)
qed


text \<open>
  A program that copies its input to its output after it has read all of it, and one that only complains.
\<close>

fun collect :: "string \<times> bool \<Rightarrow> (string \<times> bool) doing" where
  "collect (seen, False) = ReadByte (\<lambda>b. case b of None \<Rightarrow> (seen, True) | Some c \<Rightarrow> (seen @ [c], False))"
| "collect (c # seen, True) = WriteOut c (seen, True)"
| "collect ([], True) = Exit 0"

fun complain :: "nat \<Rightarrow> nat doing" where
  "complain 0 = Exit 1"
| "complain (Suc n) = WriteErr (CHR ''E'') n"

theorem shellPipe_completes_witness:
  "\<exists>s. (shell_step 2 collect ^^ 1) (shell_start None ([], False) ''abc'') s \<and>
     (at s = Returned ''abc'' 0 \<or> (\<exists>s'. shell_step 2 collect s s'))"
proof -
  let ?s = "shell_start None ([], False) ''abc''"
  have r: "program_run collect 8 ([], False) ''abc'' = Some (''abc'', [], 0, [])"
    "early_output collect 8 ([], False) ''abc'' \<le> 2" by code_simp+
  have "(shell_step 2 collect ^^ 1) ?s (?s\<lparr>at := Copying ''bc'', in_pipe := ''a''\<rparr>)"
    using copy [of ?s "CHR ''a''" "''bc''" 2 collect] by (auto simp: shell_start_def OO_def)
  from shellPipe_completes [OF r _ _ this] this show ?thesis by auto
qed

definition complaining :: "nat \<Rightarrow> nat \<Rightarrow> nat shell" where
  "complaining n k = (shell_start None n [])\<lparr>at := ReadingOut, in_closed := True, err_pipe := replicate k (CHR ''E'')\<rparr>"

lemma complain_run: "k \<le> cap \<Longrightarrow> (shell_step cap complain)\<^sup>*\<^sup>* (complaining (k + n) 0) (complaining n k)"
proof (induction k arbitrary: n)
  case (Suc k)
  have "shell_step cap complain (complaining (Suc n) k) (complaining n (Suc k))"
    using program_err [of "complaining (Suc n) k" "Suc n" complain "CHR ''E''" n cap] Suc.prems
    by (simp add: complaining_def shell_start_def replicate_append_same)
  then show ?case using Suc.IH [of "Suc n"] Suc.prems by simp
qed simp

text \<open>
  C31: a program that complains too much hangs \<^verbatim>\<open>shellPipe\<close>. Standard error is read only after the end of standard
  output; a program that writes one byte more to it than a pipe holds before it exits blocks, and
  the caller waits for the end of its output: neither can go on.
\<close>

theorem shellPipe_deadlock:
  "\<exists>s. (shell_step cap complain)\<^sup>*\<^sup>* (shell_start None (Suc cap) []) s \<and> at s = ReadingOut \<and>
     (\<forall>s'. \<not> shell_step cap complain s s')"
proof (intro exI conjI allI)
  have "shell_step cap complain (shell_start None (Suc cap) []) (complaining (cap + 1) 0)"
    using close_input [of "shell_start None (Suc cap) []" cap complain] by (simp add: complaining_def shell_start_def)
  then show "(shell_step cap complain)\<^sup>*\<^sup>* (shell_start None (Suc cap) []) (complaining 1 cap)"
    using complain_run [of cap cap 1] by (rule converse_rtranclp_into_rtranclp) simp
  show "at (complaining 1 cap) = ReadingOut" by (simp add: complaining_def)
  show "\<not> shell_step cap complain (complaining 1 cap) s'" for s'
    by (auto elim!: shell_stepE simp: complaining_def shell_start_def)
qed

end
