(* ===== verification/Flag_Slices.thy ===== *)
theory Flag_Slices imports Ovs_Client begin

text \<open>
  The flags of a client are two slices that all of its calls share: \<^verbatim>\<open>dumpPorts\<close> and \<^verbatim>\<open>dumpAggregate\<close>
  (\<^verbatim>\<open>ovs/openflow.go\<close>) append their arguments to \<^verbatim>\<open>ofctlFlags\<close>, and \<^verbatim>\<open>exec\<close> (\<^verbatim>\<open>ovs/client.go\<close>) appends the arguments of every
  command to \<^verbatim>\<open>flags\<close>. Elsewhere in the development slices are lists, which is right for a single call at a time; here
  the arrays behind the slices are explicit, and calls may interleave.
\<close>

section \<open>Slices\<close>

text \<open>Arrays of strings by address; the length of an array is the capacity of the slices that start it.\<close>

record heap =
  arrays :: "nat \<Rightarrow> string list"
  fresh :: nat

record slice =
  arr :: nat
  len :: nat

definition slice_view :: "heap \<Rightarrow> slice \<Rightarrow> string list" where
  "slice_view h s = take (len s) (arrays h (arr s))"

definition wf_slice :: "heap \<Rightarrow> slice \<Rightarrow> bool" where
  "wf_slice h s \<longleftrightarrow> arr s < fresh h \<and> len s \<le> length (arrays h (arr s))"

text \<open>
  The capacity \<^verbatim>\<open>growslice\<close> chooses: the size needed or the double of the old capacity (less for long slices), rounded
  up to a size class of the allocator, of which a string takes sixteen bytes.
\<close>

definition size_classes :: "nat list" where
  "size_classes = [16, 32, 48, 64, 80, 96, 112, 128, 144, 160, 176, 192, 208, 224, 240, 256, 288, 320, 352, 384, 416, 448,
     480, 512, 576, 640, 704, 768, 896, 1024, 1152, 1280, 1408, 1536, 1792, 2048, 2304, 2688, 3072, 3200, 3456, 4096, 4864,
     5120, 5376, 6144, 6528, 6784, 6912, 8192, 9472, 9728, 10240, 10880, 12288, 13568, 14336, 16384, 18432, 19072, 20480,
     21760, 24576, 27264, 28672, 32768]"

definition round_up :: "nat \<Rightarrow> nat" where
  "round_up n =
     (case find (\<lambda>c. n * 16 \<le> c) size_classes of
        Some c \<Rightarrow> c div 16
      | None \<Rightarrow> (n * 16 + 8191) div 8192 * 512)"

function grow_quarter :: "nat \<Rightarrow> nat \<Rightarrow> nat" where
  "grow_quarter needed c = (if c < needed \<and> 4 \<le> c then grow_quarter needed (c + c div 4) else c)"
  by pat_completeness auto
termination by (relation "measure (\<lambda>(n, c). n - c)") auto

definition growslice :: "nat \<Rightarrow> nat \<Rightarrow> nat \<Rightarrow> nat" where
  "growslice old_len old_cap needed =
     round_up (if needed > 2 * old_cap then needed else if old_len < 1024 then 2 * old_cap
       else grow_quarter needed old_cap)"

definition append_slice :: "heap \<Rightarrow> slice \<Rightarrow> string list \<Rightarrow> heap \<times> slice" where
  "append_slice h s xs =
     (let a = arrays h (arr s); n = len s + length xs in
      if n \<le> length a
      then (h\<lparr>arrays := (arrays h)(arr s := take (len s) a @ xs @ drop n a)\<rparr>, s\<lparr>len := n\<rparr>)
      else (h\<lparr>arrays := (arrays h)(fresh h := take (len s) a @ xs @ replicate (growslice (len s) (length a) n - n) []),
              fresh := Suc (fresh h)\<rparr>, \<lparr>arr = fresh h, len = n\<rparr>))"

definition new_slice :: "heap \<Rightarrow> string list \<Rightarrow> heap \<times> slice" where
  "new_slice h xs =
     (h\<lparr>arrays := (arrays h)(fresh h := xs), fresh := Suc (fresh h)\<rparr>, \<lparr>arr = fresh h, len = length xs\<rparr>)"

section \<open>What an append does\<close>

lemma append_slice_view: "wf_slice h s \<Longrightarrow> append_slice h s xs = (h', s') \<Longrightarrow> slice_view h' s' = slice_view h s @ xs"
  by (auto simp: append_slice_def slice_view_def wf_slice_def Let_def split: if_splits)

lemma append_slice_wf:
  assumes "wf_slice h s" "append_slice h s xs = (h', s')"
  shows "wf_slice h' s'" "fresh h \<le> fresh h'" "arr s' = arr s \<or> arr s' = fresh h"
    "a \<noteq> arr s' \<Longrightarrow> arrays h' a = arrays h a"
    "len s + length xs > length (arrays h (arr s)) \<Longrightarrow> arr s' = fresh h"
  using assms by (auto simp: append_slice_def wf_slice_def Let_def split: if_splits)

lemma new_slice_wf:
  assumes "new_slice h xs = (h', s')"
  shows "wf_slice h' s'" "slice_view h' s' = xs" "fresh h' = Suc (fresh h)" "arr s' = fresh h"
    "a \<noteq> fresh h \<Longrightarrow> arrays h' a = arrays h a"
  using assms by (auto simp: new_slice_def wf_slice_def slice_view_def)

section \<open>The calls of a client\<close>

text \<open>The flags of a client after its options, each of which appends its flags, in order.\<close>

fun client_flags :: "heap \<Rightarrow> slice \<Rightarrow> string list list \<Rightarrow> heap \<times> slice" where
  "client_flags h s [] = (h, s)"
| "client_flags h s (opt # opts) = (case append_slice h s opt of (h', s') \<Rightarrow> client_flags h' s' opts)"

record client_slices =
  ofctl_slice :: slice
  flags_slice :: slice
  with_sudo :: bool

text \<open>
  \<^verbatim>\<open>New\<close>: both slices are empty, then the options are applied; \<open>opts\<close> are those that append to \<^verbatim>\<open>flags\<close>, \<open>ofctl_opts\<close>
  those that append to \<^verbatim>\<open>ofctlFlags\<close>.
\<close>

definition new_slices :: "string list list \<Rightarrow> string list list \<Rightarrow> bool \<Rightarrow> heap \<times> client_slices" where
  "new_slices opts ofctl_opts use_sudo =
     (let none = \<lparr>arrays = (\<lambda>_. []), fresh = 2\<rparr> in
      case client_flags none \<lparr>arr = 0, len = 0\<rparr> opts of (h1, fl) \<Rightarrow>
      case client_flags h1 \<lparr>arr = 1, len = 0\<rparr> ofctl_opts of (h2, ofl) \<Rightarrow>
        (h2, \<lparr>ofctl_slice = ofl, flags_slice = fl, with_sudo = use_sudo\<rparr>))"

text \<open>
  What the callers ask for: the two dumps that append to the shared flags, or any other command, whose arguments are in an
  array of their own.
\<close>

datatype cmd_request = DumpPorts string string | DumpAggregate string string | Command string "string list"

fun request_program :: "cmd_request \<Rightarrow> string" where
  "request_program (Command prog _) = prog"
| "request_program _ = ''ovs-ofctl''"

fun request_args :: "string list \<Rightarrow> cmd_request \<Rightarrow> string list" where
  "request_args fl (DumpPorts bridge port) = fl @ [''dump-ports'', bridge] @ (if port \<noteq> [] then [port] else [])"
| "request_args fl (DumpAggregate bridge flow) = fl @ [''dump-aggregate'', bridge, flow]"
| "request_args fl (Command _ args) = args"

text \<open>
  How far a call is: the first append of \<^verbatim>\<open>dumpPorts\<close> is done; the arguments are complete; \<^verbatim>\<open>exec\<close> has appended them to
  the flags; the program's name is settled, with the prefix \<^verbatim>\<open>sudo\<close> if wanted; the program runs with what the slice
  holds at that moment.
\<close>

datatype call = NotCalled | Begun slice | Args slice | Flagged slice | Ready string slice | Ran string "string list"

definition build_args :: "client_slices \<Rightarrow> cmd_request \<Rightarrow> heap \<Rightarrow> heap \<times> call" where
  "build_args cs req h =
     (case req of
        DumpPorts bridge port \<Rightarrow> apsnd Begun (append_slice h (ofctl_slice cs) [''dump-ports'', bridge])
      | DumpAggregate bridge flow \<Rightarrow> apsnd Args (append_slice h (ofctl_slice cs) [''dump-aggregate'', bridge, flow])
      | Command _ args \<Rightarrow> apsnd Args (new_slice h args))"

definition add_port :: "cmd_request \<Rightarrow> heap \<Rightarrow> slice \<Rightarrow> heap \<times> slice" where
  "add_port req h s =
     (case req of
        DumpPorts bridge port \<Rightarrow> if port \<noteq> [] then append_slice h s [port] else (h, s)
      | _ \<Rightarrow> (h, s))"

text \<open>\<^verbatim>\<open>exec\<close>: the arguments behind the flags, and the prefix \<^verbatim>\<open>sudo\<close>.\<close>

definition add_flags :: "client_slices \<Rightarrow> heap \<Rightarrow> slice \<Rightarrow> heap \<times> slice" where
  "add_flags cs h s = append_slice h (flags_slice cs) (slice_view h s)"

definition prefix_sudo :: "client_slices \<Rightarrow> string \<Rightarrow> heap \<Rightarrow> slice \<Rightarrow> heap \<times> call" where
  "prefix_sudo cs prog h s =
     (if with_sudo cs then
        case new_slice h [prog] of (h', cmd) \<Rightarrow> apsnd (Ready ''sudo'') (append_slice h' cmd (slice_view h s))
      else (h, Ready prog s))"

fun call_next :: "client_slices \<Rightarrow> cmd_request \<Rightarrow> heap \<Rightarrow> call \<Rightarrow> heap \<times> call" where
  "call_next cs req h NotCalled = build_args cs req h"
| "call_next cs req h (Begun s) = apsnd Args (add_port req h s)"
| "call_next cs req h (Args s) = apsnd Flagged (add_flags cs h s)"
| "call_next cs req h (Flagged s) = prefix_sudo cs (request_program req) h s"
| "call_next cs req h (Ready cmd s) = (h, Ran cmd (slice_view h s))"
| "call_next cs req h (Ran cmd args) = (h, Ran cmd args)"

text \<open>Calls in any order: a schedule says which call makes the next step.\<close>

record calls_state =
  memory :: heap
  calls :: "nat \<Rightarrow> call"

definition call_step :: "client_slices \<Rightarrow> (nat \<Rightarrow> cmd_request) \<Rightarrow> nat \<Rightarrow> calls_state \<Rightarrow> calls_state" where
  "call_step cs reqs k s =
     (case call_next cs (reqs k) (memory s) (calls s k) of (h, c) \<Rightarrow> \<lparr>memory = h, calls = (calls s)(k := c)\<rparr>)"

definition run_calls :: "client_slices \<Rightarrow> (nat \<Rightarrow> cmd_request) \<Rightarrow> nat list \<Rightarrow> heap \<Rightarrow> calls_state" where
  "run_calls cs reqs schedule h = fold (call_step cs reqs) schedule \<lparr>memory = h, calls = (\<lambda>_. NotCalled)\<rparr>"

section \<open>Calls that stay apart\<close>

fun call_slice :: "call \<Rightarrow> slice option" where
  "call_slice (Begun s) = Some s"
| "call_slice (Args s) = Some s"
| "call_slice (Flagged s) = Some s"
| "call_slice (Ready _ s) = Some s"
| "call_slice _ = None"

text \<open>What a call holds, for the client \<open>c\<close> with lists of flags.\<close>

fun call_text :: "'w Client \<Rightarrow> cmd_request \<Rightarrow> string list \<Rightarrow> call \<Rightarrow> bool" where
  "call_text c req v NotCalled \<longleftrightarrow> True"
| "call_text c req v (Begun _) \<longleftrightarrow> (\<exists>bridge port. req = DumpPorts bridge port \<and> v = ofctlFlags c @ [''dump-ports'', bridge])"
| "call_text c req v (Args _) \<longleftrightarrow> v = request_args (ofctlFlags c) req"
| "call_text c req v (Flagged _) \<longleftrightarrow> v = flags c @ request_args (ofctlFlags c) req"
| "call_text c req v (Ready cmd _) \<longleftrightarrow> (cmd, v) = command_line c (request_program req) (request_args (ofctlFlags c) req)"
| "call_text c req v (Ran cmd args) \<longleftrightarrow> (cmd, args) = command_line c (request_program req) (request_args (ofctlFlags c) req)"

definition call_ok :: "'w Client \<Rightarrow> cmd_request \<Rightarrow> heap \<Rightarrow> call \<Rightarrow> bool" where
  "call_ok c req h cl \<longleftrightarrow>
     (case call_slice cl of None \<Rightarrow> call_text c req [] cl | Some s \<Rightarrow> wf_slice h s \<and> call_text c req (slice_view h s) cl)"

text \<open>The flags are those of \<open>c\<close>, and have no room for what any of the calls appends.\<close>

definition flags_full :: "client_slices \<Rightarrow> (nat \<Rightarrow> cmd_request) \<Rightarrow> 'w Client \<Rightarrow> heap \<Rightarrow> bool" where
  "flags_full cs reqs c h \<longleftrightarrow>
     wf_slice h (ofctl_slice cs) \<and> slice_view h (ofctl_slice cs) = ofctlFlags c \<and>
     wf_slice h (flags_slice cs) \<and> slice_view h (flags_slice cs) = flags c \<and> with_sudo cs = sudo c \<and>
     length (arrays h (arr (ofctl_slice cs))) < len (ofctl_slice cs) + 2 \<and>
     (\<forall>k. length (arrays h (arr (flags_slice cs))) < len (flags_slice cs) + length (request_args (ofctlFlags c) (reqs k)))"

definition owned :: "client_slices \<Rightarrow> calls_state \<Rightarrow> bool" where
  "owned cs s \<longleftrightarrow>
     (\<forall>k a. call_slice (calls s k) = Some a \<longrightarrow> arr a \<noteq> arr (ofctl_slice cs) \<and> arr a \<noteq> arr (flags_slice cs) \<and>
        (\<forall>j b. j \<noteq> k \<and> call_slice (calls s j) = Some b \<longrightarrow> arr a \<noteq> arr b))"

definition calls_inv :: "client_slices \<Rightarrow> (nat \<Rightarrow> cmd_request) \<Rightarrow> 'w Client \<Rightarrow> calls_state \<Rightarrow> bool" where
  "calls_inv cs reqs c s \<longleftrightarrow>
     flags_full cs reqs c (memory s) \<and> (\<forall>k. call_ok c (reqs k) (memory s) (calls s k)) \<and> owned cs s"

text \<open>
  A step of a call: it gets where it should, and writes only to the array it had before or to a new one.
\<close>

definition frames :: "heap \<Rightarrow> call \<Rightarrow> heap \<Rightarrow> call \<Rightarrow> bool" where
  "frames h cl h' cl' \<longleftrightarrow> fresh h \<le> fresh h' \<and>
     (\<forall>a < fresh h. call_slice cl \<noteq> None \<and> a = arr (the (call_slice cl)) \<or> arrays h' a = arrays h a) \<and>
     (\<forall>s'. call_slice cl' = Some s' \<longrightarrow> fresh h \<le> arr s' \<or> (\<exists>s. call_slice cl = Some s \<and> arr s' = arr s))"

lemma append_frames:
  assumes "wf_slice h s" "append_slice h s xs = (h', s')" "arr s' = fresh h \<or> call_slice cl = Some s" "call_slice cl' = Some s'"
  shows "frames h cl h' cl'"
  using assms(3,4) append_slice_wf(2,3,4) [OF assms(1,2)] unfolding frames_def by fastforce

lemma call_next_ok:
  assumes "flags_full cs reqs c h" "call_ok c (reqs k) h cl" "call_next cs (reqs k) h cl = (h', cl')"
  shows "call_ok c (reqs k) h' cl' \<and> frames h cl h' cl'"
proof -
  let ?fl = "ofctl_slice cs" and ?gl = "flags_slice cs"
  have fl: "wf_slice h ?fl" "slice_view h ?fl = ofctlFlags c" "length (arrays h (arr ?fl)) < len ?fl + 2"
    and gl: "wf_slice h ?gl" "slice_view h ?gl = flags c" "with_sudo cs = sudo c"
      "length (arrays h (arr ?gl)) < len ?gl + length (request_args (ofctlFlags c) (reqs k))"
    using assms(1) by (simp_all add: flags_full_def)
  show ?thesis
  proof (cases cl)
    case NotCalled
    have dump: "call_ok c (reqs k) h' cl' \<and> frames h cl h' cl'"
      if a: "append_slice h ?fl xs = (h', s')" "length xs \<ge> 2" "call_slice cl' = Some s'" "call_text c (reqs k) (ofctlFlags c @ xs) cl'"
      for xs s'
      using append_frames [OF fl(1) a(1), of cl cl'] append_slice_wf(1,5) [OF fl(1) a(1)] append_slice_view [OF fl(1) a(1)] a(2-4) fl(2,3)
      by (simp add: call_ok_def)
    show ?thesis
    proof (cases "reqs k")
      case (DumpPorts bridge port)
      obtain s' where s: "append_slice h ?fl [''dump-ports'', bridge] = (h', s')" "cl' = Begun s'"
        using assms(3) by (cases "append_slice h ?fl [''dump-ports'', bridge]") (auto simp: NotCalled DumpPorts build_args_def)
      show ?thesis by (rule dump [OF s(1)]) (simp_all add: s(2) DumpPorts)
    next
      case (DumpAggregate bridge flow)
      obtain s' where s: "append_slice h ?fl [''dump-aggregate'', bridge, flow] = (h', s')" "cl' = Args s'"
        using assms(3) by (cases "append_slice h ?fl [''dump-aggregate'', bridge, flow]") (auto simp: NotCalled DumpAggregate build_args_def)
      show ?thesis by (rule dump [OF s(1)]) (simp_all add: s(2) DumpAggregate)
    next
      case (Command prog args)
      obtain s' where s: "new_slice h args = (h', s')" "cl' = Args s'"
        using assms(3) by (cases "new_slice h args") (auto simp: NotCalled Command build_args_def)
      show ?thesis using new_slice_wf [OF s(1)] by (auto simp: call_ok_def frames_def s(2) Command)
    qed
  next
    case (Begun s)
    then have s: "wf_slice h s" "call_text c (reqs k) (slice_view h s) cl" using assms(2) by (simp_all add: call_ok_def)
    then obtain bridge port where r: "reqs k = DumpPorts bridge port" by (auto simp: Begun)
    show ?thesis
    proof (cases "port = []")
      case True
      then show ?thesis using assms(3) s by (auto simp: Begun r call_ok_def frames_def add_port_def)
    next
      case False
      then obtain s' where s': "append_slice h s [port] = (h', s')" "cl' = Args s'"
        using assms(3) by (cases "append_slice h s [port]") (auto simp: Begun r add_port_def)
      show ?thesis
        using append_frames [OF s(1) s'(1), of cl cl'] append_slice_wf(1) [OF s(1) s'(1)] append_slice_view [OF s(1) s'(1)] s(2) False
        by (simp add: call_ok_def Begun r s'(2))
    qed
  next
    case (Args s)
    then have s: "slice_view h s = request_args (ofctlFlags c) (reqs k)" using assms(2) by (simp add: call_ok_def)
    obtain s' where s': "append_slice h ?gl (slice_view h s) = (h', s')" "cl' = Flagged s'"
      using assms(3) by (cases "append_slice h ?gl (slice_view h s)") (auto simp: Args add_flags_def)
    show ?thesis
      using append_frames [OF gl(1) s'(1), of cl cl'] append_slice_wf(1,5) [OF gl(1) s'(1)] append_slice_view [OF gl(1) s'(1)] s gl(2,4)
      by (simp add: call_ok_def Args s'(2))
  next
    case (Flagged s)
    then have s: "wf_slice h s" "slice_view h s = flags c @ request_args (ofctlFlags c) (reqs k)" using assms(2) by (simp_all add: call_ok_def)
    show ?thesis
    proof (cases "sudo c")
      case True
      obtain h1 t where t: "new_slice h [request_program (reqs k)] = (h1, t)" by force
      note n = new_slice_wf [OF t]
      obtain s' where s': "append_slice h1 t (slice_view h s) = (h', s')" "cl' = Ready ''sudo'' s'"
        using assms(3) True gl(3) by (cases "append_slice h1 t (slice_view h s)") (auto simp: Flagged t prefix_sudo_def)
      note w = append_slice_wf [OF n(1) s'(1)]
      have "frames h cl h' cl'" using w(2,3,4) n(3,4,5) unfolding frames_def s'(2) by fastforce
      then show ?thesis
        using w(1) append_slice_view [OF n(1) s'(1)] n(2) s True by (simp add: call_ok_def s'(2) command_line_def)
    next
      case False
      then show ?thesis using assms(3) gl(3) s by (auto simp: Flagged call_ok_def frames_def command_line_def prefix_sudo_def)
    qed
  next
    case (Ready cmd s)
    then show ?thesis using assms(2,3) by (auto simp: call_ok_def frames_def)
  next
    case (Ran cmd args)
    then show ?thesis using assms(2,3) by (auto simp: call_ok_def frames_def)
  qed
qed

lemma call_step_inv:
  assumes "calls_inv cs reqs c s"
  shows "calls_inv cs reqs c (call_step cs reqs k s)"
proof -
  obtain h' cl' where n: "call_next cs (reqs k) (memory s) (calls s k) = (h', cl')" by force
  have full: "flags_full cs reqs c (memory s)" and ok: "call_ok c (reqs j) (memory s) (calls s j)" and own: "owned cs s" for j
    using assms by (simp_all add: calls_inv_def)
  have ok': "call_ok c (reqs k) h' cl'" and fr: "frames (memory s) (calls s k) h' cl'"
    using call_next_ok [OF full ok n] by simp_all
  have kept: "wf_slice h' t \<and> arrays h' (arr t) = arrays (memory s) (arr t) \<and> slice_view h' t = slice_view (memory s) t"
    if "wf_slice (memory s) t" "\<And>a. call_slice (calls s k) = Some a \<Longrightarrow> arr a \<noteq> arr t" for t
  proof -
    have "arr t < fresh (memory s)" using that(1) by (simp add: wf_slice_def)
    then have "arrays h' (arr t) = arrays (memory s) (arr t)" "fresh (memory s) \<le> fresh h'"
      using fr that(2) unfolding frames_def by fastforce+
    then show ?thesis using that(1) by (auto simp: wf_slice_def slice_view_def)
  qed
  have wf: "wf_slice (memory s) a" if "call_slice (calls s j) = Some a" for j a using ok [of j] that by (simp add: call_ok_def)
  have f: "wf_slice (memory s) (ofctl_slice cs)" "wf_slice (memory s) (flags_slice cs)" using full by (simp_all add: flags_full_def)
  have "flags_full cs reqs c h'"
    using full kept [OF f(1)] kept [OF f(2)] own by (auto simp: flags_full_def owned_def)
  moreover have "call_ok c (reqs j) h' (calls s j)" if "j \<noteq> k" for j
  proof (cases "call_slice (calls s j)")
    case None
    then show ?thesis using ok [of j] by (simp add: call_ok_def)
  next
    case (Some a)
    then have "\<And>b. call_slice (calls s k) = Some b \<Longrightarrow> arr b \<noteq> arr a" using own that unfolding owned_def by metis
    from kept [OF wf [OF Some] this] show ?thesis using ok [of j] Some by (simp add: call_ok_def)
  qed
  moreover have apart: "arr a \<noteq> arr t"
    if "call_slice cl' = Some a" "wf_slice (memory s) t" "\<And>b. call_slice (calls s k) = Some b \<Longrightarrow> arr b \<noteq> arr t" for a t
    using fr that unfolding frames_def wf_slice_def by fastforce
  have "owned cs \<lparr>memory = h', calls = (calls s)(k := cl')\<rparr>"
    unfolding owned_def
  proof (intro allI impI)
    fix j a
    assume a: "call_slice (calls \<lparr>memory = h', calls = (calls s)(k := cl')\<rparr> j) = Some a"
    have others: "arr b \<noteq> arr d" if "call_slice (calls s i) = Some b" "call_slice (calls s l) = Some d" "i \<noteq> l" for i l b d
      using own that unfolding owned_def by metis
    have "arr a \<noteq> arr (ofctl_slice cs) \<and> arr a \<noteq> arr (flags_slice cs)"
      using a own apart [OF _ f(1)] apart [OF _ f(2)] by (cases "j = k") (auto simp: owned_def)
    moreover have "arr a \<noteq> arr b" if "i \<noteq> j" "call_slice (calls \<lparr>memory = h', calls = (calls s)(k := cl')\<rparr> i) = Some b" for i b
    proof (cases "j = k")
      case True
      then show ?thesis using a that apart [of a b] wf [of i b] others [of k _ i b] by auto
    next
      case False
      then show ?thesis using a that apart [of b a] wf [of j a] others [of j a i b] others [of k _ j a] by (cases "i = k") auto
    qed
    ultimately show "arr a \<noteq> arr (ofctl_slice cs) \<and> arr a \<noteq> arr (flags_slice cs) \<and>
        (\<forall>i b. i \<noteq> j \<and> call_slice (calls \<lparr>memory = h', calls = (calls s)(k := cl')\<rparr> i) = Some b \<longrightarrow> arr a \<noteq> arr b)" by blast
  qed
  ultimately show ?thesis using ok' by (simp add: calls_inv_def call_step_def n)
qed

lemma run_calls_inv:
  assumes "flags_full cs reqs c h"
  shows "calls_inv cs reqs c (run_calls cs reqs schedule h)"
proof -
  have "calls_inv cs reqs c s \<Longrightarrow> calls_inv cs reqs c (fold (call_step cs reqs) schedule s)" for s
    by (induction schedule arbitrary: s) (simp_all add: call_step_inv)
  moreover have "calls_inv cs reqs c \<lparr>memory = h, calls = (\<lambda>_. NotCalled)\<rparr>"
    using assms by (simp add: calls_inv_def call_ok_def owned_def)
  ultimately show ?thesis by (simp add: run_calls_def)
qed

text \<open>A call makes at most five steps.\<close>

fun call_rank :: "call \<Rightarrow> nat" where
  "call_rank NotCalled = 5"
| "call_rank (Begun _) = 4"
| "call_rank (Args _) = 3"
| "call_rank (Flagged _) = 2"
| "call_rank (Ready _ _) = 1"
| "call_rank (Ran _ _) = 0"

lemma call_next_rank: "call_rank (snd (call_next cs req h cl)) \<le> call_rank cl - 1"
  by (cases cl) (auto simp: build_args_def prefix_sudo_def split: cmd_request.split prod.split)

lemma run_calls_rank: "call_rank (calls (run_calls cs reqs schedule h) k) \<le> 5 - count_list schedule k"
proof -
  have "call_rank (calls (fold (call_step cs reqs) schedule s) k) \<le> call_rank (calls s k) - count_list schedule k" for s
  proof (induction schedule arbitrary: s)
    case (Cons j schedule)
    have "call_rank (calls (call_step cs reqs j s) k) \<le> call_rank (calls s k) - (if j = k then 1 else 0)"
      using call_next_rank [of cs "reqs j" "memory s" "calls s j"] by (auto simp: call_step_def split: prod.split)
    then show ?case using Cons [of "call_step cs reqs j s"] by (auto intro: order_trans)
  qed simp
  from this [of "\<lparr>memory = h, calls = (\<lambda>_. NotCalled)\<rparr>"] show ?thesis by (simp add: run_calls_def)
qed

text \<open>
  C20: concurrent calls run their own commands if the flags have no room behind them. For a client whose slice of flags for
  \<^verbatim>\<open>ovs-ofctl\<close> has room for less than the two arguments every dump appends, and whose slice of common flags has room for
  less than the arguments of any of the calls, let any number of dumps and other commands make their appends, the prefixing
  of \<^verbatim>\<open>sudo\<close> and the start of the program in any order, each step as one. Then a call that runs its program runs it with
  exactly the command line that the client with lists for slices has for it, and every call that is scheduled five times runs.
\<close>

theorem calls_separate:
  assumes "flags_full cs reqs c h"
  shows "(\<forall>cmd args. calls (run_calls cs reqs schedule h) k = Ran cmd args \<longrightarrow>
      (cmd, args) = command_line c (request_program (reqs k)) (request_args (ofctlFlags c) (reqs k))) \<and>
    (5 \<le> count_list schedule k \<longrightarrow> (\<exists>cmd args. calls (run_calls cs reqs schedule h) k = Ran cmd args))"
proof -
  let ?cl = "calls (run_calls cs reqs schedule h) k"
  have "call_ok c (reqs k) (memory (run_calls cs reqs schedule h)) ?cl"
    using run_calls_inv [OF assms, of schedule] by (simp add: calls_inv_def)
  then have "\<forall>cmd args. ?cl = Ran cmd args \<longrightarrow>
      (cmd, args) = command_line c (request_program (reqs k)) (request_args (ofctlFlags c) (reqs k))"
    by (auto simp: call_ok_def)
  moreover have "\<exists>cmd args. ?cl = Ran cmd args" if "5 \<le> count_list schedule k"
    using run_calls_rank [of cs reqs schedule h k] that by (cases ?cl) auto
  ultimately show ?thesis by blast
qed

definition format_flags :: "string list" where "format_flags = [''--flow-format=OXM-OpenFlow14'']"
definition ssl_flags :: "string list" where "ssl_flags = [''--private-key=k'', ''--certificate=c'', ''--ca-cert=a'']"
definition timeout_flags :: "string list" where "timeout_flags = [''--timeout=1'']"

definition two_bridges :: "nat \<Rightarrow> cmd_request" where
  "two_bridges k = (if k = 0 then DumpPorts ''br0'' [] else DumpPorts ''br1'' [])"

definition by_turns :: "nat list" where
  "by_turns = [0, 0, 0, 1, 1, 1, 0, 0, 1, 1]"

definition list_client :: "string list \<Rightarrow> string list \<Rightarrow> unit Client" where
  "list_client fl ofl = \<lparr>flags = fl, ofctlFlags = ofl, debug = False, sudo = True,
     execFunc = (\<lambda>_ _ w. ((None, None), w)), pipeFunc = (\<lambda>_ _ _ w. ((None, None), w))\<rparr>"

theorem calls_separate_witness:
  "case new_slices [timeout_flags] [format_flags, ssl_flags] True of (h, cs) \<Rightarrow>
     calls (run_calls cs two_bridges by_turns h) 0 =
       Ran ''sudo'' (''ovs-ofctl'' # timeout_flags @ format_flags @ ssl_flags @ [''dump-ports'', ''br0''])"
proof -
  let ?c = "list_client timeout_flags (format_flags @ ssl_flags)"
  obtain h cs where n: "new_slices [timeout_flags] [format_flags, ssl_flags] True = (h, cs)" by force
  have "case new_slices [timeout_flags] [format_flags, ssl_flags] True of (h, cs) \<Rightarrow>
      wf_slice h (ofctl_slice cs) \<and> slice_view h (ofctl_slice cs) = format_flags @ ssl_flags \<and>
      wf_slice h (flags_slice cs) \<and> slice_view h (flags_slice cs) = timeout_flags \<and> with_sudo cs \<and>
      length (arrays h (arr (ofctl_slice cs))) < len (ofctl_slice cs) + 2 \<and>
      length (arrays h (arr (flags_slice cs))) < len (flags_slice cs) + 2" by code_simp
  then have "flags_full cs two_bridges ?c h"
    unfolding n by (auto simp: flags_full_def list_client_def two_bridges_def)
  moreover have "5 \<le> count_list by_turns 0" by code_simp
  ultimately show ?thesis
    using calls_separate [of cs two_bridges ?c h by_turns 0] unfolding n
    by (auto simp: list_client_def two_bridges_def command_line_def)
qed

text \<open>
  With room, calls can run each other's commands. With the options \<^verbatim>\<open>SetSSLParam\<close> and \<^verbatim>\<open>FlowFormat\<close>, in this order, the
  flags for \<^verbatim>\<open>ovs-ofctl\<close> have room for two more strings, which both of two dumps use: if the second builds its arguments
  before the first copies them, the first one gets the statistics of the second one's bridge.
\<close>

theorem dumps_clash:
  "case new_slices [] [ssl_flags, format_flags] False of (h, cs) \<Rightarrow>
     calls (run_calls cs two_bridges [0, 0, 1, 0, 0, 0] h) 0 = Ran ''ovs-ofctl'' (ssl_flags @ format_flags @ [''dump-ports'', ''br1''])"
  by code_simp

text \<open>
  The common flags clash in the same way: five options \<^verbatim>\<open>Timeout\<close> leave room for three more strings behind them, and of two
  calls of \<^verbatim>\<open>DeleteBridge\<close> the first may delete the bridge of the second.
\<close>

definition two_deletes :: "nat \<Rightarrow> cmd_request" where
  "two_deletes k = Command ''ovs-vsctl'' [''--if-exists'', ''del-br'', if k = 0 then ''br0'' else ''br1'']"

theorem commands_clash:
  "case new_slices [timeout_flags, timeout_flags, timeout_flags, timeout_flags, timeout_flags] [] False of (h, cs) \<Rightarrow>
     calls (run_calls cs two_deletes [0, 0, 1, 1, 0, 0] h) 0 =
       Ran ''ovs-vsctl'' (timeout_flags @ timeout_flags @ timeout_flags @ timeout_flags @ timeout_flags @
         [''--if-exists'', ''del-br'', ''br1''])"
  by code_simp

end
