(* ===== verification/Go_Compact.thy ===== *)
theory Go_Compact imports Go_Json begin

text \<open>
  How \<^verbatim>\<open>encoding/json\<close> writes a \<^verbatim>\<open>json.RawMessage\<close>: the text must be JSON, and is copied without the white space
  between its tokens and with the HTML characters, U+2028 and U+2029 escaped (\<^verbatim>\<open>compact\<close>).
  Shown: a text the encoder itself has printed is copied unchanged.
\<close>

fun html_escape :: "string \<Rightarrow> string" where
  "html_escape [] = []"
| "html_escape (c # s) =
     (if c \<in> {CHR ''<'', CHR ''>'', CHR ''&''} then [CHR 0x5C] @ ''u00'' @ hex2 (of_char c) @ html_escape s
      else if HasPrefix (c # s) [CHR 0xE2, CHR 0x80, CHR 0xA8] then [CHR 0x5C] @ ''u2028'' @ html_escape (drop 2 s)
      else if HasPrefix (c # s) [CHR 0xE2, CHR 0x80, CHR 0xA9] then [CHR 0x5C] @ ''u2029'' @ html_escape (drop 2 s)
      else c # html_escape s)"

definition raw_texts :: "(string \<times> string \<times> jtoken) list \<Rightarrow> string" where
  "raw_texts ts = concat (map (\<lambda>(_, raw, _). raw) ts)"

definition compact :: "string \<Rightarrow> string result" where
  "compact s =
     (case (json_parse s, lex s) of
        (Some _, Some ts) \<Rightarrow> Ok (html_escape (raw_texts ts))
      | _ \<Rightarrow> Err ErrJSONSyntax)"

section \<open>Texts without anything to escape\<close>

definition copied :: "string \<Rightarrow> bool" where
  "copied s \<longleftrightarrow> (\<forall>t. html_escape (s @ t) = s @ html_escape t)"

definition copied_char :: "char \<Rightarrow> bool" where
  "copied_char c \<longleftrightarrow> c \<notin> {CHR ''<'', CHR ''>'', CHR ''&'', CHR 0xE2}"

lemma copied_append [intro]: "copied s \<Longrightarrow> copied t \<Longrightarrow> copied (s @ t)"
  by (simp add: copied_def)

lemma copied_Nil [simp]: "copied []"
  by (simp add: copied_def)

lemma copied_concat: "list_all copied xs \<Longrightarrow> copied (concat xs)"
  by (induction xs) auto

lemma copied_Join: "list_all copied xs \<Longrightarrow> copied sep \<Longrightarrow> copied (Join xs sep)"
  by (induction xs sep rule: Join.induct) auto

lemma copied_chars: "list_all copied_char s \<Longrightarrow> copied s"
  by (induction s) (auto simp: copied_def copied_char_def HasPrefix_iff)

lemma copied_escape: "copied s \<Longrightarrow> html_escape s = s"
  unfolding copied_def by (metis append_Nil2 html_escape.simps(1))

section \<open>Numbers\<close>

lemma digits_copied: "list_all copied_char s = list_all copied_char (dropWhile jdigit s)"
proof -
  have "list_all copied_char (takeWhile jdigit s)"
    by (auto simp: list_all_iff jdigit_def copied_char_def dest!: set_takeWhileD)
  then show ?thesis by (metis list_all_append takeWhile_dropWhile_id)
qed

lemma drop_prefix_copied: "HasPrefix s [c] \<Longrightarrow> copied_char c \<Longrightarrow> list_all copied_char (drop (Suc 0) s) = list_all copied_char s"
  by (cases s) (auto simp: HasPrefix_iff)

lemma drop_sign_copied: "list_all copied_char (drop_sign s) = list_all copied_char s"
  by (auto simp: drop_sign_def copied_char_def drop_prefix_copied)

lemma lex_exponent_copied: "lex_exponent s = Some t \<Longrightarrow> list_all copied_char s = list_all copied_char t"
  using digits_copied [of "drop_sign (drop 1 s)"]
  by (auto simp: lex_exponent_def Let_def drop_sign_copied copied_char_def drop_prefix_copied split: if_splits)

lemma lex_fraction_copied: "lex_fraction s = Some t \<Longrightarrow> list_all copied_char s = list_all copied_char t"
  using digits_copied [of "drop 1 s"]
  by (auto simp: lex_fraction_def copied_char_def drop_prefix_copied dest: lex_exponent_copied split: if_splits)

lemma lex_number_copied: "lex_number s = Some t \<Longrightarrow> list_all copied_char s = list_all copied_char t"
  using digits_copied [of s] digits_copied [of "drop 1 s"] drop_prefix_copied [of "drop 1 s" "CHR ''0''"]
  by (auto simp: lex_number_def Let_def copied_char_def drop_prefix_copied dest!: lex_fraction_copied split: if_splits)

section \<open>Strings\<close>

lemma hex_digit_copied: "n < 16 \<Longrightarrow> copied_char (digit_char n)"
proof -
  have "list_all (\<lambda>n. copied_char (digit_char n)) [0..<16]" by code_simp
  then show "n < 16 \<Longrightarrow> copied_char (digit_char n)" by (simp add: list_all_iff)
qed

lemma copied_hex2: "n < 128 \<Longrightarrow> list_all copied_char (hex2 n)"
  by (simp add: hex2_def hex_digit_copied)

text \<open>A rune of several bytes: the first byte is the only one that could start an escape.\<close>

lemma rune_tail_copied:
  assumes "rune_width s \<noteq> 0"
  shows "list_all copied_char (tl (take (rune_width s) s))"
proof -
  have c: "copied_char (s ! i)" if "byte_in lo hi s i" "0x80 \<le> lo" "hi \<le> 0xBF" for lo hi i
    using that by (auto simp: byte_in_def copied_char_def)
  have "copied_char (s ! 1)" if "rune2 s" using that c by (auto simp: rune2_def)
  moreover have "copied_char (s ! 1) \<and> copied_char (s ! 2)" if "rune3 s" using that c by (auto simp: rune3_def)
  moreover have "copied_char (s ! 1) \<and> copied_char (s ! 2) \<and> copied_char (s ! 3)" if "rune4 s" using that c by (auto simp: rune4_def)
  ultimately have "copied_char (s ! i)" if "0 < i" "i < rune_width s" for i
    using that by (auto simp: rune_width_shapes less_Suc_eq numeral_eq_Suc split: if_splits)
  then show ?thesis using rune_width_le [of s] by (auto simp: list_all_length nth_tl)
qed

lemma rune_E2: "rune_width (CHR 0xE2 # u) \<noteq> 0 \<Longrightarrow> rune_width (CHR 0xE2 # u) = 3"
proof -
  have "\<not> byte_in 0x00 0x7F (CHR 0xE2 # u) 0" "\<not> rune2 (CHR 0xE2 # u)" "\<not> rune4 (CHR 0xE2 # u)"
    by (simp_all add: rune2_def rune4_def byte_in_def)
  then show "rune_width (CHR 0xE2 # u) \<noteq> 0 \<Longrightarrow> rune_width (CHR 0xE2 # u) = 3"
    by (simp add: rune_width_shapes split: if_splits)
qed

lemma copied_E2:
  assumes "list_all copied_char [d, e]" "[CHR 0xE2, d, e] \<notin> {[CHR 0xE2, CHR 0x80, CHR 0xA8], [CHR 0xE2, CHR 0x80, CHR 0xA9]}"
  shows "copied [CHR 0xE2, d, e]"
proof -
  have "html_escape (CHR 0xE2 # d # e # t) = CHR 0xE2 # html_escape (d # e # t)" for t
    using assms(2) by (simp add: HasPrefix_iff)
  moreover have "html_escape (d # e # t) = d # e # html_escape t" for t
    using copied_chars [OF assms(1)] by (simp only: copied_def append_Cons append_Nil)
  ultimately show ?thesis by (simp add: copied_def del: html_escape.simps)
qed

lemma ascii_rune_copied:
  assumes "ascii c"
  shows "copied (encode_rune (1, [c]))"
proof (rule copied_chars)
  have "list_all (\<lambda>m. list_all copied_char (encode_rune (1, [char_of m]))) [0..<128]" by code_simp
  moreover have "(of_char c :: nat) \<in> set [0..<128]" using assms by (simp add: ascii_def)
  ultimately have "list_all copied_char (encode_rune (1, [char_of (of_char c :: nat)]))" unfolding list_all_iff by (rule bspec)
  then show "list_all copied_char (encode_rune (1, [c]))" by simp
qed

lemma rune_copied:
  assumes "rune_width s \<noteq> 0"
  shows "copied (encode_rune (rune_width s, take (rune_width s) s))"
proof -
  let ?bs = "take (rune_width s) s"
  obtain c u where s: "s = c # u" using assms by (cases s) (auto simp: rune_width_def byte_in_def)
  obtain w where bs: "?bs = c # take w u" "rune_width s = Suc w" using assms s by (cases "rune_width s") auto
  have tail: "list_all copied_char (take w u)" using rune_tail_copied [OF assms] bs(1) by simp
  have "copied ?bs" if "\<not> ascii c" "?bs \<notin> {[CHR 0xE2, CHR 0x80, CHR 0xA8], [CHR 0xE2, CHR 0x80, CHR 0xA9]}"
  proof (cases "copied_char c")
    case True
    then show ?thesis using tail bs(1) by (simp add: copied_chars)
  next
    case False
    then have E2: "c = CHR 0xE2" "rune_width s = 3"
      using rune_E2 [of u] assms s \<open>\<not> ascii c\<close> by (auto simp: ascii_def copied_char_def)
    then have "length (take w u) = 2" using rune_width_le [of s] bs(2) s by simp
    then obtain d e where "take w u = [d, e]" by (metis (no_types, lifting) One_nat_def Suc_1 length_0_conv length_Suc_conv)
    then show ?thesis using copied_E2 [of d e] tail that(2) bs(1) E2(1) by simp
  qed
  moreover have "copied (encode_rune (1, [c]))" if "ascii c" using that by (rule ascii_rune_copied)
  moreover have "copied ([CHR 0x5C] @ ''ufffd'')" "copied ([CHR 0x5C] @ ''u2028'')" "copied ([CHR 0x5C] @ ''u2029'')"
    by (rule copied_chars, code_simp)+
  moreover have "take (rune_width s) s = [c] \<and> rune_width s = 1" if "ascii c" using that s by simp
  moreover have "hd ?bs = c" using bs(1) by simp
  ultimately show ?thesis by (cases "ascii c") (auto simp: encode_rune_def Let_def ascii_def)
qed

lemma encode_rune_copied: "list_all copied (map encode_rune (runes s))"
proof (induction s rule: runes.induct)
  case (1 s)
  have "copied (encode_rune (1, RuneError))" by (rule copied_chars) code_simp
  then show ?case using 1 rune_copied [of s] by (cases "s = []"; cases "rune_width s = 0") (auto simp: runes.simps [of s])
qed

lemma encode_string_copied: "copied (encode_string s)"
  unfolding encode_string_def
  by (intro copied_append copied_concat encode_rune_copied) (auto simp: copied_char_def intro: copied_chars)

lemma json_text_copied: "wf_json v \<Longrightarrow> copied (json_text v)"
proof (induction v rule: json_text.induct)
  case (3 n)
  then show ?case using lex_number_copied [of n "[]"] by (simp add: copied_chars)
next
  case (5 vs)
  then show ?case unfolding json_text.simps
    by (intro copied_append copied_Join) (auto simp: list_all_iff copied_char_def intro: copied_chars)
next
  case (6 kvs)
  have "copied (encode_string k @ '':'' @ json_text v)" if "(k, v) \<in> set kvs" for k v
    using 6 that by (intro copied_append encode_string_copied) (auto simp: list_all_iff copied_char_def intro: copied_chars)
  then show ?case unfolding json_text.simps
    by (intro copied_append copied_Join) (auto simp: list_all_iff copied_char_def intro: copied_chars)
qed (auto simp: encode_string_copied copied_char_def intro: copied_chars)

section \<open>Printed values\<close>

lemma raw_texts_simps [simp]:
  "raw_texts [] = []" "raw_texts ((ws, raw, tok) # ts) = raw @ raw_texts ts"
  "raw_texts (ts @ us) = raw_texts ts @ raw_texts us"
  by (simp_all add: raw_texts_def)

lemma raw_texts_comma: "raw_texts (comma_tokens tss) = Join (map raw_texts tss) '',''"
  by (induction tss rule: comma_tokens.induct) simp_all

lemma raw_texts_json: "raw_texts (json_tokens v) = json_text v"
proof (induction v rule: json_text.induct)
  case (6 kvs)
  have "map (raw_texts \<circ> (\<lambda>(k, v). string_token k # ([], '':'', TColon) # json_tokens v)) kvs =
      map (\<lambda>(k, v). encode_string k @ '':'' @ json_text v) kvs"
    using 6 by (auto simp: string_token_def)
  then show ?case by (simp add: raw_texts_comma del: map_eq_conv)
qed (auto simp: raw_texts_comma string_token_def comp_def cong: map_cong)

lemma compact_text:
  assumes "wf_json v"
  shows "compact (json_text v) = Ok (json_text v)"
proof -
  have "lex (json_text v) = Some (json_tokens v)"
    using lexesD [OF lexes_json [OF assms], of "[]"] by (simp add: lex_space)
  moreover have "json_parse (json_text v) = Some (json_text v, normal_json v, last_members v)"
    using json_parse_text [OF assms, of "[]"] by simp
  ultimately show ?thesis by (simp add: compact_def raw_texts_json copied_escape json_text_copied [OF assms])
qed

end
