(* ===== verification/Test_Conn.thy ===== *)
theory Test_Conn imports Go_Compact Error_Texts begin

text \<open>
  \<^verbatim>\<open>ovsdb/internal/jsonrpc/testconn.go\<close>: the server on the other side of a test connection. One goroutine decodes
  requests, calls a function of the test and encodes what it returns; another encodes the notifications
  of a channel; they share the encoder under a mutex. The function and the connection's \<^verbatim>\<open>Write\<close> are parameters.
\<close>

section \<open>Requests as the server reads them\<close>

definition zero_Request :: Request where
  "zero_Request = \<lparr>req_ID = [], req_Method = [], req_Params = None\<rparr>"

definition Request_member :: "(string \<Rightarrow> bool) \<Rightarrow> string \<times> string \<times> json \<Rightarrow> Request \<Rightarrow> Request result" where
  "Request_member float_ok = (\<lambda>(k, raw, v) r.
     if fold_key k = ''id'' then and_then (json_string_field (req_ID r) v) (\<lambda>s. Ok (r\<lparr>req_ID := s\<rparr>))
     else if fold_key k = ''method'' then and_then (json_string_field (req_Method r) v) (\<lambda>s. Ok (r\<lparr>req_Method := s\<rparr>))
     else if fold_key k = ''params'' then
       and_then (json_interface float_ok v) (\<lambda>v'. Ok (r\<lparr>req_Params := if v' = JNull then None else Some v'\<rparr>))
     else Ok r)"

definition Request_decode :: "(string \<Rightarrow> bool) \<Rightarrow> json \<Rightarrow> jmembers \<Rightarrow> Request result" where
  "Request_decode float_ok v ms =
     (case v of
        JObj _ \<Rightarrow> json_struct (Request_member float_ok) ms zero_Request
      | JNull \<Rightarrow> Ok zero_Request
      | _ \<Rightarrow> Err ErrJSONType)"

text \<open>\<^verbatim>\<open>Decoder.Decode\<close>, with the decoding into the type of the value; \<open>None\<close> if it blocks.\<close>

definition Decode :: "(json \<Rightarrow> jmembers \<Rightarrow> 'a result) \<Rightarrow> decoder \<Rightarrow> ('a result \<times> decoder) option" where
  "Decode into d =
     (case dec_err d of
        Some e \<Rightarrow> Some (Err e, d)
      | None \<Rightarrow>
          (case dec_input d of
             [] \<Rightarrow> None
           | ReadError e # rest \<Rightarrow> Some (Err e, \<lparr>dec_input = rest, dec_err = Some e\<rparr>)
           | Text s # rest \<Rightarrow>
               (case json_parse s of
                  None \<Rightarrow> Some (Err ErrJSONSyntax, \<lparr>dec_input = rest, dec_err = Some ErrJSONSyntax\<rparr>)
                | Some (_, v, ms) \<Rightarrow> Some (into v ms, \<lparr>dec_input = rest, dec_err = None\<rparr>))))"

section \<open>Responses as the server writes them\<close>

text \<open>A \<^verbatim>\<open>json.RawMessage\<close> that is left out when empty.\<close>

definition raw_field :: "string \<Rightarrow> string option \<Rightarrow> string list result" where
  "raw_field k raw =
     (case raw of
        None \<Rightarrow> Ok []
      | Some s \<Rightarrow> if s = [] then Ok [] else and_then (compact s) (\<lambda>t. Ok [encode_string k @ '':'' @ t]))"

definition Response_Marshal :: "Response \<Rightarrow> string result" where
  "Response_Marshal r =
     and_then (raw_field ''result'' (rsp_Result r)) (\<lambda>res.
     and_then (raw_field ''params'' (rsp_Params r)) (\<lambda>par.
       Ok ([CHR 0x7B] @
         Join ([member_text (''id'', case rsp_ID r of None \<Rightarrow> JNull | Some i \<Rightarrow> JStr i)] @ res @
           [member_text (''error'', case rsp_Error r of None \<Rightarrow> JNull | Some (_, v) \<Rightarrow> v)] @
           (if rsp_Method r = [] then [] else [member_text (''method'', JStr (rsp_Method r))]) @ par) '','' @
         [CHR 0x7D])))"

text \<open>\<^verbatim>\<open>Encoder.Encode\<close>: only an error of \<^verbatim>\<open>Write\<close> is kept.\<close>

definition Encode ::
  "(string \<Rightarrow> 'w \<Rightarrow> error option \<times> 'w) \<Rightarrow> Response \<Rightarrow> error option \<times> 'w \<Rightarrow> error option \<times> error option \<times> 'w" where
  "Encode write r = (\<lambda>(enc_err, w).
     case enc_err of
       Some e \<Rightarrow> (Some e, enc_err, w)
     | None \<Rightarrow>
         (case Response_Marshal r of
            Ok t \<Rightarrow> (case write (t @ [CHR 0x0A]) w of (e, w') \<Rightarrow> (e, e, w'))
          | Err e \<Rightarrow> (Some e, None, w)
          | Panic \<Rightarrow> (None, None, w)))"

definition isNetworkCloseError :: "(error \<Rightarrow> string) \<Rightarrow> error \<Rightarrow> bool" where
  "isNetworkCloseError et e \<longleftrightarrow> e = ErrEOF \<or> Contains (et e) ''use of closed network'' \<or>
     Contains (et e) ''connection reset by peer''"

section \<open>Messages survive the wire\<close>

text \<open>A response built of JSON values.\<close>

definition response_of :: "string option \<Rightarrow> json option \<Rightarrow> json option \<Rightarrow> string \<Rightarrow> json option \<Rightarrow> Response" where
  "response_of i res err m par =
     \<lparr>rsp_ID = i, rsp_Result = map_option json_text res, rsp_Error = map_option (\<lambda>v. (json_text v, v)) err,
      rsp_Method = m, rsp_Params = map_option json_text par\<rparr>"

definition response_values :: "string option \<Rightarrow> json option \<Rightarrow> json option \<Rightarrow> string \<Rightarrow> json option \<Rightarrow> (string \<times> json) list" where
  "response_values i res err m par =
     [(''id'', case i of None \<Rightarrow> JNull | Some s \<Rightarrow> JStr s)] @ (case res of None \<Rightarrow> [] | Some v \<Rightarrow> [(''result'', v)]) @
     [(''error'', case err of None \<Rightarrow> JNull | Some v \<Rightarrow> v)] @ (if m = [] then [] else [(''method'', JStr m)]) @
     (case par of None \<Rightarrow> [] | Some v \<Rightarrow> [(''params'', v)])"

lemma json_text_not_Nil: "wf_json v \<Longrightarrow> json_text v \<noteq> []"
  by (cases v) (auto simp: encode_string_def lex_number_def starts_digit_def)

lemma raw_field_text:
  "\<forall>v. x = Some v \<longrightarrow> wf_json v \<Longrightarrow>
    raw_field k (map_option json_text x) = Ok (case x of None \<Rightarrow> [] | Some v \<Rightarrow> [member_text (k, v)])"
  by (cases x) (auto simp: raw_field_def compact_text json_text_not_Nil member_text_def)

lemma Response_Marshal_text:
  assumes "\<forall>v \<in> set_option res \<union> set_option par. wf_json v"
  shows "Response_Marshal (response_of i res err m par) = Ok (json_text (JObj (response_values i res err m par)))"
proof -
  have "raw_field k (map_option json_text res) = Ok (case res of None \<Rightarrow> [] | Some v \<Rightarrow> [member_text (k, v)])"
    "raw_field k (map_option json_text par) = Ok (case par of None \<Rightarrow> [] | Some v \<Rightarrow> [member_text (k, v)])" for k
    using assms by (auto intro!: raw_field_text)
  then show ?thesis
    by (cases res; cases par; cases err)
      (simp_all add: Response_Marshal_def response_of_def response_values_def member_text_def)
qed

lemma wire_utf8:
  "valid_utf8 ''result'' = ''result''"
  by code_simp+

lemma wire_keys:
  "fold_key ''id'' = ''id''" "fold_key ''result'' = ''result''" "fold_key ''error'' = ''error''"
  "fold_key ''method'' = ''method''" "fold_key ''params'' = ''params''"
  by code_simp+

lemma Response_decode_values:
  assumes "\<forall>v. err = Some v \<longrightarrow> v \<noteq> JNull \<and> list_all float_ok (json_numbers (normal_json v))"
  shows "Response_decode float_ok (normal_json (JObj (response_values i res err m par)))
      (last_members (JObj (response_values i res err m par))) =
    Ok ((response_of (map_option valid_utf8 i) res err (valid_utf8 m) par)\<lparr>rsp_Error := map_option (\<lambda>v. (json_text v, normal_json v)) err\<rparr>)"
proof -
  have "normal_json v \<noteq> JNull" if "err = Some v" for v using that assms by (cases v) simp_all
  moreover have "valid_utf8 [] = []" by (simp add: valid_utf8_def)
  ultimately show ?thesis
    using assms
    by (cases i; cases res; cases par; cases err)
      (simp_all add: Response_decode_def response_values_def response_of_def Response_member_def fixed_utf8 wire_utf8 wire_keys
      zero_Response_def json_interface_def del: fold_key.simps)
qed


lemma Decode_text:
  assumes "wf_json v" "ws = [] \<or> ws = [CHR 0x0A]"
  shows "Decode into \<lparr>dec_input = Text (json_text v @ ws) # rest, dec_err = None\<rparr> =
    Some (into (normal_json v) (last_members v), \<lparr>dec_input = rest, dec_err = None\<rparr>)"
  using json_parse_text [OF assms] by (simp add: Decode_def)

lemma Receive_Decode:
  "Receive float_ok d = map_option (\<lambda>(r, d'). (case r of Err e \<Rightarrow> Err (decode_error e) | _ \<Rightarrow> r, d')) (Decode (Response_decode float_ok) d)"
  by (auto simp: Receive_def Decode_def split: option.splits list.splits arrival.splits result.splits)

text \<open>What a message of the server becomes: strings are made valid UTF-8, raw texts stay as they are.\<close>

definition received_response :: "string option \<Rightarrow> json option \<Rightarrow> json option \<Rightarrow> string \<Rightarrow> json option \<Rightarrow> Response" where
  "received_response i res err m par =
     (response_of (map_option valid_utf8 i) res err (valid_utf8 m) par)
       \<lparr>rsp_Error := map_option (\<lambda>v. (json_text v, normal_json v)) err\<rparr>"

definition received_request :: "Request \<Rightarrow> Request" where
  "received_request r =
     \<lparr>req_ID = valid_utf8 (req_ID r), req_Method = valid_utf8 (req_Method r),
      req_Params = Some (case req_Params r of None \<Rightarrow> JArr [] | Some p \<Rightarrow> normal_json p)\<rparr>"

lemma response_arrives:
  assumes "\<forall>v \<in> set_option res \<union> set_option err \<union> set_option par. wf_json v"
    "\<forall>v \<in> set_option err. v \<noteq> JNull \<and> list_all float_ok (json_numbers (normal_json v))"
  shows "\<exists>t. Response_Marshal (response_of i res err m par) = Ok t \<and>
    (\<forall>rest. Receive float_ok \<lparr>dec_input = Text (t @ [CHR 0x0A]) # rest, dec_err = None\<rparr> =
      Some (Ok (received_response i res err m par), \<lparr>dec_input = rest, dec_err = None\<rparr>))"
proof (intro exI conjI allI)
  let ?v = "JObj (response_values i res err m par)"
  show "Response_Marshal (response_of i res err m par) = Ok (json_text ?v)"
    using assms(1) by (intro Response_Marshal_text) auto
  have "wf_json ?v" using assms(1) by (cases i; cases res; cases err; cases par) (auto simp: response_values_def)
  then show "Receive float_ok \<lparr>dec_input = Text (json_text ?v @ [CHR 0x0A]) # rest, dec_err = None\<rparr> =
      Some (Ok (received_response i res err m par), \<lparr>dec_input = rest, dec_err = None\<rparr>)" for rest
    using Response_decode_values [of err float_ok i res m par] assms(2)
    by (simp add: Receive_Decode Decode_text received_response_def del: json_text.simps normal_json.simps last_members.simps wf_json.simps)
qed

section \<open>The server\<close>

text \<open>
  The goroutine that serves (\<open>Left\<close> is its return, after which the wait group is done) and the one that pushes
  notifications. A panic of either ends the process.
\<close>

datatype server_loop = Accepting | Serving | Answering Response | Leaving | Left

datatype pusher = NotYet | Ranging | Pushing Response | Pushed

record 'w server =
  loop_at :: server_loop
  push_at :: pusher
  requests :: decoder
  notifC :: "Response list"
  notif_closed :: bool
  enc_err :: "error option"
  net :: 'w
  panicked :: bool
  asked :: "Request list"  \<comment> \<open>the requests given to the function, and the notifications written\<close>
  pushed :: "Response list"

definition new_server :: "arrival list \<Rightarrow> 'w \<Rightarrow> 'w server" where
  "new_server input w =
     \<lparr>loop_at = Accepting, push_at = NotYet, requests = \<lparr>dec_input = input, dec_err = None\<rparr>, notifC = [], notif_closed = False,
      enc_err = None, net = w, panicked = False, asked = [], pushed = []\<rparr>"

text \<open>What either goroutine does after \<^verbatim>\<open>Encode\<close>: go on, return, or panic.\<close>

definition after_encode :: "(error \<Rightarrow> string) \<Rightarrow> error option \<Rightarrow> 'w server \<Rightarrow> 'w server \<Rightarrow> 'w server \<Rightarrow> 'w server" where
  "after_encode et e go_on leave crash =
     (case e of None \<Rightarrow> go_on | Some e' \<Rightarrow> if isNetworkCloseError et e' then leave else crash)"

inductive server_step ::
  "(error \<Rightarrow> string) \<Rightarrow> (string \<Rightarrow> bool) \<Rightarrow> (Request \<Rightarrow> Response) \<Rightarrow> (string \<Rightarrow> 'w \<Rightarrow> error option \<times> 'w) \<Rightarrow>
    'w server \<Rightarrow> 'w server \<Rightarrow> bool"
  for et :: "error \<Rightarrow> string" and float_ok :: "string \<Rightarrow> bool" and fn :: "Request \<Rightarrow> Response"
    and wr :: "string \<Rightarrow> 'w \<Rightarrow> error option \<times> 'w" where
  accept: "\<not> panicked s \<Longrightarrow> loop_at s = Accepting \<Longrightarrow> server_step et float_ok fn wr s (s\<lparr>loop_at := Serving, push_at := Ranging\<rparr>)"
| accept_fails: "\<not> panicked s \<Longrightarrow> loop_at s = Accepting \<Longrightarrow>
    server_step et float_ok fn wr s (if isNetworkCloseError et e then s\<lparr>loop_at := Left\<rparr> else s\<lparr>panicked := True\<rparr>)"
| read: "\<not> panicked s \<Longrightarrow> loop_at s = Serving \<Longrightarrow> Decode (Request_decode float_ok) (requests s) = Some (Ok req, d) \<Longrightarrow>
    server_step et float_ok fn wr s (s\<lparr>loop_at := Answering (fn req), requests := d, asked := asked s @ [req]\<rparr>)"
| read_fails: "\<not> panicked s \<Longrightarrow> loop_at s = Serving \<Longrightarrow> Decode (Request_decode float_ok) (requests s) = Some (Err e, d) \<Longrightarrow>
    server_step et float_ok fn wr s
      (if isNetworkCloseError et e then s\<lparr>loop_at := Leaving, requests := d\<rparr> else s\<lparr>panicked := True\<rparr>)"
| answer: "\<not> panicked s \<Longrightarrow> loop_at s = Answering res \<Longrightarrow> Encode wr res (enc_err s, net s) = (e, ee, w) \<Longrightarrow>
    s' = s\<lparr>enc_err := ee, net := w\<rparr> \<Longrightarrow>
    server_step et float_ok fn wr s (after_encode et e (s'\<lparr>loop_at := Serving\<rparr>) (s'\<lparr>loop_at := Leaving\<rparr>) (s'\<lparr>panicked := True\<rparr>))"
| next_notification: "\<not> panicked s \<Longrightarrow> push_at s = Ranging \<Longrightarrow> notifC s = n # ns \<Longrightarrow>
    server_step et float_ok fn wr s (s\<lparr>push_at := Pushing n, notifC := ns\<rparr>)"
| push: "\<not> panicked s \<Longrightarrow> push_at s = Pushing n \<Longrightarrow> Encode wr n (enc_err s, net s) = (e, ee, w) \<Longrightarrow>
    s' = s\<lparr>enc_err := ee, net := w\<rparr> \<Longrightarrow>
    server_step et float_ok fn wr s
      (after_encode et e (s'\<lparr>push_at := Ranging, pushed := pushed s @ [n]\<rparr>) (s'\<lparr>push_at := Pushed\<rparr>) (s'\<lparr>panicked := True\<rparr>))"
| range_ends: "\<not> panicked s \<Longrightarrow> push_at s = Ranging \<Longrightarrow> notifC s = [] \<Longrightarrow> notif_closed s \<Longrightarrow>
    server_step et float_ok fn wr s (s\<lparr>push_at := Pushed\<rparr>)"
| leave: "\<not> panicked s \<Longrightarrow> loop_at s = Leaving \<Longrightarrow> push_at s = Pushed \<Longrightarrow>
    server_step et float_ok fn wr s (s\<lparr>loop_at := Left\<rparr>)"

text \<open>
  What the test does meanwhile: bytes arrive, a notification is put in the channel (which holds sixteen), and the
  closure that cleans up closes the connection and the channel.
\<close>

inductive test_step :: "'w server \<Rightarrow> 'w server \<Rightarrow> bool" where
  arrives: "test_step s (s\<lparr>requests := (requests s)\<lparr>dec_input := dec_input (requests s) @ [a]\<rparr>\<rparr>)"
| notifies: "\<not> notif_closed s \<Longrightarrow> length (notifC s) < 16 \<Longrightarrow> test_step s (s\<lparr>notifC := notifC s @ [n]\<rparr>)"
| cleans_up: "\<not> notif_closed s \<Longrightarrow> 
    test_step s (s\<lparr>notif_closed := True, requests := (requests s)\<lparr>dec_input := dec_input (requests s) @ [ReadError e]\<rparr>\<rparr>)"

inductive_cases server_stepE: "server_step et float_ok fn wr s s'"
inductive_cases test_stepE: "test_step s s'"


section \<open>Answers and notifications interleave\<close>

lemma shuffles_snoc_right: "ys @ [t] \<in> shuffles [t] ys"
  by (induction ys) (auto intro: Cons_in_shuffles_leftI Cons_in_shuffles_rightI)

lemma shuffles_snoc: "zs \<in> shuffles xs ys \<Longrightarrow> zs @ [t] \<in> shuffles (xs @ [t]) ys"
proof (induction xs ys arbitrary: zs rule: shuffles.induct)
  case (1 ys)
  then show ?case using shuffles_snoc_right by simp
next
  case (2 xs)
  then show ?case by simp
next
  case (3 x xs y ys)
  then show ?case by (auto intro: Cons_in_shuffles_leftI Cons_in_shuffles_rightI)
qed

lemma shuffles_snoc2: "zs \<in> shuffles xs ys \<Longrightarrow> zs @ [t] \<in> shuffles xs (ys @ [t])"
  using shuffles_snoc [of zs ys xs t] by (simp add: shuffles_commutes)

text \<open>A connection on which every write succeeds.\<close>

lemma shuffles_map: "zs \<in> shuffles (map f xs) (map f ys) \<Longrightarrow> \<exists>ws \<in> shuffles xs ys. zs = map f ws"
proof (induction xs ys arbitrary: zs rule: shuffles.induct)
  case (3 x xs y ys)
  then consider ws where "zs = f x # ws" "ws \<in> shuffles (map f xs) (map f (y # ys))"
    | ws where "zs = f y # ws" "ws \<in> shuffles (map f (x # xs)) (map f ys)" by auto
  then show ?case
  proof cases
    case 1
    then obtain vs where "vs \<in> shuffles xs (y # ys)" "ws = map f vs" using 3(1) by blast
    then show ?thesis using 1(1) by (intro bexI [of _ "x # vs"]) (auto intro: Cons_in_shuffles_leftI)
  next
    case 2
    then obtain vs where "vs \<in> shuffles (x # xs) ys" "ws = map f vs" using 3(2) by blast
    then show ?thesis using 2(1) by (intro bexI [of _ "y # vs"]) (auto intro: Cons_in_shuffles_rightI)
  qed
qed simp_all

definition good_write :: "string \<Rightarrow> string list \<Rightarrow> error option \<times> string list" where
  "good_write t w = (None, w @ [t])"

definition printed_line :: "Response \<Rightarrow> string" where
  "printed_line r = (case Response_Marshal r of Ok t \<Rightarrow> t @ [CHR 0x0A] | _ \<Rightarrow> [])"

lemma compact_no_panic: "compact s \<noteq> Panic"
  by (simp add: compact_def split: option.split)

lemma Response_Marshal_no_panic: "Response_Marshal r \<noteq> Panic"
  by (auto simp: Response_Marshal_def raw_field_def and_then_eq_Panic compact_no_panic split: option.splits if_splits)

lemma Encode_good:
  assumes "Encode good_write r (None, w) = (e, ee, w')"
  shows "ee = None" "e = None \<Longrightarrow> w' = w @ [printed_line r]" "e \<noteq> None \<Longrightarrow> w' = w"
  using assms Response_Marshal_no_panic [of r]
  by (auto simp: Encode_def good_write_def printed_line_def split: result.splits)

text \<open>The requests whose answers are written, for the place of the loop and the requests given to the function.\<close>

fun answered :: "server_loop \<Rightarrow> Request list \<Rightarrow> Request list \<Rightarrow> bool" where
  "answered (Answering res) as qs = (\<exists>q. as = qs @ [q])"
| "answered Leaving as qs = (\<exists>rest. as = qs @ rest)"
| "answered Left as qs = (\<exists>rest. as = qs @ rest)"
| "answered _ as qs = (as = qs)"

definition served_inv :: "(Request \<Rightarrow> Response) \<Rightarrow> string list server \<Rightarrow> bool" where
  "served_inv fn s \<longleftrightarrow> panicked s \<or> enc_err s = None \<and>
     (\<forall>res. loop_at s = Answering res \<longrightarrow> asked s \<noteq> [] \<and> res = fn (last (asked s))) \<and>
     (\<exists>qs. answered (loop_at s) (asked s) qs \<and> net s \<in> shuffles (map (\<lambda>q. printed_line (fn q)) qs) (map printed_line (pushed s)))"

lemma server_step_served:
  assumes "server_step et float_ok fn good_write s s'" "served_inv fn s"
  shows "served_inv fn s'"
  using assms(1)
proof (cases rule: server_step.cases)
  case (answer res e ee w t)
  then obtain qs q where q: "asked s = qs @ [q]" "res = fn q" "enc_err s = None"
    and n: "net s \<in> shuffles (map (\<lambda>q. printed_line (fn q)) qs) (map printed_line (pushed s))"
    using assms(2) by (auto simp: served_inv_def)
  note enc = Encode_good [OF answer(4) [unfolded q(3)]]
  show ?thesis
  proof (cases e)
    case None
    then have "net t \<in> shuffles (map (\<lambda>q. printed_line (fn q)) (qs @ [q])) (map printed_line (pushed s))"
      using enc(2) q(2) shuffles_snoc [OF n] answer(5) by simp
    then show ?thesis using answer q enc(1) None by (auto simp: served_inv_def after_encode_def)
  next
    case (Some e')
    then show ?thesis using answer q enc(1,3) n by (auto simp: served_inv_def after_encode_def)
  qed
next
  case (push n e ee w t)
  then obtain qs where q: "answered (loop_at s) (asked s) qs" "enc_err s = None"
    and n: "net s \<in> shuffles (map (\<lambda>q. printed_line (fn q)) qs) (map printed_line (pushed s))"
    using assms(2) by (auto simp: served_inv_def)
  note enc = Encode_good [OF push(4) [unfolded q(2)]]
  show ?thesis
  proof (cases e)
    case None
    then have "net t \<in> shuffles (map (\<lambda>q. printed_line (fn q)) qs) (map printed_line (pushed s @ [n]))"
      using enc(2) shuffles_snoc2 [OF n] push(5) by simp
    then show ?thesis using push q enc(1) None assms(2) by (auto simp: served_inv_def after_encode_def)
  next
    case (Some e')
    then show ?thesis using push q enc(1,3) n assms(2) by (auto simp: served_inv_def after_encode_def)
  qed
qed (use assms(2) in \<open>auto simp: served_inv_def split: if_splits\<close>)

lemma test_step_served: "test_step s s' \<Longrightarrow> served_inv fn s \<Longrightarrow> served_inv fn s'"
  by (erule test_stepE) (auto simp: served_inv_def)


definition test_run ::
  "(error \<Rightarrow> string) \<Rightarrow> (string \<Rightarrow> bool) \<Rightarrow> (Request \<Rightarrow> Response) \<Rightarrow> (string \<Rightarrow> 'w \<Rightarrow> error option \<times> 'w) \<Rightarrow>
    'w server \<Rightarrow> 'w server \<Rightarrow> bool" where
  "test_run et float_ok fn wr = (\<lambda>s s'. server_step et float_ok fn wr s s' \<or> test_step s s')\<^sup>*\<^sup>*"

lemma test_run_induct [consumes 1, case_names start server test]:
  assumes "test_run et float_ok fn wr s s'" "P s"
    "\<And>t u. P t \<Longrightarrow> server_step et float_ok fn wr t u \<Longrightarrow> P u" "\<And>t u. P t \<Longrightarrow> test_step t u \<Longrightarrow> P u"
  shows "P s'"
  using assms(1) unfolding test_run_def
proof (induction rule: rtranclp_induct)
  case (step t u)
  then show ?case using assms(3,4) by blast
qed (rule assms(2))

lemma server_steps_run: "(server_step et float_ok fn wr)\<^sup>*\<^sup>* s s' \<Longrightarrow> test_run et float_ok fn wr s s'"
  unfolding test_run_def by (induction rule: rtranclp_induct) (auto intro: rtranclp.rtrancl_into_rtrancl)

lemma served_shuffle:
  assumes "test_run et float_ok fn good_write (new_server input []) s" "\<not> panicked s" "loop_at s = Serving"
  shows "net s \<in> shuffles (map (\<lambda>q. printed_line (fn q)) (asked s)) (map printed_line (pushed s))"
proof -
  have "served_inv fn s" using assms(1)
  proof (induction rule: test_run_induct)
    case start
    then show ?case by (simp add: served_inv_def new_server_def)
  qed (blast intro: server_step_served test_step_served)+
  then show ?thesis using assms(2,3) by (auto simp: served_inv_def)
qed

text \<open>
  The test server answers every request once and in order. Whatever arrives and whatever notifications the test
  pushes meanwhile, on a connection that works, each time the server waits for a request it has written the answers of the
  test's function to all requests so far, in their order, interleaved with the notifications in theirs, and nothing else.
\<close>

theorem server_interleaves:
  assumes "test_run et float_ok fn good_write (new_server input []) s" "\<not> panicked s" "loop_at s = Serving"
  shows "net s \<in> shuffles (map (\<lambda>q. printed_line (fn q)) (asked s)) (map printed_line (pushed s))"
  using assms by (rule served_shuffle)

text \<open>A function that answers every request with an empty array, and a request for it.\<close>

definition empty_answer :: "Request \<Rightarrow> Response" where
  "empty_answer q = response_of (Some (req_ID q)) (Some (JArr [])) None [] None"

definition sample_request :: Request where
  "sample_request = \<lparr>req_ID = ''1'', req_Method = ''echo'', req_Params = None\<rparr>"

definition sample_text :: string where
  "sample_text = json_text (JObj [(''id'', JStr ''1''), (''method'', JStr ''echo'')])"

definition sample_served :: "string list server" where
  "sample_served = (new_server [] [printed_line (empty_answer sample_request)])
     \<lparr>loop_at := Serving, push_at := Ranging, asked := [sample_request]\<rparr>"

lemma sample_run: "test_run (\<lambda>_. []) (\<lambda>_. True) empty_answer good_write (new_server [Text sample_text] []) sample_served"
proof -
  let ?step = "server_step (\<lambda>_. []) (\<lambda>_. True) empty_answer good_write"
  let ?s = "(new_server [Text sample_text] [])\<lparr>loop_at := Serving, push_at := Ranging\<rparr>"
  let ?t = "(new_server [] [])\<lparr>loop_at := Answering (empty_answer sample_request), push_at := Ranging, asked := [sample_request]\<rparr>"
  have "?step (new_server [Text sample_text] []) ?s" using accept [of "new_server [Text sample_text] []"] by (simp add: new_server_def)
  moreover have "Decode (Request_decode (\<lambda>_. True)) \<lparr>dec_input = [Text sample_text], dec_err = None\<rparr> =
      Some (Ok sample_request, \<lparr>dec_input = [], dec_err = None\<rparr>)" by code_simp
  then have "?step ?s ?t" using read [of ?s "\<lambda>_. True"] by (fastforce simp: new_server_def)
  moreover have "is_ok (Response_Marshal (empty_answer sample_request))" by code_simp
  then have "Encode good_write (empty_answer sample_request) (None, []) = (None, None, [printed_line (empty_answer sample_request)])"
    by (auto simp: Encode_def good_write_def printed_line_def is_ok_iff)
  then have "?step ?t sample_served"
    using answer [of ?t "empty_answer sample_request" good_write None None _ "?t\<lparr>net := [printed_line (empty_answer sample_request)]\<rparr>"]
    by (simp add: new_server_def after_encode_def sample_served_def)
  ultimately have "?step\<^sup>*\<^sup>* (new_server [Text sample_text] []) sample_served"
    by (meson converse_rtranclp_into_rtranclp rtranclp.rtrancl_refl)
  then show ?thesis by (rule server_steps_run)
qed

theorem server_interleaves_witness:
  "asked sample_served = [sample_request] \<and> net sample_served \<in>
     shuffles (map (\<lambda>q. printed_line (empty_answer q)) (asked sample_served)) (map printed_line (pushed sample_served))"
  using server_interleaves [OF sample_run] by (simp add: sample_served_def new_server_def)

section \<open>The server stops\<close>

fun loop_rank :: "server_loop \<Rightarrow> nat" where
  "loop_rank Accepting = 5"
| "loop_rank Serving = 3"
| "loop_rank (Answering _) = 4"
| "loop_rank Leaving = 1"
| "loop_rank Left = 0"

fun push_rank :: "pusher \<Rightarrow> nat" where
  "push_rank Ranging = 1"
| "push_rank (Pushing _) = 2"
| "push_rank _ = 0"

definition server_weight :: "'w server \<Rightarrow> nat" where
  "server_weight s = (if panicked s then 0 else 1) + loop_rank (loop_at s) + push_rank (push_at s) +
     2 * length (dec_input (requests s)) + 2 * length (notifC s)"

lemma Decode_shrinks:
  "Decode into d = Some (r, d') \<Longrightarrow> length (dec_input d') \<le> length (dec_input d)"
  "Decode into d = Some (Ok x, d') \<Longrightarrow> length (dec_input d') < length (dec_input d)"
  by (auto simp: Decode_def split: option.splits list.splits arrival.splits)

lemma server_step_weight:
  assumes "server_step et float_ok fn wr s s'"
  shows "server_weight s' < server_weight s"
  using assms
proof (cases rule: server_step.cases)
  case (read req d)
  then show ?thesis using Decode_shrinks(2) [OF read(4)] by (simp add: server_weight_def)
next
  case (read_fails e d)
  then show ?thesis using Decode_shrinks(1) [OF read_fails(4)] by (simp add: server_weight_def)
qed (auto simp: server_weight_def after_encode_def split: option.splits if_splits)

text \<open>The test has cleaned up: the channel is closed, and the connection delivers an error once its data are read.\<close>

definition ended_input :: "decoder \<Rightarrow> bool" where
  "ended_input d \<longleftrightarrow> dec_err d \<noteq> None \<or> (\<exists>e. ReadError e \<in> set (dec_input d))"

definition closed_down :: "'w server \<Rightarrow> bool" where
  "closed_down s \<longleftrightarrow> notif_closed s \<and> ended_input (requests s)"

lemma Decode_ended:
  "ended_input d \<Longrightarrow> Decode into d = Some (r, d') \<Longrightarrow> ended_input d'"
  "ended_input d \<Longrightarrow> \<exists>r d'. Decode into d = Some (r, d')"
  by (auto simp: Decode_def ended_input_def split: option.splits list.splits arrival.splits)

lemma Request_decode_no_panic: "Request_decode float_ok v ms \<noteq> Panic"
proof -
  have "json_string_field s v \<noteq> Panic" for s v by (cases v) simp_all
  then have "Request_member float_ok m r \<noteq> Panic" for m r
    by (cases m) (auto simp: Request_member_def and_then_eq_Panic json_interface_def)
  then have "json_struct (Request_member float_ok) ms r \<noteq> Panic" for r
    by (induction ms arbitrary: r) (auto simp: and_then_eq_Panic)
  then show ?thesis by (simp add: Request_decode_def split: json.split)
qed

lemma Decode_request_no_panic: "Decode (Request_decode float_ok) d \<noteq> Some (Panic, d')"
  using Request_decode_no_panic [of float_ok] by (auto simp: Decode_def split: option.splits list.splits arrival.splits)

lemma closed_down_step: "server_step et float_ok fn wr s s' \<Longrightarrow> closed_down s \<Longrightarrow> closed_down s'"
  by (erule server_stepE) (auto simp: closed_down_def after_encode_def dest: Decode_ended(1) split: option.splits)

definition pusher_started :: "'w server \<Rightarrow> bool" where
  "pusher_started s \<longleftrightarrow> push_at s = NotYet \<longrightarrow> loop_at s = Accepting \<or> loop_at s = Left"

lemma pusher_started_step: "server_step et float_ok fn wr s s' \<Longrightarrow> pusher_started s \<Longrightarrow> pusher_started s'"
  by (erule server_stepE) (auto simp: pusher_started_def after_encode_def split: option.splits)

lemma server_progress:
  assumes "closed_down s" "pusher_started s" "\<not> panicked s" "loop_at s \<noteq> Left"
  shows "\<exists>s'. server_step et float_ok fn wr s s'"
proof (cases "loop_at s")
  case Accepting
  then show ?thesis using accept assms(3) by blast
next
  case Serving
  obtain r d where d: "Decode (Request_decode float_ok) (requests s) = Some (r, d)"
    using assms(1) Decode_ended(2) unfolding closed_down_def by blast
  then show ?thesis
    using assms(3) Serving Decode_request_no_panic [of float_ok "requests s" d] by (cases r) (blast intro: read read_fails)+
next
  case (Answering res)
  obtain e ee w where "Encode wr res (enc_err s, net s) = (e, ee, w)" by (metis prod.exhaust)
  from answer [OF assms(3) Answering this refl] show ?thesis by blast
next
  case Leaving
  show ?thesis
  proof (cases "push_at s")
    case Ranging
    then show ?thesis using assms(1,3) by (cases "notifC s") (auto simp: closed_down_def intro: next_notification range_ends)
  next
    case (Pushing n)
    obtain e ee w where "Encode wr n (enc_err s, net s) = (e, ee, w)" by (metis prod.exhaust)
    from push [OF assms(3) Pushing this refl] show ?thesis by blast
  next
    case Pushed
    then show ?thesis using leave Leaving assms(3) by blast
  qed (use assms(2) Leaving in \<open>simp add: pusher_started_def\<close>)
qed (use assms(4) in simp)

text \<open>
  C30: after the clean-up the test server stops. Once the test has closed the connection and the channel, every run of the
  server is finite, whatever is still unread or unsent and whatever its writes return; where it cannot go on, its goroutine
  has returned, so that the clean-up's wait ends, or it has panicked.
\<close>

theorem server_stops:
  assumes "test_run et float_ok fn wr (new_server input w) s" "closed_down s" "(server_step et float_ok fn wr ^^ n) s s'"
  shows "n \<le> server_weight s \<and> (panicked s' \<or> loop_at s' = Left \<or> (\<exists>s''. server_step et float_ok fn wr s' s''))"
proof -
  have "pusher_started s" using assms(1)
  proof (induction rule: test_run_induct)
    case (test t u)
    from test(2,1) show ?case by (cases rule: test_step.cases) (auto simp: pusher_started_def)
  qed (auto simp: pusher_started_def new_server_def dest: pusher_started_step)
  then have "closed_down s' \<and> pusher_started s' \<and> n + server_weight s' \<le> server_weight s"
    using assms(3)
  proof (induction n arbitrary: s')
    case 0
    then show ?case using assms(2) by simp
  next
    case (Suc n)
    then obtain t where t: "(server_step et float_ok fn wr ^^ n) s t" "server_step et float_ok fn wr t s'" by auto
    with Suc.IH [OF Suc.prems(1) t(1)] show ?case
      using closed_down_step [OF t(2)] pusher_started_step [OF t(2)] server_step_weight [OF t(2)] by simp
  qed
  then show ?thesis using server_progress [of s'] by auto
qed


theorem server_stops_witness:
  "\<exists>s. closed_down s \<and> loop_at s = Left \<and> (server_step (\<lambda>_. []) (\<lambda>_. True) empty_answer good_write ^^ 3)
     (sample_served\<lparr>notif_closed := True, requests := \<lparr>dec_input = [ReadError ErrEOF], dec_err = None\<rparr>\<rparr>) s \<and>
   3 \<le> server_weight (sample_served\<lparr>notif_closed := True, requests := \<lparr>dec_input = [ReadError ErrEOF], dec_err = None\<rparr>\<rparr>)"
proof -
  let ?step = "server_step (\<lambda>_. []) (\<lambda>_. True) empty_answer good_write"
  let ?s = "sample_served\<lparr>notif_closed := True, requests := \<lparr>dec_input = [ReadError ErrEOF], dec_err = None\<rparr>\<rparr>"
  let ?t = "?s\<lparr>loop_at := Leaving, requests := \<lparr>dec_input = [], dec_err = Some ErrEOF\<rparr>\<rparr>"
  have run: "test_run (\<lambda>_. []) (\<lambda>_. True) empty_answer good_write (new_server [Text sample_text] []) ?s"
    using sample_run cleans_up [of sample_served ErrEOF] unfolding test_run_def
    by (auto simp: sample_served_def new_server_def elim: rtranclp.rtrancl_into_rtrancl)
  have "?step ?s ?t"
    using read_fails [of ?s "\<lambda>_. True" ErrEOF "\<lparr>dec_input = [], dec_err = Some ErrEOF\<rparr>" "\<lambda>_. []"]
    by (simp add: Decode_def isNetworkCloseError_def sample_served_def new_server_def)
  moreover have "?step ?t (?t\<lparr>push_at := Pushed\<rparr>)" using range_ends [of ?t] by (simp add: sample_served_def new_server_def)
  moreover have "?step (?t\<lparr>push_at := Pushed\<rparr>) (?t\<lparr>push_at := Pushed, loop_at := Left\<rparr>)"
    using leave [of "?t\<lparr>push_at := Pushed\<rparr>"] by (simp add: sample_served_def new_server_def)
  ultimately have steps: "(?step ^^ 3) ?s (?t\<lparr>push_at := Pushed, loop_at := Left\<rparr>)" by (auto simp: numeral_eq_Suc OO_def)
  have "closed_down ?s" "closed_down (?t\<lparr>push_at := Pushed, loop_at := Left\<rparr>)"
    by (simp_all add: closed_down_def ended_input_def)
  then show ?thesis using server_stops [OF run _ steps] steps
    by (intro exI [of _ "?t\<lparr>push_at := Pushed, loop_at := Left\<rparr>"] conjI) simp_all
qed

end
