(* ===== verification/Ovsdb_Session.thy ===== *)
theory Ovsdb_Session imports Test_Conn begin

text \<open>
  The client of \<^verbatim>\<open>ovsdb\<close> and the server of \<^verbatim>\<open>testconn.go\<close> on the two ends of one connection: what \<^verbatim>\<open>Send\<close> writes the
  server decodes, and what the server writes the listener hands to the callbacks. The last section runs the calls of
  \<^verbatim>\<open>rpc.go\<close> through both.
\<close>

section \<open>Requests\<close>

definition request_line :: "Request \<Rightarrow> string" where
  "request_line r = json_text (Request_json (r\<lparr>req_Params := Some (case req_Params r of None \<Rightarrow> JArr [] | Some p \<Rightarrow> p)\<rparr>)) @ [CHR 0x0A]"

text \<open>A request that can be sent and that the server's decoder accepts.\<close>

definition sendable :: "(string \<Rightarrow> bool) \<Rightarrow> Request \<Rightarrow> bool" where
  "sendable float_ok r \<longleftrightarrow> req_ID r \<noteq> [] \<and>
     (case req_Params r of None \<Rightarrow> True
      | Some p \<Rightarrow> wf_json p \<and> p \<noteq> JNull \<and> list_all float_ok (json_numbers (normal_json p)))"

lemma Send_line: "req_ID r \<noteq> [] \<Longrightarrow> Send good_write r (None, w) = (Ok (), None, w @ [request_line r])"
  by (cases "req_Params r") (simp_all add: Send_def good_write_def request_line_def Request_json_def Let_def)

lemma Decode_request:
  assumes "sendable float_ok r"
  shows "Decode (Request_decode float_ok) \<lparr>dec_input = Text (request_line r) # rest, dec_err = None\<rparr> =
    Some (Ok (received_request r), \<lparr>dec_input = rest, dec_err = None\<rparr>)"
proof -
  let ?p = "case req_Params r of None \<Rightarrow> JArr [] | Some p \<Rightarrow> p"
  let ?v = "Request_json (r\<lparr>req_Params := Some ?p\<rparr>)"
  have p: "wf_json ?p" "normal_json ?p \<noteq> JNull" "list_all float_ok (json_numbers (normal_json ?p))"
    using assms by (auto simp: sendable_def split: option.splits) (metis normal_json.simps json.distinct json.exhaust)
  have "wf_json ?v" using p(1) by (intro wf_Request) simp
  moreover have "Request_decode float_ok (normal_json ?v) (last_members ?v) = Ok (received_request r)"
    using p(2,3) by (cases "req_Params r") (simp_all add: Request_decode_def Request_json_def Request_member_def fixed_utf8
        wire_keys zero_Request_def json_interface_def received_request_def del: fold_key.simps)
  ultimately show ?thesis unfolding request_line_def by (simp add: Decode_text)
qed

section \<open>All requests are answered\<close>

definition asked_inv :: "Request list \<Rightarrow> 'w server \<Rightarrow> bool" where
  "asked_inv rs s \<longleftrightarrow> notifC s = [] \<and> pushed s = [] \<and> (\<forall>n. push_at s \<noteq> Pushing n) \<and>
     (\<exists>k. asked s = map received_request (take k rs) \<and>
        requests s = \<lparr>dec_input = map (\<lambda>r. Text (request_line r)) (drop k rs), dec_err = None\<rparr>)"

lemma asked_inv_step:
  assumes "server_step et float_ok fn wr s s'" "list_all (sendable float_ok) rs" "asked_inv rs s"
  shows "asked_inv rs s'"
proof -
  obtain k where k: "asked s = map received_request (take k rs)"
    "requests s = \<lparr>dec_input = map (\<lambda>r. Text (request_line r)) (drop k rs), dec_err = None\<rparr>"
    using assms(3) by (auto simp: asked_inv_def)
  have dec: "k < length rs \<and> x = Ok (received_request (rs ! k)) \<and>
      d = \<lparr>dec_input = map (\<lambda>r. Text (request_line r)) (drop (Suc k) rs), dec_err = None\<rparr>"
    if "Decode (Request_decode float_ok) (requests s) = Some (x, d)" for x d
  proof (cases "k < length rs")
    case True
    then have "sendable float_ok (rs ! k)" using assms(2) by (simp add: list_all_length)
    from Decode_request [OF this] show ?thesis using that k(2) True by (simp add: Cons_nth_drop_Suc [symmetric])
  qed (use that k(2) in \<open>simp add: Decode_def\<close>)
  from assms(1) show ?thesis
  proof (cases rule: server_step.cases)
    case (read req d)
    then show ?thesis
      using assms(3) dec [OF read(4)] k(1) by (auto simp: asked_inv_def take_Suc_conv_app_nth intro!: exI [of _ "Suc k"])
  next
    case (read_fails e d)
    then show ?thesis using dec [OF read_fails(4)] by simp
  next
    case (answer res e ee w t)
    then show ?thesis using assms(3) by (auto simp: asked_inv_def after_encode_def split: option.splits)
  qed (use assms(3) in \<open>auto simp: asked_inv_def\<close>)
qed

text \<open>What a client writes when it sends requests one after the other.\<close>

definition sends :: "Request list \<Rightarrow> string list" where
  "sends rs = snd (fold (\<lambda>r st. snd (Send good_write r st)) rs (None, []))"

lemma sends_lines:
  assumes "list_all (sendable float_ok) rs"
  shows "sends rs = map request_line rs"
proof -
  have "fold (\<lambda>r st. snd (Send good_write r st)) rs (None, w) = (None, w @ map request_line rs)" for w
    using assms by (induction rs arbitrary: w) (simp_all add: Send_line sendable_def)
  then show ?thesis by (simp add: sends_def)
qed

text \<open>The server after a run on these requests: it waits for more.\<close>

definition session :: "(error \<Rightarrow> string) \<Rightarrow> (string \<Rightarrow> bool) \<Rightarrow> (Request \<Rightarrow> Response) \<Rightarrow> Request list \<Rightarrow> string list server \<Rightarrow> bool" where
  "session et float_ok fn rs s \<longleftrightarrow>
     (server_step et float_ok fn good_write)\<^sup>*\<^sup>* (new_server (map Text (sends rs)) []) s \<and>
     \<not> panicked s \<and> loop_at s = Serving \<and> dec_input (requests s) = []"

lemma session_asked:
  assumes "session et float_ok fn rs s" "list_all (sendable float_ok) rs"
  shows "asked s = map received_request rs" "net s = map (\<lambda>r. printed_line (fn (received_request r))) rs"
proof -
  have run: "(server_step et float_ok fn good_write)\<^sup>*\<^sup>* (new_server (map (\<lambda>r. Text (request_line r)) rs) []) s"
    using assms by (simp add: session_def sends_lines comp_def)
  have inv: "asked_inv rs s" using run
  proof (induction rule: rtranclp_induct)
    case base
    then show ?case by (auto simp: asked_inv_def new_server_def intro!: exI [of _ 0])
  next
    case (step t u)
    then show ?case using asked_inv_step assms(2) by blast
  qed
  then show asked: "asked s = map received_request rs" using assms(1) by (auto simp: asked_inv_def session_def)
  show "net s = map (\<lambda>r. printed_line (fn (received_request r))) rs"
    using served_shuffle [OF server_steps_run [OF run]] assms(1) inv by (simp add: asked_inv_def asked comp_def session_def)
qed

text \<open>Such a run exists if the answers can be printed.\<close>

definition serving :: "Request list \<Rightarrow> string list \<Rightarrow> Request list \<Rightarrow> string list server" where
  "serving rs out qs =
     (new_server (map (\<lambda>r. Text (request_line r)) rs) out)\<lparr>loop_at := Serving, push_at := Ranging, asked := qs\<rparr>"

lemma serving_round:
  assumes "sendable float_ok r" "is_ok (Response_Marshal (fn (received_request r)))"
  shows "(server_step et float_ok fn good_write)\<^sup>*\<^sup>* (serving (r # rs) out qs)
    (serving rs (out @ [printed_line (fn (received_request r))]) (qs @ [received_request r]))"
proof -
  let ?step = "server_step et float_ok fn good_write" and ?res = "fn (received_request r)"
  let ?t = "(serving rs out (qs @ [received_request r]))\<lparr>loop_at := Answering ?res\<rparr>"
  have "?step (serving (r # rs) out qs) ?t"
    using read [of "serving (r # rs) out qs" float_ok] Decode_request [OF assms(1)]
    by (fastforce simp: serving_def new_server_def)
  moreover have "Encode good_write ?res (None, out) = (None, None, out @ [printed_line ?res])"
    using assms(2) by (auto simp: Encode_def good_write_def printed_line_def is_ok_iff)
  then have "?step ?t (serving rs (out @ [printed_line ?res]) (qs @ [received_request r]))"
    using answer [of ?t ?res good_write None None _ "?t\<lparr>net := out @ [printed_line ?res]\<rparr>" et float_ok fn]
    by (simp add: serving_def new_server_def after_encode_def)
  ultimately show ?thesis by (meson converse_rtranclp_into_rtranclp rtranclp.rtrancl_refl)
qed

lemma session_exists:
  assumes "list_all (sendable float_ok) rs" "\<And>q. is_ok (Response_Marshal (fn q))"
  shows "\<exists>s. session et float_ok fn rs s"
proof -
  let ?step = "server_step et float_ok fn good_write"
  have "\<exists>out' qs'. ?step\<^sup>*\<^sup>* (serving rs out qs) (serving [] out' qs')" for out qs
    using assms(1)
  proof (induction rs arbitrary: out qs)
    case (Cons r rs)
    then show ?case using serving_round [of float_ok r fn] assms(2) by (fastforce intro: rtranclp_trans)
  qed auto
  then obtain out qs where "?step\<^sup>*\<^sup>* (serving rs [] []) (serving [] out qs)" by blast
  moreover have "?step (new_server (map Text (sends rs)) []) (serving rs [] [])"
    using accept [of "new_server (map Text (sends rs)) []"]
    by (simp add: serving_def sends_lines [OF assms(1)] comp_def new_server_def)
  ultimately have "session et float_ok fn rs (serving [] out qs)"
    by (auto simp: session_def serving_def new_server_def intro: converse_rtranclp_into_rtranclp)
  then show ?thesis by blast
qed

section \<open>The listener gets the answers\<close>

text \<open>A function of a test that answers each request under its identifier, and never with an error.\<close>

definition answers :: "(Request \<Rightarrow> json) \<Rightarrow> Request \<Rightarrow> Response" where
  "answers ans q = response_of (Some (req_ID q)) (Some (ans q)) None [] None"

lemma printed_response:
  assumes "wf_json v"
  shows "Receive float_ok \<lparr>dec_input = Text (printed_line (response_of (Some i) (Some v) None [] None)) # rest, dec_err = None\<rparr> =
    Some (Ok (received_response (Some i) (Some v) None [] None), \<lparr>dec_input = rest, dec_err = None\<rparr>)"
  using response_arrives [of "Some v" None None float_ok "Some i" "[]"] assms by (auto simp: printed_line_def)

lemma listen_action_of:
  "listen_action et (Ok (received_response (Some i) (Some v) None [] None)) =
     Callback (valid_utf8 i) \<lparr>rr_Result = Some (json_text v), rr_Error = None\<rparr>"
proof -
  have "valid_utf8 [] = []" by (simp add: valid_utf8_def)
  then show ?thesis by (simp add: listen_action_def received_response_def response_of_def Response_Err_def)
qed

lemma listen_answer:
  "wf_json v \<Longrightarrow> listen_rounds et float_ok (Suc n)
      \<lparr>dec_input = Text (printed_line (response_of (Some i) (Some v) None [] None)) # rest, dec_err = None\<rparr> =
    Callback (valid_utf8 i) \<lparr>rr_Result = Some (json_text v), rr_Error = None\<rparr>
      # listen_rounds et float_ok n \<lparr>dec_input = rest, dec_err = None\<rparr>"
  by (simp add: printed_response listen_action_of)

lemma listen_answers:
  assumes "\<And>q. wf_json (ans q)"
  shows "listen_rounds et float_ok (length qs)
      \<lparr>dec_input = map (\<lambda>q. Text (printed_line (answers ans q))) qs, dec_err = None\<rparr> =
    map (\<lambda>q. Callback (valid_utf8 (req_ID q)) \<lparr>rr_Result = Some (json_text (ans q)), rr_Error = None\<rparr>) qs"
  by (induction qs) (simp_all add: answers_def listen_answer [OF assms] del: listen_rounds.simps(2))

text \<open>
  C12: every request gets the answer to it. For any requests with valid identifiers that the client sends, one after the
  other, over a connection to a test server whose function answers under the identifier it is asked under: once the server
  waits for more, its function was called on exactly these requests, in order, and the client's listener hands
  to the callback of each request the function's answer to this very request, unchanged.
\<close>

theorem session_answers:
  assumes "list_all (sendable float_ok) rs" "list_all (\<lambda>r. valid_utf8 (req_ID r) = req_ID r) rs" "\<And>q. wf_json (ans q)"
  shows "(\<exists>s. session et float_ok (answers ans) rs s) \<and>
    (\<forall>s. session et float_ok (answers ans) rs s \<longrightarrow> asked s = map received_request rs \<and>
      listen_rounds et' float_ok (length rs) \<lparr>dec_input = map Text (net s), dec_err = None\<rparr> =
        map (\<lambda>r. Callback (req_ID r) \<lparr>rr_Result = Some (json_text (ans (received_request r))), rr_Error = None\<rparr>) rs)"
proof (intro conjI allI impI)
  have "is_ok (Response_Marshal (answers ans q))" for q
    using response_arrives [of "Some (ans q)" None None float_ok "Some (req_ID q)" "[]"] assms(3)
    by (auto simp: answers_def is_ok_iff)
  then show "\<exists>s. session et float_ok (answers ans) rs s" by (rule session_exists [OF assms(1)])
  fix s assume s: "session et float_ok (answers ans) rs s"
  show "asked s = map received_request rs" by (rule session_asked [OF s assms(1)])
  have "map Text (net s) = map (\<lambda>q. Text (printed_line (answers ans q))) (map received_request rs)"
    by (simp add: session_asked(2) [OF s assms(1)])
  then show "listen_rounds et' float_ok (length rs) \<lparr>dec_input = map Text (net s), dec_err = None\<rparr> =
      map (\<lambda>r. Callback (req_ID r) \<lparr>rr_Result = Some (json_text (ans (received_request r))), rr_Error = None\<rparr>) rs"
    using listen_answers [OF assms(3), of et' float_ok "map received_request rs"] assms(2)
    by (simp add: received_request_def list_all_iff)
qed


theorem session_answers_witness:
  "\<exists>s. session (\<lambda>_. []) (\<lambda>_. True) (answers (\<lambda>q. JArr [JStr (req_Method q)])) [sample_request, sample_request\<lparr>req_ID := ''2''\<rparr>] s \<and>
     listen_rounds (\<lambda>_. []) (\<lambda>_. True) 2 \<lparr>dec_input = map Text (net s), dec_err = None\<rparr> =
       [Callback ''1'' \<lparr>rr_Result = Some (json_text (JArr [JStr ''echo''])), rr_Error = None\<rparr>,
        Callback ''2'' \<lparr>rr_Result = Some (json_text (JArr [JStr ''echo''])), rr_Error = None\<rparr>]"
proof -
  have "valid_utf8 ''1'' = ''1''" "valid_utf8 ''2'' = ''2''" "valid_utf8 ''echo'' = ''echo''" by code_simp+
  then show ?thesis
    using session_answers [of "\<lambda>_. True" "[sample_request, sample_request\<lparr>req_ID := ''2''\<rparr>]" "\<lambda>q. JArr [JStr (req_Method q)]"
        "\<lambda>_. []" "\<lambda>_. []"]
    by (auto simp: sendable_def sample_request_def received_request_def numeral_2_eq_2 simp del: listen_rounds.simps)
qed

section \<open>Calls\<close>

text \<open>
  A call of \<^verbatim>\<open>rpc\<close> on a connection that no other call uses: the identifier, \<^verbatim>\<open>Send\<close>, the server's round, the listener's round,
  and the result, if the response is for this call; otherwise the call waits (\<open>None\<close>).
\<close>

definition rpc_over ::
  "(error \<Rightarrow> string) \<Rightarrow> (string \<Rightarrow> bool) \<Rightarrow> (Request \<Rightarrow> Response) \<Rightarrow> string \<Rightarrow> json option \<Rightarrow> (json \<Rightarrow> 'a result) \<Rightarrow>
    64 word \<Rightarrow> 'a result option" where
  "rpc_over et float_ok fn m arg decode ctr =
     (let i = id_text (ctr + 1); lines = sends [\<lparr>req_ID = i, req_Method = m, req_Params = arg\<rparr>] in
      case Decode (Request_decode float_ok) \<lparr>dec_input = map Text lines, dec_err = None\<rparr> of
        Some (Ok q, _) \<Rightarrow>
          (case Receive float_ok \<lparr>dec_input = [Text (printed_line (fn q))], dec_err = None\<rparr> of
             Some (r, _) \<Rightarrow>
               (case listen_action et r of
                  Callback j res \<Rightarrow> if j = i then Some (rpcResult decode res) else None
                | _ \<Rightarrow> None)
           | None \<Rightarrow> None)
      | _ \<Rightarrow> None)"

text \<open>Without a response the call ends when its context is cancelled.\<close>

definition session_rpc ::
  "(error \<Rightarrow> string) \<Rightarrow> (string \<Rightarrow> bool) \<Rightarrow> (Request \<Rightarrow> Response) \<Rightarrow> string \<Rightarrow> json option \<Rightarrow> (json \<Rightarrow> 'a result) \<Rightarrow>
    64 word \<Rightarrow> 'a result \<times> 64 word" where
  "session_rpc et float_ok fn m arg decode ctr =
     (case rpc_over et float_ok fn m arg decode ctr of None \<Rightarrow> Err ErrCanceled | Some r \<Rightarrow> r, ctr + 1)"

lemma id_text_valid: "valid_utf8 (id_text w) = id_text w" "id_text w \<noteq> []"
proof -
  have "list_all ascii (id_text w)"
    using number_texts(3) [of "sint w"] number_chars_graphic graphic_ascii by (auto simp: id_text_def list_all_iff)
  then show "valid_utf8 (id_text w) = id_text w" by (simp add: valid_utf8_def runes_ascii comp_def)
qed (simp add: id_text_def)

lemma session_rpc_answer:
  assumes "\<And>p. arg = Some p \<Longrightarrow> wf_json p \<and> p \<noteq> JNull \<and> list_all float_ok (json_numbers (normal_json p))"
    "q = received_request \<lparr>req_ID = id_text (ctr + 1), req_Method = m, req_Params = arg\<rparr>"
    "wf_json (ans q)" "ans q \<noteq> JNull" "\<not> HasPrefix (json_text (ans q)) errPrefix"
  shows "session_rpc et float_ok (answers ans) m arg decode ctr = (decode (normal_json (ans q)), ctr + 1)"
proof -
  let ?r = "\<lparr>req_ID = id_text (ctr + 1), req_Method = m, req_Params = arg\<rparr>"
  have s: "sendable float_ok ?r" using assms(1) by (auto simp: sendable_def id_text_valid split: option.split)
  then have lines: "sends [?r] = [request_line ?r]" by (subst sends_lines) simp_all
  have dec: "Decode (Request_decode float_ok) \<lparr>dec_input = [Text (request_line ?r)], dec_err = None\<rparr> =
      Some (Ok q, \<lparr>dec_input = [], dec_err = None\<rparr>)" using Decode_request [OF s] assms(2) by simp
  have "req_ID q = id_text (ctr + 1)" by (simp add: assms(2) received_request_def id_text_valid)
  moreover have "json_parse (json_text (ans q)) = Some (json_text (ans q), normal_json (ans q), last_members (ans q))"
    using json_parse_text [OF assms(3), of "[]"] by simp
  moreover have "normal_json (ans q) \<noteq> JNull" using assms(4) by (cases "ans q") simp_all
  ultimately show ?thesis
    using assms(5) printed_response [OF assms(3), of float_ok "req_ID q" "[]"]
    by (cases "decode (normal_json (ans q))")
      (simp_all add: session_rpc_def rpc_over_def Let_def lines dec answers_def listen_action_of id_text_valid
        rpcResult_def result_UnmarshalJSON_def)
qed

section \<open>Transactions\<close>

text \<open>The rows a server selects, one list for each operation, as the result of the transaction.\<close>

definition rows_json :: "(string \<times> json) list list list \<Rightarrow> json" where
  "rows_json rowss = JArr (map (\<lambda>rows. JObj [(''rows'', JArr (map JObj rows))]) rowss)"

definition row_of :: "(string \<times> json) list \<Rightarrow> Row" where
  "row_of kvs = map_of (rev (map (\<lambda>(k, v). (valid_utf8 k, normal_json v)) kvs))"

definition valid_select :: "Select \<Rightarrow> Select" where
  "valid_select s = \<lparr>sel_Table = valid_utf8 (sel_Table s),
     sel_Where = map (\<lambda>c. \<lparr>Column = valid_utf8 (Column c), Function = valid_utf8 (Function c), Value = valid_utf8 (Value c)\<rparr>) (sel_Where s)\<rparr>"

lemma rows_utf8: "valid_utf8 ''rows'' = ''rows''" "fold_key ''rows'' = ''rows''"
  by code_simp+

lemma json_rows_of:
  "list_all (\<lambda>kvs. list_all float_ok (json_numbers (normal_json (JObj kvs)))) rows \<Longrightarrow>
    json_row_list float_ok [] (map (\<lambda>kvs. normal_json (JObj kvs)) rows) = Ok (map row_of rows)"
  by (induction rows) (simp_all add: json_interface_def row_of_def)

lemma op_result_rows:
  assumes "list_all (\<lambda>kvs. list_all float_ok (json_numbers (normal_json (JObj kvs)))) rows"
  shows "json_op_result float_ok (normal_json (JObj [(''rows'', JArr (map JObj rows))])) = Ok (map row_of rows)"
proof -
  have "normal_json (JObj [(''rows'', JArr (map JObj rows))]) = JObj [(''rows'', JArr (map (\<lambda>kvs. normal_json (JObj kvs)) rows))]"
    by (simp add: rows_utf8)
  then show ?thesis
    using json_rows_of [OF assms] by (simp add: op_member_def rows_utf8 del: fold_key.simps normal_json.simps)
qed

lemma op_results_rows:
  assumes "list_all (list_all (\<lambda>kvs. list_all float_ok (json_numbers (normal_json (JObj kvs))))) rowss"
  shows "json_op_results float_ok (normal_json (rows_json rowss)) = Ok (map (map row_of) rowss)"
proof -
  have "each (json_op_result float_ok) (map (\<lambda>rows. normal_json (JObj [(''rows'', JArr (map JObj rows))])) rowss) =
      Ok (map (map row_of) rowss)"
    unfolding each_map using assms by (intro each_all_Ok op_result_rows) (simp add: list_all_iff)
  then show ?thesis by (simp add: rows_json_def comp_def del: normal_json.simps(3))
qed

text \<open>
  C11: a transaction returns the rows the server selects. If the server's function answers a \<^verbatim>\<open>transact\<close> request for a
  database and a list of selects with one list of rows per select, \<^verbatim>\<open>Transact\<close> returns the rows of all of them, in the
  order of the selects, each as a map from columns to values: the request reaches the function with the very
  database, tables and conditions of the call, and the answer comes back through listener and callback unchanged (strings made valid UTF-8).
\<close>

theorem Transact_end_to_end:
  assumes "\<And>i db ops. ans \<lparr>req_ID = i, req_Method = ''transact'', req_Params = Some (transactArg_json db ops)\<rparr> = rows_json (sel db ops)"
    "\<And>db ops. wf_json (rows_json (sel db ops))"
    "\<And>db ops. list_all (list_all (\<lambda>kvs. list_all float_ok (json_numbers (normal_json (JObj kvs))))) (sel db ops)"
  shows "Transact float_ok (session_rpc et float_ok (answers ans)) db ops ctr =
    (Ok (map row_of (concat (sel (valid_utf8 db) (map valid_select ops)))), ctr + 1)"
proof -
  let ?p = "transactArg_json db ops"
  let ?q = "received_request \<lparr>req_ID = id_text (ctr + 1), req_Method = ''transact'', req_Params = Some ?p\<rparr>"
  have "valid_utf8 ''transact'' = ''transact''" by code_simp
  moreover have n: "normal_json ?p = transactArg_json (valid_utf8 db) (map valid_select ops)"
    by (simp add: transactArg_json_def Select_json_def Cond_json_def valid_select_def fixed_utf8)
  ultimately have q: "ans ?q = rows_json (sel (valid_utf8 db) (map valid_select ops))"
    using assms(1) by (simp add: received_request_def)
  have "session_rpc et float_ok (answers ans) ''transact'' (Some ?p) (json_op_results float_ok) ctr =
      (json_op_results float_ok (normal_json (ans ?q)), ctr + 1)"
  proof (rule session_rpc_answer [OF _ refl])
    show "wf_json p \<and> p \<noteq> JNull \<and> list_all float_ok (json_numbers (normal_json p))" if "Some ?p = Some p" for p
      using that wf_transactArg [of db ops] n
      by (auto simp: transactArg_json_def Select_json_def Cond_json_def list_all_iff)
  qed (use assms(2) in \<open>simp_all add: q rows_json_def errPrefix_def HasPrefix_iff\<close>)
  then show ?thesis
    using op_results_rows [OF assms(3)] by (simp add: Transact_def q map_concat)
qed


text \<open>A server with one row per select.\<close>

definition sample_sel :: "string \<Rightarrow> Select list \<Rightarrow> (string \<times> json) list list list" where
  "sample_sel db ops = map (\<lambda>_. [[(''name'', JStr ''br0'')]]) ops"

definition sample_ans :: "Request \<Rightarrow> json" where
  "sample_ans q = (case req_Params q of
     Some (JArr (db # ops)) \<Rightarrow> rows_json (map (\<lambda>_. [[(''name'', JStr ''br0'')]]) ops)
   | _ \<Rightarrow> JArr [])"

theorem Transact_end_to_end_witness:
  "Transact (\<lambda>_. False) (session_rpc (\<lambda>_. []) (\<lambda>_. False) (answers sample_ans)) ''Open_vSwitch''
     [\<lparr>sel_Table = ''Bridge'', sel_Where = [Equal ''name'' ''br0'']\<rparr>, \<lparr>sel_Table = ''Bridge'', sel_Where = []\<rparr>] 0 =
   (Ok [[''name'' \<mapsto> JStr ''br0''], [''name'' \<mapsto> JStr ''br0'']], 1)"
proof -
  have u: "valid_utf8 ''name'' = ''name''" "valid_utf8 ''br0'' = ''br0''" by code_simp+
  have a: "sample_ans \<lparr>req_ID = i, req_Method = ''transact'', req_Params = Some (transactArg_json db ops)\<rparr> =
      rows_json (sample_sel db ops)" for i db ops
    by (simp add: sample_ans_def sample_sel_def transactArg_json_def comp_def)
  have w: "wf_json (rows_json (sample_sel db ops))" for db ops
    by (simp add: rows_json_def sample_sel_def list_all_iff)
  have f: "list_all (list_all (\<lambda>kvs. list_all (\<lambda>_. False) (json_numbers (normal_json (JObj kvs))))) (sample_sel db ops)" for db ops
    by (simp add: sample_sel_def list_all_iff)
  show ?thesis unfolding Transact_end_to_end [of sample_ans sample_sel "\<lambda>_. False", OF a w f] by (simp add: sample_sel_def row_of_def u)
qed

text \<open>
  The other calls. \<^verbatim>\<open>ListDatabases\<close> returns the databases a server lists, in order; \<^verbatim>\<open>Echo\<close> succeeds against a server
  that sends the parameters back, and reports any other list of strings as invalid.
\<close>

theorem simple_calls_end_to_end:
  assumes "\<And>i. ans \<lparr>req_ID = i, req_Method = ''list_dbs'', req_Params = Some (JArr [])\<rparr> = JArr (map JStr dbs)"
    "\<And>i p. ans \<lparr>req_ID = i, req_Method = ''echo'', req_Params = Some p\<rparr> = (if good then p else JArr [JStr other])"
    "valid_utf8 other \<noteq> echo_text"
  shows "ListDatabases (session_rpc et float_ok (answers ans)) ctr = (Ok (map valid_utf8 dbs), ctr + 1) \<and>
    Echo (session_rpc et float_ok (answers ans)) ctr =
      (if good then Ok () else Err (ErrInvalidEcho (valid_utf8 other)), ctr + 1)"
proof
  have u: "valid_utf8 ''list_dbs'' = ''list_dbs''" "valid_utf8 ''echo'' = ''echo''" "valid_utf8 echo_text = echo_text" by code_simp+
  let ?q = "received_request \<lparr>req_ID = id_text (ctr + 1), req_Method = ''list_dbs'', req_Params = None\<rparr>"
  have q: "ans ?q = JArr (map JStr dbs)" using assms(1) by (simp add: received_request_def u)
  have "session_rpc et float_ok (answers ans) ''list_dbs'' None json_to_strings ctr = (json_to_strings (normal_json (ans ?q)), ctr + 1)"
    by (rule session_rpc_answer [OF _ refl]) (simp_all add: q errPrefix_def HasPrefix_iff list_all_iff)
  moreover have "each json_string_element (map (\<lambda>x. JStr (valid_utf8 x)) dbs) = Ok (map valid_utf8 dbs)"
    unfolding each_map by (rule each_all_Ok) simp
  ultimately show "ListDatabases (session_rpc et float_ok (answers ans)) ctr = (Ok (map valid_utf8 dbs), ctr + 1)"
    by (simp add: ListDatabases_def q comp_def)
  let ?e = "received_request \<lparr>req_ID = id_text (ctr + 1), req_Method = ''echo'', req_Params = Some (JArr [JStr echo_text])\<rparr>"
  have e: "ans ?e = (if good then JArr [JStr echo_text] else JArr [JStr other])" using assms(2) by (simp add: received_request_def u)
  have "session_rpc et float_ok (answers ans) ''echo'' (Some (JArr [JStr echo_text])) json_one_string ctr =
      (json_one_string (normal_json (ans ?e)), ctr + 1)"
    by (rule session_rpc_answer [OF _ refl]) (auto simp: e errPrefix_def HasPrefix_iff)
  then show "Echo (session_rpc et float_ok (answers ans)) ctr =
      (if good then Ok () else Err (ErrInvalidEcho (valid_utf8 other)), ctr + 1)"
    using assms(3) by (simp add: Echo_def e u)
qed

theorem simple_calls_end_to_end_witness:
  "ListDatabases (session_rpc (\<lambda>_. []) (\<lambda>_. False)
     (answers (\<lambda>q. if req_Method q = ''echo'' then JArr [JStr ''no''] else JArr [JStr ''Open_vSwitch'']))) 0 = (Ok [''Open_vSwitch''], 1) \<and>
   fst (Echo (session_rpc (\<lambda>_. []) (\<lambda>_. False)
     (answers (\<lambda>q. if req_Method q = ''echo'' then JArr [JStr ''no''] else JArr [JStr ''Open_vSwitch'']))) 0) = Err (ErrInvalidEcho ''no'')"
proof -
  have "valid_utf8 ''no'' = ''no''" "valid_utf8 ''Open_vSwitch'' = ''Open_vSwitch''" "''no'' \<noteq> echo_text" by code_simp+
  then show ?thesis
    using simple_calls_end_to_end [of "\<lambda>q. if req_Method q = ''echo'' then JArr [JStr ''no''] else JArr [JStr ''Open_vSwitch'']"
        "[''Open_vSwitch'']" False "''no''" "\<lambda>_. []" "\<lambda>_. False" 0] by simp
qed

end
