(* ===== verification/Ovsdb_Close.thy ===== *)
theory Ovsdb_Close imports Ovsdb_Client begin

text \<open>
  \<^verbatim>\<open>Close\<close> of the OVSDB client (\<^verbatim>\<open>ovsdb/client.go\<close>): it cancels the client's context, closes the connection and waits
  for the listener and the echo loop. Shown: it never waits for a deadlock.
\<close>

text \<open>The context of an echo is the client's own, which \<^verbatim>\<open>Close\<close> cancels.\<close>

definition echo_cancelled :: "client \<Rightarrow> bool" where
  "echo_cancelled c \<longleftrightarrow> (\<forall>k. closing c \<and> echo_at c = InCall k \<longrightarrow> cancelled c k)"

lemma echo_counted_at: "echo_at (echo_counted et r c) = Idle \<or> echo_at (echo_counted et r c) = EchoCrashed"
  by (simp add: echo_counted_def split: result.split)

lemma echo_counted_closing [simp]: "closing (echo_counted et r c) = closing c"
  by (simp add: echo_counted_def split: result.split)

lemma step_echo_cancelled:
  assumes "step c c'" "echo_cancelled c"
  shows "echo_cancelled c'"
  using assms(1)
proof (cases rule: step.cases)
  case (echo_done k i out et)
  then show ?thesis using echo_counted_at [of et "echo_result out" c] by (auto simp: echo_cancelled_def)
next
  case (deliver et m i r pick c0)
  then show ?thesis using assms(2) by (simp add: echo_cancelled_def doCallback_kept)
qed (use assms(2) in \<open>auto simp: echo_cancelled_def requestID_def addCallback_def deleteCallback_def split: if_splits\<close>)

lemma reachable_echo_cancelled: "reachable c \<Longrightarrow> echo_cancelled c"
proof (induction rule: reachable.induct)
  case init
  then show ?case by (simp add: echo_cancelled_def new_client_def)
next
  case (step c c')
  then show ?case using step_echo_cancelled by blast
next
  case (cancel c c')
  from cancel.hyps(2) cancel.IH show ?case by (cases rule: cancel.cases) (auto simp: echo_cancelled_def)
qed

section \<open>Cancelled calls return\<close>

text \<open>A run of one call, which leaves the two goroutines of the client where they are.\<close>

definition call_run :: "nat \<Rightarrow> client \<Rightarrow> client \<Rightarrow> bool" where
  "call_run k c c' \<longleftrightarrow> step\<^sup>*\<^sup>* c c' \<and> listen_at c' = listen_at c \<and> echo_at c' = echo_at c \<and> closing c' = closing c"

lemma call_run_step:
  assumes "step c c'" "listen_at c' = listen_at c" "echo_at c' = echo_at c" "closing c' = closing c" "call_run k c' c''"
  shows "call_run k c c''"
  using assms by (auto simp: call_run_def intro: converse_rtranclp_into_rtranclp)

lemma call_run_refl: "call_run k c c"
  by (simp add: call_run_def)

lemma returning_run:
  assumes "phases c k = Returning i out"
  shows "\<exists>c' j o'. call_run k c c' \<and> phases c' k = Done j o'"
proof -
  let ?c = "set_phase k (Done (Some i) out) (deleteCallback i c)"
  have "call_run k c ?c" by (rule call_run_step [OF step.return [OF assms] _ _ _ call_run_refl]) (simp_all add: deleteCallback_def)
  moreover have "phases ?c k = Done (Some i) out" by simp
  ultimately show ?thesis by blast
qed

lemma leads_to_return:
  assumes "step c (set_phase k (Returning i out) c)"
  shows "\<exists>c' j o'. call_run k c c' \<and> phases c' k = Done j o'"
proof -
  have "phases (set_phase k (Returning i out) c) k = Returning i out" by simp
  from returning_run [OF this] show ?thesis using call_run_step [OF assms] by fastforce
qed

lemma cancelled_call_returns:
  assumes "client_inv c" "cancelled c k"
  shows "\<exists>c' j o'. call_run k c c' \<and> phases c' k = Done j o'"
proof (cases "phases c k")
  case Unused
  have "call_run k c (set_phase k (Done None (Failed ErrCanceled)) c)"
    by (rule call_run_step [OF step.refused [OF Unused assms(2)] _ _ _ call_run_refl]) simp_all
  then show ?thesis by fastforce
next
  case (HasID i)
  let ?c = "set_phase k (Registered i) (c\<lparr>callbacks := (callbacks c)(i \<mapsto> k)\<rparr>)"
  have "addCallback i k c = Ok (c\<lparr>callbacks := (callbacks c)(i \<mapsto> k)\<rparr>)"
    using free_identifier [OF assms(1) HasID] by (simp add: addCallback_def)
  from step.register [OF HasID this] have s: "step c ?c" .
  have "phases ?c k = Registered i" by simp
  from leads_to_return [OF step.send_fails [OF this]] show ?thesis using call_run_step [OF s] by fastforce
next
  case (Registered i)
  then show ?thesis by (rule leads_to_return [OF step.send_fails])
next
  case (Waiting i)
  then show ?thesis by (rule leads_to_return [OF step.give_up [OF _ assms(2)]])
next
  case (Returning i out)
  then show ?thesis by (rule returning_run)
next
  case (Done j out)
  then show ?thesis using call_run_refl by blast
qed

section \<open>The goroutines end\<close>

lemma echo_ends:
  assumes "client_inv c" "echo_cancelled c" "closing c"
  shows "\<exists>c'. step\<^sup>*\<^sup>* c c' \<and> (echo_at c' = Ended \<or> echo_at c' = EchoCrashed) \<and> listen_at c' = listen_at c \<and> closing c'"
proof -
  have idle: ?thesis if "step\<^sup>*\<^sup>* c d" "listen_at d = listen_at c" "closing d" "echo_at d = Idle" for d
    using that step.end_echo [of d] by (intro exI [of _ "d\<lparr>echo_at := Ended\<rparr>"]) (auto intro: rtranclp.rtrancl_into_rtrancl)
  show ?thesis
  proof (cases "echo_at c")
    case (InCall k)
    then have "cancelled c k" using assms(2,3) by (simp add: echo_cancelled_def)
    then obtain d j out where d: "call_run k c d" "phases d k = Done j out" using cancelled_call_returns [OF assms(1)] by blast
    let ?e = "echo_counted (\<lambda>_. []) (echo_result out) d"
    have "step d ?e" using step.echo_done [of d k j out] d InCall by (simp add: call_run_def)
    then have e: "step\<^sup>*\<^sup>* c ?e" "listen_at ?e = listen_at c" "closing ?e"
      using d(1) assms(3) by (auto simp: call_run_def intro: rtranclp.rtrancl_into_rtrancl)
    show ?thesis
      using echo_counted_at [of "\<lambda>_. []" "echo_result out" d] e idle [OF e] by blast
  next
    case Idle
    then show ?thesis using idle [of c] assms(3) by simp
  qed (use assms(3) in auto)
qed

lemma listener_ends:
  assumes "closing c"
  shows "\<exists>c'. step\<^sup>*\<^sup>* c c' \<and> (listen_at c' = Stopped \<or> listen_at c' = Crashed) \<and> echo_at c' = echo_at c"
proof -
  have stop: "step d (d\<lparr>listen_at := Stopped\<rparr>)" if "listen_at d = Reading" for d
    using step.stop [OF that, of "\<lambda>_. []" "Err ErrEOF"] by (simp add: listen_action_def)
  show ?thesis
  proof (cases "listen_at c")
    case Reading
    then show ?thesis using stop [of c] by (intro exI [of _ "c\<lparr>listen_at := Stopped\<rparr>"]) auto
  next
    case Offering
    let ?d = "c\<lparr>listen_at := Reading\<rparr>"
    have "step c ?d" using step.drop_offer Offering assms by blast
    then show ?thesis using stop [of ?d]
      by (intro exI [of _ "?d\<lparr>listen_at := Stopped\<rparr>"]) (auto intro: converse_rtranclp_into_rtranclp)
  qed auto
qed

text \<open>
  \<^verbatim>\<open>Close\<close> cannot deadlock. From every reachable state in which the client is closing, whatever calls and echoes are under
  way and even if the listener and the echo loop wait for each other, steps lead to a state in which both have ended,
  so that \<^verbatim>\<open>wg.Wait\<close> returns (or one of them has crashed the program).
\<close>

theorem Close_completes:
  assumes "reachable c" "started c < 2 ^ 64" "closing c"
  shows "\<exists>c'. step\<^sup>*\<^sup>* c c' \<and> (listen_at c' = Stopped \<or> listen_at c' = Crashed) \<and> (echo_at c' = Ended \<or> echo_at c' = EchoCrashed)"
proof -
  obtain d where d: "step\<^sup>*\<^sup>* c d" "echo_at d = Ended \<or> echo_at d = EchoCrashed" "closing d"
    using echo_ends [OF reachable_client_inv [OF assms(1,2)] reachable_echo_cancelled [OF assms(1)] assms(3)] by blast
  from listener_ends [OF d(3)] d(1,2) show ?thesis by (metis rtranclp_trans)
qed

theorem Close_completes_witness:
  "\<exists>c'. step\<^sup>*\<^sup>* (stuck_client\<lparr>closing := True, cancelled := (\<lambda>k. k = 0)\<rparr>) c' \<and>
     (listen_at c' = Stopped \<or> listen_at c' = Crashed) \<and> (echo_at c' = Ended \<or> echo_at c' = EchoCrashed)"
proof (rule Close_completes)
  show "reachable (stuck_client\<lparr>closing := True, cancelled := (\<lambda>k. k = 0)\<rparr>)"
    using reachable.cancel [OF stuck_reachable cancel.close] by (simp add: stuck_client_def waiting_client_def new_client_def eq_commute)
qed (simp_all add: stuck_client_def waiting_client_def new_client_def)

end
