(* ===== verification/Go_Scanner.thy ===== *)
theory Go_Scanner
  imports Go_Json
begin

text \<open>
  The scanner of \<^verbatim>\<open>encoding/json\<close> (\<^verbatim>\<open>scanner.go\<close>): the state machine that \<^verbatim>\<open>Decoder\<close> runs over the bytes of a
  connection to find where a value ends. It is shown to end a value exactly where the parser does.
\<close>

section \<open>The state machine\<close>

datatype parse_state = parseObjectKey | parseObjectValue | parseArrayValue

datatype scan_state =
    stateBeginValue | stateBeginValueOrEmpty | stateBeginStringOrEmpty | stateBeginString
  | stateEndValue | stateEndTop
  | stateInString | stateInStringEsc | stateInStringEscU nat
  | stateNeg | state0 | state1 | stateDot | stateDot0 | stateE | stateESign | stateE0
  | stateLiteral string | stateError

datatype scan_code =
    scanContinue | scanBeginLiteral | scanBeginObject | scanObjectKey | scanObjectValue | scanEndObject
  | scanBeginArray | scanArrayValue | scanEndArray | scanSkipSpace | scanEnd | scanError

text \<open>
  The state and the stack of open containers, the innermost first. \<open>stateInStringEscU n\<close> still
  expects \<open>n\<close> hexadecimal digits and \<open>stateLiteral s\<close> the characters \<open>s\<close>.
\<close>

type_synonym scanner = "scan_state \<times> parse_state list"

fun popParseState :: "parse_state list \<Rightarrow> scanner" where
  "popParseState [] = (stateEndTop, [])"
| "popParseState [_] = (stateEndTop, [])"
| "popParseState (_ # ps) = (stateEndValue, ps)"

definition end_value :: "parse_state list \<Rightarrow> char \<Rightarrow> scan_code \<times> scanner" where
  "end_value stk c =
     (case stk of
        [] \<Rightarrow> (scanEnd, if jspace c then stateEndTop else stateError, [])
      | p # ps \<Rightarrow>
          if jspace c then (scanSkipSpace, stateEndValue, stk)
          else case p of
            parseObjectKey \<Rightarrow>
              if c = CHR '':'' then (scanObjectKey, stateBeginValue, parseObjectValue # ps)
              else (scanError, stateError, stk)
          | parseObjectValue \<Rightarrow>
              if c = CHR '','' then (scanObjectValue, stateBeginString, parseObjectKey # ps)
              else if c = CHR 0x7D then (scanEndObject, popParseState stk)
              else (scanError, stateError, stk)
          | parseArrayValue \<Rightarrow>
              if c = CHR '','' then (scanArrayValue, stateBeginValue, stk)
              else if c = CHR '']'' then (scanEndArray, popParseState stk)
              else (scanError, stateError, stk))"

definition begin_val :: "parse_state list \<Rightarrow> char \<Rightarrow> scan_code \<times> scanner" where
  "begin_val stk c =
     (if jspace c then (scanSkipSpace, stateBeginValue, stk)
      else if c = CHR 0x7B then (scanBeginObject, stateBeginStringOrEmpty, parseObjectKey # stk)
      else if c = CHR ''['' then (scanBeginArray, stateBeginValueOrEmpty, parseArrayValue # stk)
      else if c = CHR 0x22 then (scanBeginLiteral, stateInString, stk)
      else if c = CHR ''-'' then (scanBeginLiteral, stateNeg, stk)
      else if c = CHR ''0'' then (scanBeginLiteral, state0, stk)
      else if c = CHR ''t'' then (scanBeginLiteral, stateLiteral ''rue'', stk)
      else if c = CHR ''f'' then (scanBeginLiteral, stateLiteral ''alse'', stk)
      else if c = CHR ''n'' then (scanBeginLiteral, stateLiteral ''ull'', stk)
      else if jdigit c then (scanBeginLiteral, state1, stk)
      else (scanError, stateError, stk))"

definition begin_string :: "parse_state list \<Rightarrow> char \<Rightarrow> scan_code \<times> scanner" where
  "begin_string stk c =
     (if jspace c then (scanSkipSpace, stateBeginString, stk)
      else if c = CHR 0x22 then (scanBeginLiteral, stateInString, stk)
      else (scanError, stateError, stk))"

definition after_int :: "parse_state list \<Rightarrow> char \<Rightarrow> scan_code \<times> scanner" where
  "after_int stk c =
     (if c = CHR ''.'' then (scanContinue, stateDot, stk)
      else if c = CHR ''e'' \<or> c = CHR ''E'' then (scanContinue, stateE, stk)
      else end_value stk c)"

definition exp_digit :: "parse_state list \<Rightarrow> char \<Rightarrow> scan_code \<times> scanner" where
  "exp_digit stk c = (if jdigit c then (scanContinue, stateE0, stk) else (scanError, stateError, stk))"

fun scan_step :: "scanner \<Rightarrow> char \<Rightarrow> scan_code \<times> scanner" where
  "scan_step (stateBeginValue, stk) c = begin_val stk c"
| "scan_step (stateBeginValueOrEmpty, stk) c =
     (if jspace c then (scanSkipSpace, stateBeginValueOrEmpty, stk)
      else if c = CHR '']'' then end_value stk c
      else begin_val stk c)"
| "scan_step (stateBeginStringOrEmpty, stk) c =
     (if jspace c then (scanSkipSpace, stateBeginStringOrEmpty, stk)
      else if c = CHR 0x7D then end_value (parseObjectValue # tl stk) c
      else begin_string stk c)"
| "scan_step (stateBeginString, stk) c = begin_string stk c"
| "scan_step (stateEndValue, stk) c = end_value stk c"
| "scan_step (stateEndTop, stk) c = (scanEnd, if jspace c then stateEndTop else stateError, stk)"
| "scan_step (stateInString, stk) c =
     (if c = CHR 0x22 then (scanContinue, stateEndValue, stk)
      else if c = CHR 0x5C then (scanContinue, stateInStringEsc, stk)
      else if (of_char c :: nat) < 0x20 then (scanError, stateError, stk)
      else (scanContinue, stateInString, stk))"
| "scan_step (stateInStringEsc, stk) c =
     (if c \<in> {CHR ''b'', CHR ''f'', CHR ''n'', CHR ''r'', CHR ''t'', CHR 0x5C, CHR ''/'', CHR 0x22}
      then (scanContinue, stateInString, stk)
      else if c = CHR ''u'' then (scanContinue, stateInStringEscU 4, stk)
      else (scanError, stateError, stk))"
| "scan_step (stateInStringEscU n, stk) c =
     (if hex_val c = None then (scanError, stateError, stk)
      else (scanContinue, if n \<le> 1 then stateInString else stateInStringEscU (n - 1), stk))"
| "scan_step (stateNeg, stk) c =
     (if c = CHR ''0'' then (scanContinue, state0, stk)
      else if jdigit c then (scanContinue, state1, stk)
      else (scanError, stateError, stk))"
| "scan_step (state1, stk) c = (if jdigit c then (scanContinue, state1, stk) else after_int stk c)"
| "scan_step (state0, stk) c = after_int stk c"
| "scan_step (stateDot, stk) c =
     (if jdigit c then (scanContinue, stateDot0, stk) else (scanError, stateError, stk))"
| "scan_step (stateDot0, stk) c =
     (if jdigit c then (scanContinue, stateDot0, stk)
      else if c = CHR ''e'' \<or> c = CHR ''E'' then (scanContinue, stateE, stk)
      else end_value stk c)"
| "scan_step (stateE, stk) c =
     (if c = CHR ''+'' \<or> c = CHR ''-'' then (scanContinue, stateESign, stk) else exp_digit stk c)"
| "scan_step (stateESign, stk) c = exp_digit stk c"
| "scan_step (stateE0, stk) c = (if jdigit c then (scanContinue, stateE0, stk) else end_value stk c)"
| "scan_step (stateLiteral s, stk) c =
     (if s \<noteq> [] \<and> c = hd s then (scanContinue, if tl s = [] then stateEndValue else stateLiteral (tl s), stk)
      else (scanError, stateError, stk))"
| "scan_step (stateError, stk) c = (scanError, stateError, stk)"

text \<open>
  The value has ended with the character before this one, or (a container at the top) with this
  one: the decoder then invents a space to see it.
\<close>

definition closes :: "scan_code \<Rightarrow> scanner \<Rightarrow> bool" where
  "closes v q \<longleftrightarrow> (v = scanEndObject \<or> v = scanEndArray) \<and> fst (scan_step q CHR '' '') = scanEnd"

text \<open>Characters that neither end a value nor are wrong.\<close>

fun pass :: "scanner \<Rightarrow> string \<Rightarrow> scanner option" where
  "pass q [] = Some q"
| "pass q (c # s) =
     (case scan_step q c of (v, q') \<Rightarrow>
        if v = scanEnd \<or> v = scanError \<or> closes v q' then None else pass q' s)"

lemma pass_append: "pass q (s @ t) = Option.bind (pass q s) (\<lambda>q'. pass q' t)"
  by (induction s arbitrary: q) (simp_all split: prod.split)

lemma pass_continue: "scan_step q c = (scanContinue, q') \<Longrightarrow> pass q (c # s) = pass q' s"
  by (simp add: closes_def)

section \<open>Tokens\<close>

text \<open>The scanner gets from \<open>q\<close> to \<open>q'\<close> on the characters of \<open>s\<close> before its rest \<open>u\<close>.\<close>

definition reads :: "scanner \<Rightarrow> string \<Rightarrow> string \<Rightarrow> scanner \<Rightarrow> bool" where
  "reads q s u q' \<longleftrightarrow> (\<exists>n. s = n @ u \<and> pass q n = Some q')"

lemma reads_refl [simp]: "reads q s s q"
  by (simp add: reads_def)

lemma reads_trans: "reads q s t q' \<Longrightarrow> reads q' t u q'' \<Longrightarrow> reads q s u q''"
  by (fastforce simp: reads_def pass_append)

lemma reads_step:
  assumes "scan_step q c = (v, q')" "v \<in> {scanContinue, scanBeginLiteral, scanSkipSpace}" "reads q' s u q''"
  shows "reads q (c # s) u q''"
proof -
  from assms(3) obtain n where "s = n @ u" "pass q' n = Some q''" by (auto simp: reads_def)
  then have "c # s = (c # n) @ u" "pass q (c # n) = Some q''" using assms(1,2) by (auto simp: closes_def)
  then show ?thesis unfolding reads_def by blast
qed

lemma reads_prefix: "pass q n = Some q' \<Longrightarrow> reads q' s u q'' \<Longrightarrow> reads q (n @ s) u q''"
  by (rule reads_trans [of q _ s q']) (auto simp: reads_def)

lemma reads_spaces:
  assumes "\<And>c. jspace c \<Longrightarrow> scan_step q c = (scanSkipSpace, q)"
  shows "reads q s (dropWhile jspace s) q"
  by (induction s) (auto intro: reads_step assms)

lemma reads_hex4:
  assumes "hex4 s = Some (n, u)"
  shows "reads (stateInStringEscU 4, stk) s u (stateInString, stk)"
  using assms by (cases s rule: hex4.cases) (auto intro!: reads_step split: option.splits)

lemma reads_unicode:
  assumes "lex_unicode n s = (bs, u)"
  shows "reads (stateInString, stk) s u (stateInString, stk)"
proof (cases "u = s")
  case False
  then obtain m where "HasPrefix s [CHR 0x5C, CHR ''u'']" "hex4 (drop 2 s) = Some (m, u)"
    using assms by (auto simp: lex_unicode_def split: if_splits option.splits)
  then show ?thesis
    using reads_hex4 [of "drop 2 s" m u stk] by (auto simp: HasPrefix_iff intro!: reads_step)
qed simp

lemma reads_escape:
  assumes "lex_escape s = Some (bs, u)"
  shows "reads (stateInStringEsc, stk) s u (stateInString, stk)"
proof (cases s)
  case (Cons c t)
  show ?thesis
  proof (cases "c = CHR ''u''")
    case True
    then obtain n t' where "hex4 t = Some (n, t')" "lex_unicode n t' = (bs, u)"
      using assms Cons by (auto split: option.splits)
    then show ?thesis
      using Cons True by (auto intro!: reads_step intro: reads_trans [OF reads_hex4 reads_unicode])
  qed (use assms Cons in \<open>auto intro!: reads_step split: if_splits\<close>)
qed (use assms in simp)


lemma byte_in_high: "byte_in lo hi s i \<Longrightarrow> 128 \<le> lo \<Longrightarrow> 128 \<le> (of_char (s ! i) :: nat)"
  by (simp add: byte_in_def)

lemma rune_shapes_high:
  "rune2 s \<Longrightarrow> i < 2 \<Longrightarrow> 128 \<le> (of_char (s ! i) :: nat)"
  "rune3 s \<Longrightarrow> i < 3 \<Longrightarrow> 128 \<le> (of_char (s ! i) :: nat)"
  "rune4 s \<Longrightarrow> i < 4 \<Longrightarrow> 128 \<le> (of_char (s ! i) :: nat)"
  unfolding rune2_def rune3_def rune4_def
  by (auto simp: less_Suc_eq numeral_2_eq_2 numeral_3_eq_3 numeral_eq_Suc dest: byte_in_high)

lemma multibyte_high:
  assumes "rune_width s \<noteq> 0" "128 \<le> (of_char (hd s) :: nat)" "d \<in> set (take (rune_width s) s)"
  shows "128 \<le> (of_char d :: nat)"
proof -
  have "s \<noteq> []" using assms(3) by auto
  then have "\<not> byte_in 0 127 s 0" using assms(2) by (auto simp: byte_in_def hd_conv_nth)
  then have "128 \<le> (of_char (s ! i) :: nat)" if "i < rune_width s" for i
    using that rune_shapes_high [of s i] by (simp add: rune_width_shapes split: if_split_asm)
  then show ?thesis using assms(3) by (auto simp: in_set_conv_nth)
qed

lemma pass_high:
  "list_all (\<lambda>c. 32 \<le> (of_char c :: nat) \<and> c \<noteq> CHR 0x22 \<and> c \<noteq> CHR 0x5C) s \<Longrightarrow>
   pass (stateInString, stk) s = Some (stateInString, stk)"
  by (induction s) (auto simp: closes_def)

lemma reads_string:
  assumes "lex_string s = Some (bs, u)"
  shows "reads (stateInString, stk) s u (stateEndValue, stk)"
  using assms
proof (induction s arbitrary: bs rule: lex_string.induct)
  case (1 s)
  from 1(4) obtain c t where s: "s = c # t" by (subst (asm) lex_string.simps) (auto split: list.splits)
  note eq = 1(4) [unfolded s, simplified lex_string.simps [of "c # t"], simplified]
  consider "c = CHR 0x22" | "c = CHR 0x5C" | "c \<noteq> CHR 0x22" "c \<noteq> CHR 0x5C" "\<not> (of_char c :: nat) < 32"
    using eq by (auto split: if_splits)
  then show ?case
  proof cases
    case 1
    then show ?thesis using eq by (auto simp: s intro!: reads_step)
  next
    case 2
    then obtain x t' y where e: "lex_escape t = Some (x, t')" "lex_string t' = Some (y, u)"
      using eq by (auto simp: prepend_def split: option.splits)
    from 1(1) [OF s _ 2 e(1) refl e(2)] reads_escape [OF e(1)] show ?thesis
      using 2 by (auto simp: s intro!: reads_step intro: reads_trans)
  next
    case 3
    show ?thesis
    proof (cases "rune_width s = 0")
      case True
      then obtain y where "lex_string t = Some (y, u)" using eq 3 by (auto simp: s prepend_def)
      from 1(2) [OF s 3 True this] show ?thesis using 3 by (auto simp: s intro!: reads_step)
    next
      case False
      let ?w = "rune_width s"
      obtain y where "lex_string (drop ?w s) = Some (y, u)" using eq 3 False by (auto simp: s prepend_def)
      from 1(3) [OF s 3 False this]
      have rest: "reads (stateInString, stk) (drop ?w s) u (stateEndValue, stk)" .
      have "32 \<le> (of_char d :: nat) \<and> d \<noteq> CHR 0x22 \<and> d \<noteq> CHR 0x5C" if d: "d \<in> set (take ?w s)" for d
      proof (cases "128 \<le> (of_char c :: nat)")
        case True
        then have "128 \<le> (of_char d :: nat)" using multibyte_high [OF False _ d] by (simp add: s)
        then show ?thesis by auto
      next
        case c: False
        then have "?w = 1" by (simp add: s rune_width_def byte_in_def)
        then show ?thesis using d 3 by (auto simp: s)
      qed
      then have "pass (stateInString, stk) (take ?w s) = Some (stateInString, stk)"
        by (intro pass_high) (simp add: list_all_iff)
      from reads_prefix [OF this rest] show ?thesis by simp
    qed
  qed
qed


text \<open>
  After a token: the scanner is at the end of the value, or in a number of which it does not know yet
  that it has ended, which makes no difference for the next character.
\<close>

definition ended :: "scanner \<Rightarrow> parse_state list \<Rightarrow> string \<Rightarrow> bool" where
  "ended q stk u \<longleftrightarrow> u = [] \<or> scan_step q (hd u) = end_value stk (hd u)"

lemma ended_end [simp]: "ended (stateEndValue, stk) stk u"
  by (simp add: ended_def)

lemma reads_digits:
  assumes "\<And>c. jdigit c \<Longrightarrow> scan_step q c = (scanContinue, q)"
  shows "reads q s (dropWhile jdigit s) q"
  by (induction s) (auto intro: reads_step assms)

lemma dropWhile_digits: "dropWhile jdigit s = [] \<or> \<not> jdigit (hd (dropWhile jdigit s))"
  using hd_dropWhile by blast

lemma digit_chars: "jdigit c \<Longrightarrow> c \<notin> {CHR ''.'', CHR ''e'', CHR ''E'', CHR ''+'', CHR ''-'', CHR 0x22, CHR ''['', CHR 0x7B,
  CHR ''t'', CHR ''f'', CHR ''n''} \<and> \<not> jspace c"
  by (auto simp: jdigit_def jspace_def)

lemma reads_first_digit:
  assumes "starts_digit s" "\<And>c. jdigit c \<Longrightarrow> scan_step q c = (scanContinue, q')" "\<And>c. jdigit c \<Longrightarrow> scan_step q' c = (scanContinue, q')"
  shows "reads q s (dropWhile jdigit s) q'"
  using assms(1) reads_digits [of q', OF assms(3)] by (cases s) (auto simp: starts_digit_def intro!: reads_step [OF assms(2)])

lemma reads_exponent:
  assumes "lex_exponent s = Some u" "\<And>c. c \<in> {CHR ''e'', CHR ''E''} \<Longrightarrow> scan_step q c = (scanContinue, stateE, stk)"
    "s \<noteq> [] \<Longrightarrow> hd s \<notin> {CHR ''e'', CHR ''E''} \<Longrightarrow> scan_step q (hd s) = end_value stk (hd s)"
  shows "\<exists>q'. reads q s u q' \<and> ended q' stk u"
proof (cases "s \<noteq> [] \<and> hd s \<in> {CHR ''e'', CHR ''E''}")
  case True
  then obtain c t where s: "s = c # t" "c \<in> {CHR ''e'', CHR ''E''}" by (cases s) auto
  then have u: "starts_digit (drop_sign t)" "u = dropWhile jdigit (drop_sign t)"
    using assms(1) by (auto simp: lex_exponent_def Let_def split: if_splits)
  have exp: "scan_step (stateESign, stk) d = (scanContinue, stateE0, stk)" "scan_step (stateE0, stk) d = (scanContinue, stateE0, stk)"
    "scan_step (stateE, stk) d = (scanContinue, stateE0, stk)" if "jdigit d" for d
    using digit_chars [OF that] that by (simp_all add: exp_digit_def)
  have "reads (stateE, stk) t u (stateE0, stk)"
  proof (cases "drop_sign t = t")
    case True
    then show ?thesis using reads_first_digit [of t] u exp by metis
  next
    case False
    then obtain d r where "t = d # r" "d = CHR ''+'' \<or> d = CHR ''-''" "drop_sign t = r"
      by (cases t) (auto simp: drop_sign_def split: if_splits)
    then show ?thesis using reads_first_digit [of r "(stateESign, stk)" "(stateE0, stk)"] u exp
      by (auto intro!: reads_step)
  qed
  then have "reads q s u (stateE0, stk)" using s assms(2) by (auto intro!: reads_step)
  moreover have "ended (stateE0, stk) stk u" using dropWhile_digits [of "drop_sign t"] by (auto simp: ended_def u(2))
  ultimately show ?thesis by blast
next
  case False
  then have "u = s" using assms(1) by (cases s) (auto simp: lex_exponent_def)
  then have "reads q s u q" "ended q stk u" using False assms(3) by (auto simp: ended_def)
  then show ?thesis by blast
qed

lemma reads_fraction:
  assumes "lex_fraction s = Some u" "\<And>c. \<not> jdigit c \<Longrightarrow> scan_step q c = after_int stk c" "q = (state0, stk) \<or> s = [] \<or> \<not> jdigit (hd s)"
  shows "\<exists>q'. reads q s u q' \<and> ended q' stk u"
proof (cases "s \<noteq> [] \<and> hd s = CHR ''.''")
  case True
  then obtain t where s: "s = CHR ''.'' # t" by (cases s) auto
  then have t: "starts_digit t" "lex_exponent (dropWhile jdigit t) = Some u"
    using assms(1) by (auto simp: lex_fraction_def split: if_splits)
  have "reads (stateDot, stk) t (dropWhile jdigit t) (stateDot0, stk)"
    by (rule reads_first_digit [OF t(1)]) auto
  then have "reads q s (dropWhile jdigit t) (stateDot0, stk)"
    by (auto simp: s assms(2) after_int_def jdigit_def intro!: reads_step)
  moreover have "\<exists>q'. reads (stateDot0, stk) (dropWhile jdigit t) u q' \<and> ended q' stk u"
    using dropWhile_digits [of t] by (intro reads_exponent [OF t(2)]) (auto simp: jdigit_def)
  ultimately show ?thesis by (blast intro: reads_trans)
next
  case False
  then have e: "lex_exponent s = Some u" using assms(1) by (cases s) (auto simp: lex_fraction_def)
  show ?thesis
  proof (rule reads_exponent [OF e])
    show "scan_step q c = (scanContinue, stateE, stk)" if "c \<in> {CHR ''e'', CHR ''E''}" for c
      using that assms(2) [of c] by (auto simp: after_int_def jdigit_def)
    show "scan_step q (hd s) = end_value stk (hd s)" if "s \<noteq> []" "hd s \<notin> {CHR ''e'', CHR ''E''}"
      using that False assms(2,3) by (cases "jdigit (hd s)") (auto simp: after_int_def jdigit_def)
  qed
qed

lemma reads_magnitude:
  assumes "(if HasPrefix s ''0'' then lex_fraction (drop 1 s)
      else if starts_digit s then lex_fraction (dropWhile jdigit s) else None) = Some u"
    "\<And>s u q'. reads (state0, stk) s u q' \<Longrightarrow> reads q (CHR ''0'' # s) u q'"
    "\<And>c s u q'. jdigit c \<Longrightarrow> c \<noteq> CHR ''0'' \<Longrightarrow> reads (state1, stk) s u q' \<Longrightarrow> reads q (c # s) u q'"
  shows "\<exists>q'. reads q s u q' \<and> ended q' stk u"
proof (cases "HasPrefix s ''0''")
  case True
  then obtain t where s: "s = CHR ''0'' # t" by (auto simp: HasPrefix_iff)
  have "\<exists>q'. reads (state0, stk) t u q' \<and> ended q' stk u"
    using assms(1) by (intro reads_fraction) (simp_all add: s)
  then show ?thesis using assms(2) unfolding s by blast
next
  case False
  then obtain c t where s: "s = c # t" "jdigit c" "c \<noteq> CHR ''0''" "lex_fraction (dropWhile jdigit t) = Some u"
    using assms(1) by (cases s) (auto simp: starts_digit_def split: if_splits)
  have "\<exists>q'. reads (state1, stk) (dropWhile jdigit t) u q' \<and> ended q' stk u"
    using dropWhile_digits [of t] by (intro reads_fraction [OF s(4)]) auto
  moreover have "reads (state1, stk) t (dropWhile jdigit t) (state1, stk)" by (rule reads_digits) simp
  ultimately show ?thesis using assms(3) s by (blast intro: reads_trans)
qed

lemma reads_number:
  assumes "lex_number s = Some u"
  shows "\<exists>q. reads (stateBeginValue, stk) s u q \<and> ended q stk u"
proof (cases "HasPrefix s ''-''")
  case True
  then obtain t where s: "s = CHR ''-'' # t" by (auto simp: HasPrefix_iff)
  have "\<exists>q. reads (stateNeg, stk) t u q \<and> ended q stk u"
    using assms unfolding lex_number_def s
    by (intro reads_magnitude) (auto simp: Let_def intro!: reads_step)
  moreover have "reads (stateNeg, stk) t u q \<Longrightarrow> reads (stateBeginValue, stk) s u q" for q
    unfolding s by (rule reads_step) (auto simp: begin_val_def jspace_def)
  ultimately show ?thesis by blast
next
  case False
  show ?thesis
  proof (rule reads_magnitude)
    show "(if HasPrefix s ''0'' then lex_fraction (drop 1 s)
        else if starts_digit s then lex_fraction (dropWhile jdigit s) else None) = Some u"
      using assms unfolding lex_number_def Let_def if_not_P [OF False] .
    show "reads (stateBeginValue, stk) (CHR ''0'' # s) u q'" if "reads (state0, stk) s u q'" for s u q'
      using that by (auto simp: begin_val_def jspace_def intro!: reads_step)
    show "reads (stateBeginValue, stk) (c # s) u q'" if "jdigit c" "c \<noteq> CHR ''0''" "reads (state1, stk) s u q'" for c s u q'
      using that digit_chars [OF that(1)] by (auto simp: begin_val_def intro!: reads_step)
  qed
qed


lemma lex_token_punct:
  assumes "lex_token s = Some (tok, u)" "tok \<in> {TLBrace, TRBrace, TLBrack, TRBrack, TColon, TComma}"
  shows "\<exists>c. s = c # u \<and> map_of lex_punctuation c = Some tok"
  using assms by (auto simp: lex_token_def split: list.splits option.splits if_splits)

lemma reads_literal:
  "w \<noteq> [] \<Longrightarrow> reads (stateLiteral w, stk) (w @ u) u (stateEndValue, stk)"
proof (induction w)
  case (Cons c w)
  then show ?case by (cases "w = []") (auto intro!: reads_step)
qed simp

lemma reads_scalar:
  assumes "lex_token s = Some (tok, u)" "tok \<notin> {TLBrace, TRBrace, TLBrack, TRBrack, TColon, TComma}"
  shows "\<exists>q. reads (stateBeginValue, stk) s u q \<and> ended q stk u"
proof -
  obtain c t where s: "s = c # t" using assms(1) by (cases s) (auto simp: lex_token_def)
  have p: "map_of lex_punctuation c = None"
    using assms by (auto simp: s lex_token_def lex_punctuation_def split: if_splits)
  have word: ?thesis if "HasPrefix s (a # w)" "u = drop (Suc (length w)) s" "w \<noteq> []"
      "begin_val stk a = (scanBeginLiteral, stateLiteral w, stk)" for a w
  proof -
    have "s = a # w @ u" using that(1,2) by (auto simp: HasPrefix_iff)
    then have "reads (stateBeginValue, stk) s u (stateEndValue, stk)"
      using reads_literal [OF that(3), of stk u] that(4) by (auto intro!: reads_step)
    then show ?thesis using ended_end by blast
  qed
  consider bs where "c = CHR 0x22" "lex_string t = Some (bs, u)"
    | "HasPrefix s ''null''" "u = drop 4 s" | "HasPrefix s ''true''" "u = drop 4 s"
    | "HasPrefix s ''false''" "u = drop 5 s" | "lex_number s = Some u"
    using assms(1) p by (auto simp: lex_token_def s split: if_splits)
  then show ?thesis
  proof cases
    case (1 bs)
    then have "reads (stateBeginValue, stk) s u (stateEndValue, stk)"
      using reads_string by (auto simp: s begin_val_def jspace_def intro!: reads_step)
    then show ?thesis using ended_end by blast
  next
    case 2
    then show ?thesis by (intro word [of "CHR ''n''" "''ull''"]) (simp_all add: begin_val_def jspace_def numeral_eq_Suc)
  next
    case 3
    then show ?thesis by (intro word [of "CHR ''t''" "''rue''"]) (simp_all add: begin_val_def jspace_def numeral_eq_Suc)
  next
    case 4
    then show ?thesis by (intro word [of "CHR ''f''" "''alse''"]) (simp_all add: begin_val_def jspace_def numeral_eq_Suc)
  qed (rule reads_number)
qed

section \<open>The scanner follows the parser\<close>

fun frame_state :: "jframe \<Rightarrow> parse_state" where
  "frame_state (ArrF r vs) = parseArrayValue"
| "frame_state (ObjF r ms k) = parseObjectValue"

lemma frames_add_raw [simp]: "map frame_state (add_raw x st) = map frame_state st"
  by (cases "(x, st)" rule: add_raw.cases) simp_all

text \<open>The state of the scanner inside of a container, where the parser is in a mode and \<open>s\<close> is to come.\<close>

fun follows :: "scanner \<Rightarrow> parse_state list \<Rightarrow> jmode \<Rightarrow> string \<Rightarrow> bool" where
  "follows q stk MValue s \<longleftrightarrow> q = (stateBeginValue, stk)"
| "follows q stk MFirst s \<longleftrightarrow> q = (stateBeginValueOrEmpty, stk) \<and> hd stk = parseArrayValue"
| "follows q stk MKeyFirst s \<longleftrightarrow> q = (stateBeginStringOrEmpty, parseObjectKey # tl stk) \<and> hd stk = parseObjectValue"
| "follows q stk MKey s \<longleftrightarrow> q = (stateBeginString, parseObjectKey # tl stk) \<and> hd stk = parseObjectValue"
| "follows q stk MColon s \<longleftrightarrow> ended q (parseObjectKey # tl stk) s \<and> hd stk = parseObjectValue"
| "follows q stk MAfter s \<longleftrightarrow> ended q stk s"
| "follows q stk (MDone raw v ms) s \<longleftrightarrow> False"

lemma follows_space:
  assumes "follows q stk m s" "stk \<noteq> []"
  shows "\<exists>q'. reads q s (dropWhile jspace s) q' \<and> follows q' stk m (dropWhile jspace s)"
proof -
  have loop: "reads q s (dropWhile jspace s) q" if "\<And>c. jspace c \<Longrightarrow> scan_step q c = (scanSkipSpace, q)"
    using that by (rule reads_spaces)
  have e: "\<exists>q'. reads q s (dropWhile jspace s) q' \<and> ended q' ps (dropWhile jspace s)"
    if "ended q ps s" "ps \<noteq> []" for ps
  proof (cases "s = [] \<or> \<not> jspace (hd s)")
    case True
    then have "dropWhile jspace s = s" by (cases s) auto
    then show ?thesis using that(1) by (metis reads_refl)
  next
    case False
    then obtain c t where s: "s = c # t" "jspace c" by (cases s) auto
    then have "scan_step q c = (scanSkipSpace, stateEndValue, ps)"
      using that by (cases ps) (auto simp: ended_def end_value_def)
    moreover have "reads (stateEndValue, ps) t (dropWhile jspace t) (stateEndValue, ps)"
      by (rule reads_spaces) (use that(2) in \<open>cases ps; simp add: end_value_def\<close>)
    ultimately have "reads q s (dropWhile jspace s) (stateEndValue, ps)" using s by (auto intro!: reads_step)
    then show ?thesis using ended_end by blast
  qed
  show ?thesis
    using assms e [of stk] e [of "parseObjectKey # tl stk"] loop
    by (cases m) (auto simp: begin_val_def begin_string_def)
qed


text \<open>
  A token takes the scanner along with the parser; the one that closes the outermost container ends
  the value.
\<close>

definition ends_at :: "scanner \<Rightarrow> string \<Rightarrow> string \<Rightarrow> bool" where
  "ends_at q s u \<longleftrightarrow>
     (\<exists>n c q' v. s = n @ c # u \<and> pass q n = Some q' \<and> scan_step q' c = (v, stateEndTop, []) \<and> v \<in> {scanEndObject, scanEndArray})"

definition advances :: "scanner \<Rightarrow> string \<Rightarrow> string \<Rightarrow> jframe list \<times> jmode \<Rightarrow> bool" where
  "advances q s u p \<longleftrightarrow>
     (if fst p = [] then ends_at q s u \<and> (\<exists>raw v ms. snd p = MDone raw v ms \<and> ((\<exists>vs. v = JArr vs) \<or> (\<exists>kvs. v = JObj kvs)))
      else \<exists>q'. reads q s u q' \<and> follows q' (map frame_state (fst p)) (snd p) u)"

lemma ends_at_reads: "reads q s t q' \<Longrightarrow> ends_at q' t u \<Longrightarrow> ends_at q s u"
  unfolding reads_def ends_at_def
proof (elim exE conjE)
  fix n m c q'' v
  assume "s = n @ t" "pass q n = Some q'" "t = m @ c # u" "pass q' m = Some q''"
    "scan_step q'' c = (v, stateEndTop, [])" "v \<in> {scanEndObject, scanEndArray}"
  then show "\<exists>n c q' v. s = n @ c # u \<and> pass q n = Some q' \<and> scan_step q' c = (v, stateEndTop, []) \<and> v \<in> {scanEndObject, scanEndArray}"
    by (intro exI [of _ "n @ m"]) (auto simp: pass_append)
qed

lemma advances_reads: "reads q s t q' \<Longrightarrow> advances q' t u p \<Longrightarrow> advances q s u p"
  by (auto simp: advances_def split: if_splits intro: ends_at_reads) (meson reads_trans)

lemma reads_quiet: "scan_step q c = (v, q') \<Longrightarrow> v \<notin> {scanEnd, scanError} \<Longrightarrow> \<not> closes v q' \<Longrightarrow> reads q (c # u) u q'"
  unfolding reads_def by (rule exI [of _ "[c]"]) simp

lemma reads_same_step:
  assumes "reads q s u q''" "length u < length s" "scan_step q' (hd s) = scan_step q (hd s)"
  shows "reads q' s u q''"
proof -
  obtain n where n: "s = n @ u" "pass q n = Some q''" using assms(1) by (auto simp: reads_def)
  then have "n \<noteq> []" using assms(2) by auto
  then have "pass q' n = Some q''" using n assms(3) by (cases n) auto
  then show ?thesis using n(1) by (auto simp: reads_def)
qed

text \<open>Closing a container.\<close>

lemma advances_close:
  assumes "scan_step q c = (v, popParseState (p # map frame_state st))" "v = scanEndObject \<or> v = scanEndArray"
    "(\<exists>vs. x = JArr vs) \<or> (\<exists>kvs. x = JObj kvs)"
  shows "advances q (c # u) u (complete st raw x ms)"
proof (cases st)
  case Nil
  then have "ends_at q (c # u) u" using assms(1,2) unfolding ends_at_def by (intro exI [of _ "[]"]) auto
  then show ?thesis using Nil assms(3) by (auto simp: advances_def)
next
  case (Cons f st')
  then have q: "scan_step q c = (v, stateEndValue, map frame_state st)" using assms(1) by simp
  have "\<not> closes v (stateEndValue, map frame_state st)" by (simp add: closes_def Cons end_value_def jspace_def)
  then have r: "reads q (c # u) u (stateEndValue, map frame_state st)"
    using reads_quiet [OF q] assms(2) by auto
  have "fst (complete st raw x ms) \<noteq> []" "map frame_state (fst (complete st raw x ms)) = map frame_state st"
    "snd (complete st raw x ms) = MAfter"
    using Cons by (cases f; simp)+
  then show ?thesis using r unfolding advances_def by (auto intro!: exI)
qed

lemma advances_begin_value:
  assumes "begin_value st raw tok = Some p" "lex_token s = Some (tok, u)" "st \<noteq> []"
    "scan_step q (hd s) = begin_val (map frame_state st) (hd s)"
  shows "advances q s u p"
proof (cases "tok \<in> {TLBrace, TRBrace, TLBrack, TRBrack, TColon, TComma}")
  case True
  then obtain c where c: "s = c # u" "map_of lex_punctuation c = Some tok" using lex_token_punct [OF assms(2)] by blast
  consider "tok = TLBrack" "c = CHR ''[''" | "tok = TLBrace" "c = CHR 0x7B"
    using assms(1) True c(2) by (auto simp: lex_punctuation_def split: if_splits)
  then show ?thesis
  proof cases
    case 1
    then have "reads q s u (stateBeginValueOrEmpty, parseArrayValue # map frame_state st)"
      using assms(4) unfolding c(1) by (intro reads_quiet) (auto simp: begin_val_def jspace_def closes_def)
    then show ?thesis using assms(1) 1 by (auto simp: advances_def)
  next
    case 2
    then have "reads q s u (stateBeginStringOrEmpty, parseObjectKey # map frame_state st)"
      using assms(4) unfolding c(1) by (intro reads_quiet) (auto simp: begin_val_def jspace_def closes_def)
    then show ?thesis using assms(1) 2 by (auto simp: advances_def)
  qed
next
  case False
  obtain q' where "reads (stateBeginValue, map frame_state st) s u q'" and e: "ended q' (map frame_state st) u"
    using reads_scalar [OF assms(2) False] by blast
  then have q': "reads q s u q'"
    using reads_same_step lex_token_length [OF assms(2)] assms(4) by auto
  obtain x where x: "p = complete st raw x []" using assms(1) False by (cases tok) auto
  obtain f st' where st: "st = f # st'" using assms(3) by (cases st) auto
  have "fst p \<noteq> []" "map frame_state (fst p) = map frame_state st" "snd p = MAfter"
    unfolding x st by (cases f; simp)+
  then show ?thesis using q' e unfolding advances_def by (simp del: split_paired_Ex) blast
qed


lemma lex_token_string: "lex_token s = Some (TStr k, u) \<Longrightarrow> \<exists>t. s = CHR 0x22 # t \<and> lex_string t = Some (k, u)"
  by (auto simp: lex_token_def lex_punctuation_def split: list.splits option.splits if_splits)

lemma advances_begin_key:
  assumes "begin_key st raw tok = Some p" "lex_token s = Some (tok, u)"
    "scan_step q CHR 0x22 = (scanBeginLiteral, stateInString, parseObjectKey # tl (map frame_state st))"
  shows "advances q s u p"
proof -
  obtain r ms k st' k' where st: "st = ObjF r ms k # st'" "tok = TStr k'" "p = (ObjF (r @ raw) ms k' # st', MColon)"
    using assms(1) by (cases "(st, raw, tok)" rule: begin_key.cases) auto
  obtain t where t: "s = CHR 0x22 # t" "lex_string t = Some (k', u)"
    using lex_token_string assms(2) unfolding st(2) by blast
  have "reads q s u (stateEndValue, parseObjectKey # map frame_state st')"
    unfolding t(1) by (rule reads_step [OF assms(3)]) (use reads_string [OF t(2)] in \<open>simp_all add: st(1)\<close>)
  then show ?thesis unfolding advances_def st(3) by (simp del: split_paired_Ex) (use ended_end in blast)
qed

lemma advances_close_array:
  assumes "close_array st raw = Some p" "scan_step q c = end_value (map frame_state st) c" "c = CHR '']''"
  shows "advances q (c # u) u p"
proof -
  obtain r vs st' where st: "st = ArrF r vs # st'" and p: "p = complete st' (r @ raw) (JArr vs) []"
    using assms(1) by (cases "(st, raw)" rule: close_array.cases) auto
  show ?thesis
    unfolding p by (rule advances_close [where p = parseArrayValue and v = scanEndArray]) (use assms(2,3) in \<open>simp_all add: st end_value_def jspace_def\<close>)
qed

lemma advances_close_object:
  assumes "close_object st raw = Some p" "scan_step q c = end_value (map frame_state st) c" "c = CHR 0x7D"
  shows "advances q (c # u) u p"
proof -
  obtain r ms k st' where st: "st = ObjF r ms k # st'" and p: "p = complete st' (r @ raw) (JObj (plain_members ms)) ms"
    using assms(1) by (cases "(st, raw)" rule: close_object.cases) auto
  show ?thesis
    unfolding p by (rule advances_close [where p = parseObjectValue and v = scanEndObject]) (use assms(2,3) in \<open>simp_all add: st end_value_def jspace_def\<close>)
qed

lemma token_char:
  "map_of lex_punctuation c = Some TRBrack \<longleftrightarrow> c = CHR '']''" "map_of lex_punctuation c = Some TRBrace \<longleftrightarrow> c = CHR 0x7D"
  "map_of lex_punctuation c = Some TColon \<longleftrightarrow> c = CHR '':''" "map_of lex_punctuation c = Some TComma \<longleftrightarrow> c = CHR '',''"
  by (auto simp: lex_punctuation_def)

lemma lex_token_first:
  assumes "lex_token s = Some (tok, u)" "s \<noteq> []" "\<not> jspace (hd s)"
  shows "tok \<noteq> TRBrack \<Longrightarrow> hd s \<noteq> CHR '']''" "tok \<noteq> TRBrace \<Longrightarrow> hd s \<noteq> CHR 0x7D"
  using assms by (cases s; auto simp: lex_token_def lex_punctuation_def)+

lemma jstep_advances:
  assumes f: "follows q (map frame_state st) m s" and st: "st \<noteq> []"
    and tok: "lex_token s = Some (tok, u)" and s: "s \<noteq> []" "\<not> jspace (hd s)"
    and step: "jstep (st, m) ([], raw, tok) = Some p"
  shows "advances q s u p"
proof -
  note punct = lex_token_punct [OF tok]
  note first = lex_token_first [OF tok s]
  have val: ?thesis if "begin_value st raw tok = Some p" "scan_step q (hd s) = begin_val (map frame_state st) (hd s)"
    using advances_begin_value [OF that(1) tok st that(2)] .
  have array: ?thesis if "tok = TRBrack" "close_array st raw = Some p" "scan_step q (hd s) = end_value (map frame_state st) (hd s)"
    using punct that advances_close_array [of st raw p q] by (auto simp: token_char)
  have object: ?thesis if "tok = TRBrace" "close_object st raw = Some p" "scan_step q (hd s) = end_value (map frame_state st) (hd s)"
    using punct that advances_close_object [of st raw p q] by (auto simp: token_char)
  have key: ?thesis if "begin_key st raw tok = Some p"
      "scan_step q CHR 0x22 = (scanBeginLiteral, stateInString, parseObjectKey # tl (map frame_state st))"
    using advances_begin_key [OF that(1) tok that(2)] .
  have top: "map frame_state st = hd (map frame_state st) # tl (map frame_state st)" using st by (cases st) auto
  show ?thesis
  proof (cases m)
    case MValue
    then show ?thesis using f step by (intro val) (auto simp: jstep_def)
  next
    case MFirst
    then show ?thesis
      using f step s first punct array val by (cases "tok = TRBrack") (auto simp: jstep_def token_char)
  next
    case MKeyFirst
    then have "scan_step q CHR 0x7D = end_value (map frame_state st) CHR 0x7D"
      using f top by (simp add: jspace_def)
    then show ?thesis
      using f step s first punct object key MKeyFirst
      by (cases "tok = TRBrace") (auto simp: jstep_def begin_string_def jspace_def token_char)
  next
    case MKey
    then show ?thesis using f step by (intro key) (auto simp: jstep_def begin_string_def jspace_def)
  next
    case MColon
    then obtain c where c: "tok = TColon" "p = (add_raw raw st, MValue)" "s = c # u" "c = CHR '':''"
      using step punct by (auto simp: jstep_def token_char split: if_splits)
    then have "reads q s u (stateBeginValue, map frame_state st)"
      using f MColon top unfolding c(3) by (intro reads_quiet [of q c scanObjectKey]) (auto simp: ended_def end_value_def jspace_def closes_def)
    moreover have "add_raw raw st \<noteq> []" using st by (cases "(raw, st)" rule: add_raw.cases) auto
    ultimately show ?thesis by (simp add: advances_def c(2))
  next
    case MAfter
    then have e: "scan_step q (hd s) = end_value (map frame_state st) (hd s)" using f s(1) by (simp add: ended_def)
    show ?thesis
    proof (cases "tok = TComma")
      case True
      then obtain c where c: "p = (add_raw raw st, after_comma st)" "s = c # u" "c = CHR '',''"
        using step punct MAfter by (auto simp: jstep_def token_char)
      obtain fr st' where fr: "st = fr # st'" using st by (cases st) auto
      show ?thesis
      proof (cases fr)
        case (ArrF r vs)
        then have "reads q s u (stateBeginValue, map frame_state st)"
          using e unfolding c(2) by (intro reads_quiet [of q c scanArrayValue]) (auto simp: c(3) fr end_value_def jspace_def closes_def)
        then show ?thesis by (simp add: advances_def c(1) fr ArrF)
      next
        case (ObjF r ms k)
        then have "reads q s u (stateBeginString, parseObjectKey # map frame_state st')"
          using e unfolding c(2) by (intro reads_quiet [of q c scanObjectValue]) (auto simp: c(3) fr end_value_def jspace_def closes_def)
        then show ?thesis by (simp add: advances_def c(1) fr ObjF)
      qed
    next
      case False
      then show ?thesis using step MAfter e array object by (auto simp: jstep_def split: if_splits)
    qed
  qed (use f in simp)
qed


lemma jstep_space: "jstep (st, m) (ws, raw, tok) = jstep (add_raw ws st, m) ([], raw, tok)"
  by (simp add: jstep_def)

lemma lex_Some_Nil: "lex s = Some [] \<Longrightarrow> list_all jspace s"
  by (subst (asm) lex.simps) (auto simp: Let_def list_all_iff dropWhile_eq_Nil_conv split: if_splits option.splits)

lemma lex_Some_cases:
  assumes "lex s = Some ts"
  obtains "ts = []" "list_all jspace s"
  | ws raw tok u us where "ts = (ws, raw, tok) # us" "lex_token (dropWhile jspace s) = Some (tok, u)" "lex u = Some us"
      "dropWhile jspace s \<noteq> []"
proof (cases "dropWhile jspace s = []")
  case True
  then show ?thesis using assms that(1) by (subst (asm) lex.simps) (auto simp: list_all_iff dropWhile_eq_Nil_conv)
next
  case False
  then show ?thesis using assms that(2) by (subst (asm) lex.simps) (auto simp: Let_def simp del: dropWhile_eq_Nil_conv split: option.splits)
qed

lemma jrun_ends:
  assumes "lex s = Some ts" "jrun (st, m) ts = Some ([], MDone raw v ms)" "st \<noteq> []"
    "follows q (map frame_state st) m s"
  shows "\<exists>ws. list_all jspace ws \<and> ends_at q s ws \<and> ((\<exists>vs. v = JArr vs) \<or> (\<exists>kvs. v = JObj kvs))"
  using assms
proof (induction ts arbitrary: s st m q)
  case (Cons tk us)
  obtain ws r tok u where tk: "tk = (ws, r, tok)" and t: "lex_token (dropWhile jspace s) = Some (tok, u)" "lex u = Some us"
      "dropWhile jspace s \<noteq> []"
    using Cons.prems(1) by (cases rule: lex_Some_cases) auto
  obtain st' m' where p: "jstep (add_raw ws st, m) ([], r, tok) = Some (st', m')" "jrun (st', m') us = Some ([], MDone raw v ms)"
    using Cons.prems(2) by (auto simp: tk jstep_space [of st m ws] bind_eq_Some_conv)
  have ne: "add_raw ws st \<noteq> []" using Cons.prems(3) by (cases "(ws, st)" rule: add_raw.cases) auto
  obtain q' where q': "reads q s (dropWhile jspace s) q'" "follows q' (map frame_state (add_raw ws st)) m (dropWhile jspace s)"
    using follows_space [OF Cons.prems(4)] Cons.prems(3) by auto
  have a: "advances q s u (st', m')"
    using advances_reads [OF q'(1) jstep_advances [OF q'(2) ne t(1) t(3) hd_dropWhile [OF t(3)] p(1)]] .
  show ?case
  proof (cases "st' = []")
    case True
    then obtain raw' v' ms' where e: "ends_at q s u" "m' = MDone raw' v' ms'" "(\<exists>vs. v' = JArr vs) \<or> (\<exists>kvs. v' = JObj kvs)"
      using a by (auto simp: advances_def)
    have "us = []" using p(2) by (cases us) (auto simp: e(2) True jstep_def bind_eq_Some_conv)
    then show ?thesis using e p(2) lex_Some_Nil [of u] t(2) True by auto
  next
    case False
    then obtain q'' where r: "reads q s u q''" "follows q'' (map frame_state st') m' u" using a by (auto simp: advances_def)
    from Cons.IH [OF t(2) p(2) False r(2)] show ?thesis using ends_at_reads [OF r(1)] by blast
  qed
qed simp

text \<open>White space before a value makes no difference to the parser.\<close>

lemma json_parse_space: "list_all jspace ws \<Longrightarrow> json_parse (ws @ s) = json_parse s"
proof -
  assume "list_all jspace ws"
  then have d: "dropWhile jspace (ws @ s) = dropWhile jspace s" by (simp add: list_all_iff)
  have first: "jstep ([], MValue) (w, r, tok) = begin_value [] r tok" for w r tok by (simp add: jstep_def)
  show ?thesis
    unfolding json_parse_def
    by (subst (1 2) lex.simps) (simp add: d Let_def Option.bind_map_option comp_def first split: option.split)
qed

text \<open>
  The scanner ends a container where the parser does, and nowhere before.
\<close>

definition container :: "json \<Rightarrow> bool" where
  "container v \<longleftrightarrow> (case v of JArr _ \<Rightarrow> True | JObj _ \<Rightarrow> True | _ \<Rightarrow> False)"

lemma scanner_follows_parser:
  assumes "json_parse s = Some (raw, v, ms)" "container v"
  shows "\<exists>ws. list_all jspace ws \<and> ends_at (stateBeginValue, []) s ws"
proof -
  obtain ts where ts: "lex s = Some ts" "jrun ([], MValue) ts = Some ([], MDone raw v ms)"
    using assms(1) by (auto simp: json_parse_def bind_eq_Some_conv split: option.splits list.splits jmode.splits)
  from ts(1) show ?thesis
  proof (cases rule: lex_Some_cases)
    case (2 ws r tok u us)
    let ?t = "dropWhile jspace s"
    obtain st m where p: "jstep ([], MValue) (ws, r, tok) = Some (st, m)" "jrun (st, m) us = Some ([], MDone raw v ms)"
      using ts(2) by (auto simp: 2(1) bind_eq_Some_conv)
    have space: "reads (stateBeginValue, []) s ?t (stateBeginValue, [])"
      by (rule reads_spaces) (simp add: begin_val_def)
    consider "tok = TLBrack" "st = [ArrF r []]" "m = MFirst" | "tok = TLBrace" "st = [ObjF r [] []]" "m = MKeyFirst" | "st = []"
      using p(1) by (cases tok) (auto simp: jstep_def)
    then show ?thesis
    proof cases
      case 1
      then have "?t = CHR ''['' # u" using lex_token_punct [OF 2(2)] by (auto simp: lex_punctuation_def split: if_splits)
      then have "reads (stateBeginValue, []) ?t u (stateBeginValueOrEmpty, [parseArrayValue])"
        using reads_quiet [of "(stateBeginValue, [])" "CHR ''[''" scanBeginArray _ u] by (simp add: begin_val_def jspace_def closes_def)
      with space have r: "reads (stateBeginValue, []) s u (stateBeginValueOrEmpty, [parseArrayValue])" by (rule reads_trans)
      from jrun_ends [OF 2(3) p(2)] show ?thesis using ends_at_reads [OF r] 1 by fastforce
    next
      case 2: 2
      then have "?t = CHR 0x7B # u" using lex_token_punct [OF \<open>lex_token ?t = Some (tok, u)\<close>] by (auto simp: lex_punctuation_def split: if_splits)
      then have "reads (stateBeginValue, []) ?t u (stateBeginStringOrEmpty, [parseObjectKey])"
        using reads_quiet [of "(stateBeginValue, [])" "CHR 0x7B" scanBeginObject _ u] by (simp add: begin_val_def jspace_def closes_def)
      with space have r: "reads (stateBeginValue, []) s u (stateBeginStringOrEmpty, [parseObjectKey])" by (rule reads_trans)
      from jrun_ends [OF \<open>lex u = Some us\<close> p(2)] show ?thesis using ends_at_reads [OF r] 2 by fastforce
    next
      case 3
      then have "\<not> container v"
        using p by (cases us; cases tok) (auto simp: jstep_def container_def bind_eq_Some_conv)
      then show ?thesis using assms(2) by simp
    qed
  qed (use ts(2) in simp)
qed

end
