(* ===== verification/Conn_Stream.thy ===== *)
theory Conn_Stream
  imports Test_Conn Go_Scanner
begin

text \<open>
  The connection as a stream of bytes. \<^verbatim>\<open>Receive\<close> of \<^verbatim>\<open>ovsdb/internal/jsonrpc/conn.go\<close> reads through
  \<^verbatim>\<open>json.Decoder\<close>, which collects what the reads of the connection return until its scanner has found the end
  of a value. The other theories take the texts of the values as the decoder's input; this one shows that
  nothing is lost by that, however the bytes are cut into reads.
\<close>

section \<open>The decoder on bytes\<close>

text \<open>
  The bytes read but not used, what the reads to come return (\<open>Text\<close> for some bytes, which need not be whole
  values), and the error the decoder stopped at.
\<close>

record byte_decoder =
  bd_buf :: string
  bd_reads :: "arrival list"
  bd_err :: "error option"

text \<open>
  \<^verbatim>\<open>readValue\<close>: \<open>seen\<close> are the bytes scanned so far. The end of the stream ends a number or a word at the top,
  and is otherwise an error. \<open>None\<close> if a read blocks.
\<close>

fun readValue :: "scanner \<Rightarrow> string \<Rightarrow> string \<Rightarrow> arrival list \<Rightarrow> ((error + string) \<times> string \<times> arrival list) option" where
  "readValue q seen (c # b) rs =
     (case scan_step q c of (v, q') \<Rightarrow>
        if v = scanEnd then Some (Inr seen, c # b, rs)
        else if closes v q' then Some (Inr (seen @ [c]), b, rs)
        else if v = scanError then Some (Inl ErrJSONSyntax, seen @ c # b, rs)
        else readValue q' (seen @ [c]) b rs)"
| "readValue q seen [] [] = None"
| "readValue q seen [] (Text s # rs) = readValue q seen s rs"
| "readValue q seen [] (ReadError e # rs) =
     (if e = ErrEOF \<and> fst (scan_step q CHR '' '') = scanEnd then Some (Inr seen, [], ReadError e # rs)
      else Some (Inl (if e = ErrEOF \<and> \<not> list_all jspace seen then ErrUnexpectedEOF else e), seen, rs))"

text \<open>\<^verbatim>\<open>Decode\<close>: errors of the decoding into the type are not kept, since the stream is still usable.\<close>

definition Decode_bytes :: "(json \<Rightarrow> jmembers \<Rightarrow> 'a result) \<Rightarrow> byte_decoder \<Rightarrow> ('a result \<times> byte_decoder) option" where
  "Decode_bytes into d =
     (case bd_err d of
        Some e \<Rightarrow> Some (Err e, d)
      | None \<Rightarrow>
          (case readValue (stateBeginValue, []) [] (bd_buf d) (bd_reads d) of
             None \<Rightarrow> None
           | Some (Inl e, b, rs) \<Rightarrow> Some (Err e, \<lparr>bd_buf = b, bd_reads = rs, bd_err = Some e\<rparr>)
           | Some (Inr s, b, rs) \<Rightarrow>
               Some (case json_parse s of None \<Rightarrow> Err ErrJSONSyntax | Some (_, v, ms) \<Rightarrow> into v ms,
                     \<lparr>bd_buf = b, bd_reads = rs, bd_err = None\<rparr>)))"

definition Receive_bytes :: "(string \<Rightarrow> bool) \<Rightarrow> byte_decoder \<Rightarrow> (Response result \<times> byte_decoder) option" where
  "Receive_bytes float_ok d =
     (case Decode_bytes (Response_decode float_ok) d of
        None \<Rightarrow> None
      | Some (r, d') \<Rightarrow> Some (case r of Err e \<Rightarrow> Err (if e = ErrEOF then e else ErrDecode e) | _ \<Rightarrow> r, d'))"

section \<open>Cutting the stream\<close>

definition flat :: "arrival list \<Rightarrow> (error + char) list" where
  "flat rs = concat (map (\<lambda>r. case r of Text s \<Rightarrow> map Inr s | ReadError e \<Rightarrow> [Inl e]) rs)"

lemma flat_simps [simp]:
  "flat [] = []" "flat (Text s # rs) = map Inr s @ flat rs" "flat (ReadError e # rs) = Inl e # flat rs"
  by (simp_all add: flat_def)

definition unread :: "string \<Rightarrow> arrival list \<Rightarrow> (error + char) list" where
  "unread b rs = map Inr b @ flat rs"

lemma unread_simps [simp]:
  "unread (c # b) rs = Inr c # unread b rs" "unread [] [] = []" "unread [] (Text s # rs) = unread s rs"
  "unread [] (ReadError e # rs) = Inl e # flat rs"
  by (simp_all add: unread_def)

lemma readValue_pass:
  assumes "pass q n = Some q'" "unread b rs = map Inr n @ rest"
  shows "\<exists>b' rs'. readValue q seen b rs = readValue q' (seen @ n) b' rs' \<and> unread b' rs' = rest"
  using assms
proof (induction q seen b rs arbitrary: n rule: readValue.induct)
  case (1 q seen c b rs)
  show ?case
  proof (cases n)
    case (Cons d m)
    obtain v q1 where v: "scan_step q c = (v, q1)" by (cases "scan_step q c")
    have d: "d = c" "unread b rs = map Inr m @ rest" using 1(3) Cons by auto
    have m: "v \<noteq> scanEnd" "v \<noteq> scanError" "\<not> closes v q1" "pass q1 m = Some q'"
      using 1(2) v unfolding Cons d(1) by (auto split: if_splits)
    have "readValue q seen (c # b) rs = readValue q1 (seen @ [c]) b rs" using v m(1-3) by simp
    then show ?thesis using 1(1) [OF v [symmetric] m(1,3,2,4) d(2)] by (simp add: Cons d(1))
  next
    case Nil
    then have "readValue q seen (c # b) rs = readValue q' (seen @ n) (c # b) rs" "unread (c # b) rs = rest"
      using 1(2,3) by simp_all
    then show ?thesis by blast
  qed
next
  case (2 q seen)
  then have "n = []" "unread [] [] = rest" "q' = q" by auto
  then show ?case by (metis append_Nil2)
next
  case (4 q seen e rs)
  then have "n = []" by (cases n) auto
  then show ?case using 4 by (auto simp del: readValue.simps intro!: exI)
qed (auto simp del: readValue.simps(1,4))

lemma readValue_close:
  assumes "scan_step q c = (v, q')" "closes v q'" "unread b rs = Inr c # rest"
  shows "\<exists>b' rs'. readValue q seen b rs = Some (Inr (seen @ [c]), b', rs') \<and> unread b' rs' = rest"
  using assms
proof (induction q seen b rs rule: readValue.induct)
  case (1 q seen d b rs)
  then show ?case by (auto simp: closes_def)
qed auto

lemma readValue_error:
  assumes "unread b rs = Inl e # rest" "fst (scan_step q CHR '' '') \<noteq> scanEnd" "list_all jspace seen"
  shows "\<exists>b' rs'. readValue q seen b rs = Some (Inl e, b', rs')"
  using assms by (induction q seen b rs rule: readValue.induct) auto

lemma readValue_blocks: "unread b rs = [] \<Longrightarrow> readValue q seen b rs = None"
  by (induction q seen b rs rule: readValue.induct) auto

section \<open>The decoder on bytes refines the decoder on texts\<close>

text \<open>
  A text that holds one object or array: after its last character comes only white space, which makes no
  difference to the parser. Every line the encoders write is one.
\<close>

definition framed_text :: "string \<Rightarrow> string \<Rightarrow> string \<Rightarrow> bool" where
  "framed_text t s ws \<longleftrightarrow> t = s @ ws \<and> list_all jspace ws \<and> s \<noteq> [] \<and> \<not> jspace (last s) \<and>
     json_parse s = json_parse t \<and> (\<exists>raw v ms. json_parse t = Some (raw, v, ms) \<and> container v)"

fun framed :: "arrival \<Rightarrow> bool" where
  "framed (Text t) \<longleftrightarrow> (\<exists>s ws. framed_text t s ws)"
| "framed (ReadError e) \<longleftrightarrow> True"

text \<open>
  The two decoders have stopped at the same error, or the bytes to come are those of the texts to come,
  after white space that is left of the value before.
\<close>

definition represents :: "byte_decoder \<Rightarrow> decoder \<Rightarrow> bool" where
  "represents bd d \<longleftrightarrow> bd_err bd = dec_err d \<and> list_all framed (dec_input d) \<and>
     (dec_err d = None \<longrightarrow>
        (\<exists>ws. list_all jspace ws \<and> unread (bd_buf bd) (bd_reads bd) = map Inr ws @ flat (dec_input d)))"

lemma pass_spaces: "list_all jspace ws \<Longrightarrow> pass (stateBeginValue, []) ws = Some (stateBeginValue, [])"
  by (induction ws) (auto simp: begin_val_def closes_def)

lemma framed_ends:
  assumes "framed_text t s ws"
  shows "\<exists>n c q v. s = n @ [c] \<and> pass (stateBeginValue, []) n = Some q \<and>
    scan_step q c = (v, stateEndTop, []) \<and> closes v (stateEndTop, [])"
proof -
  obtain u where u: "list_all jspace u" "ends_at (stateBeginValue, []) s u"
    using assms scanner_follows_parser [of s] by (auto simp: framed_text_def)
  then obtain n c q v where e: "s = n @ c # u" "pass (stateBeginValue, []) n = Some q"
      "scan_step q c = (v, stateEndTop, [])" "v \<in> {scanEndObject, scanEndArray}"
    by (auto simp: ends_at_def)
  have "u = []" using assms u(1) e(1) by (cases u rule: rev_cases) (auto simp: framed_text_def)
  moreover have "closes v (stateEndTop, [])" using e(4) by (auto simp: closes_def)
  ultimately show ?thesis using e by blast
qed

lemma readValue_framed:
  assumes "framed_text t s ws" "list_all jspace ws0" "unread b rs = map Inr ws0 @ map Inr t @ rest"
  shows "\<exists>b' rs'. readValue (stateBeginValue, []) [] b rs = Some (Inr (ws0 @ s), b', rs') \<and>
    unread b' rs' = map Inr ws @ rest"
proof -
  obtain n c q v where e: "s = n @ [c]" "pass (stateBeginValue, []) n = Some q"
      "scan_step q c = (v, stateEndTop, [])" "closes v (stateEndTop, [])"
    using framed_ends [OF assms(1)] by blast
  have t: "t = s @ ws" using assms(1) by (simp add: framed_text_def)
  have "pass (stateBeginValue, []) (ws0 @ n) = Some q" using e(2) pass_spaces [OF assms(2)] by (simp add: pass_append)
  then obtain b1 rs1 where "readValue (stateBeginValue, []) [] b rs = readValue q (ws0 @ n) b1 rs1"
      "unread b1 rs1 = Inr c # map Inr ws @ rest"
    using readValue_pass [of "(stateBeginValue, [])" "ws0 @ n" q b rs "Inr c # map Inr ws @ rest" "[]"] assms(3)
    by (auto simp: t e(1))
  then show ?thesis using readValue_close [OF e(3,4), of b1 rs1 "map Inr ws @ rest" "ws0 @ n"] by (simp add: e(1))
qed

lemma Decode_bytes_refines:
  assumes "represents bd d"
  shows "rel_option (\<lambda>(r, bd') (r', d'). r = r' \<and> represents bd' d') (Decode_bytes into bd) (Decode into d)"
proof (cases "dec_err d")
  case (Some e)
  then show ?thesis using assms by (simp add: Decode_bytes_def Decode_def represents_def)
next
  case None
  obtain ws0 where ws0: "list_all jspace ws0" "unread (bd_buf bd) (bd_reads bd) = map Inr ws0 @ flat (dec_input d)"
    and err: "bd_err bd = None" and fr: "list_all framed (dec_input d)"
    using assms None by (auto simp: represents_def)
  note dec = Decode_bytes_def Decode_def err None
  have "\<exists>b rs. readValue (stateBeginValue, []) [] (bd_buf bd) (bd_reads bd) = readValue (stateBeginValue, []) ws0 b rs \<and>
      unread b rs = flat (dec_input d)"
    using readValue_pass [OF pass_spaces [OF ws0(1)] ws0(2), of "[]"] by simp
  then obtain b rs where skip: "readValue (stateBeginValue, []) [] (bd_buf bd) (bd_reads bd) = readValue (stateBeginValue, []) ws0 b rs"
      "unread b rs = flat (dec_input d)" by blast
  show ?thesis
  proof (cases "dec_input d")
    case Nil
    then show ?thesis using skip readValue_blocks [of b rs] by (simp add: dec)
  next
    case (Cons a as)
    show ?thesis
    proof (cases a)
      case (ReadError e)
      have "fst (scan_step (stateBeginValue, []) CHR '' '') \<noteq> scanEnd" by (simp add: begin_val_def jspace_def)
      then obtain b' rs' where "readValue (stateBeginValue, []) ws0 b rs = Some (Inl e, b', rs')"
        using skip(2) readValue_error [of b rs e "flat as" "(stateBeginValue, [])" ws0] ws0(1) by (auto simp: Cons ReadError)
      then show ?thesis using skip(1) fr by (simp add: dec Cons ReadError represents_def)
    next
      case (Text t)
      then obtain s ws where f: "framed_text t s ws" using fr by (auto simp: Cons)
      obtain b' rs' where r: "readValue (stateBeginValue, []) [] (bd_buf bd) (bd_reads bd) = Some (Inr (ws0 @ s), b', rs')"
          "unread b' rs' = map Inr ws @ flat as"
        using readValue_framed [OF f ws0(1), of "bd_buf bd" "bd_reads bd" "flat as"] ws0(2) by (auto simp: Cons Text)
      obtain raw v ms where p: "json_parse t = Some (raw, v, ms)" "json_parse (ws0 @ s) = Some (raw, v, ms)"
        using f json_parse_space [OF ws0(1), of s] by (auto simp: framed_text_def)
      have "list_all jspace ws" using f by (simp add: framed_text_def)
      then show ?thesis using r p fr by (auto simp: dec Cons Text represents_def)
    qed
  qed
qed

text \<open>
  \<^verbatim>\<open>Receive\<close> does not depend on how the network cuts the bytes. If the bytes that the reads return are those
  of a sequence of texts that each hold one object or array (as every message does), with errors of the connection
  after any of them, then a call of \<^verbatim>\<open>Receive\<close> on the bytes blocks exactly when one on the texts does, returns the
  same message or error, and leaves the decoder so that this holds again.
\<close>

lemma Receive_bytes_refines:
  assumes "represents bd d"
  shows "rel_option (\<lambda>(r, bd') (r', d'). r = r' \<and> represents bd' d') (Receive_bytes float_ok bd) (Receive float_ok d)"
  using Decode_bytes_refines [OF assms, of "Response_decode float_ok"]
  by (auto simp: Receive_bytes_def Receive_Decode decode_error_def option.rel_map elim!: option.rel_cases split: result.split)

section \<open>A stream of messages\<close>

fun Receive_times :: "(string \<Rightarrow> bool) \<Rightarrow> nat \<Rightarrow> byte_decoder \<Rightarrow> (Response result list \<times> byte_decoder) option" where
  "Receive_times float_ok 0 d = Some ([], d)"
| "Receive_times float_ok (Suc n) d =
     (case Receive_bytes float_ok d of
        None \<Rightarrow> None
      | Some (r, d') \<Rightarrow> map_option (\<lambda>(rs, d''). (r # rs, d'')) (Receive_times float_ok n d'))"

lemma framed_line:
  assumes "wf_json v" "container v"
  shows "framed (Text (json_text v @ [CHR 0x0A]))"
proof -
  have "json_text v \<noteq> []" "\<not> jspace (last (json_text v))"
    using assms(2) by (cases v; simp add: container_def jspace_def)+
  moreover have "json_parse (json_text v) = json_parse (json_text v @ [CHR 0x0A])"
    using json_parse_text [OF assms(1)] by (metis append_Nil2)
  moreover have "container (normal_json v)" using assms(2) by (cases v) (auto simp: container_def)
  ultimately have "framed_text (json_text v @ [CHR 0x0A]) (json_text v) [CHR 0x0A]"
    using json_parse_text [OF assms(1), of "[CHR 0x0A]"] by (simp add: framed_text_def jspace_def)
  then show ?thesis by auto
qed

text \<open>A message: identifier, result, error, method and parameters; what it takes to be sent and understood.\<close>

type_synonym message = "string option \<times> json option \<times> json option \<times> string \<times> json option"

fun sendable :: "(string \<Rightarrow> bool) \<Rightarrow> message \<Rightarrow> bool" where
  "sendable float_ok (i, res, err, m, par) \<longleftrightarrow>
     list_all wf_json (List.map_filter (\<lambda>x. x) [res, err, par]) \<and>
     (case err of None \<Rightarrow> True | Some v \<Rightarrow> v \<noteq> JNull \<and> list_all float_ok (json_numbers (normal_json v)))"

fun message_response :: "message \<Rightarrow> Response" where
  "message_response (i, res, err, m, par) = response_of i res err m par"

fun message_received :: "message \<Rightarrow> Response" where
  "message_received (i, res, err, m, par) = received_response i res err m par"

lemma message_line:
  assumes "sendable float_ok msg"
  shows "\<exists>t. Response_Marshal (message_response msg) = Ok t \<and> framed (Text (t @ [CHR 0x0A])) \<and>
    (\<forall>rest. Receive float_ok \<lparr>dec_input = Text (t @ [CHR 0x0A]) # rest, dec_err = None\<rparr> =
      Some (Ok (message_received msg), \<lparr>dec_input = rest, dec_err = None\<rparr>))"
proof -
  obtain i res err m par where msg: "msg = (i, res, err, m, par)" by (cases msg) auto
  have wf: "\<forall>v \<in> set_option res \<union> set_option err \<union> set_option par. wf_json v"
    using assms by (cases res; cases err; cases par) (auto simp: msg List.map_filter_def)
  have err: "\<forall>v \<in> set_option err. v \<noteq> JNull \<and> list_all float_ok (json_numbers (normal_json v))"
    using assms by (auto simp: msg)
  let ?v = "JObj (response_values i res err m par)"
  have "wf_json ?v" using wf by (cases i; cases res; cases err; cases par) (auto simp: response_values_def)
  then have "framed (Text (json_text ?v @ [CHR 0x0A]))" by (rule framed_line) (simp add: container_def)
  moreover have "Response_Marshal (response_of i res err m par) = Ok (json_text ?v)"
    using wf by (intro Response_Marshal_text) auto
  ultimately show ?thesis using response_arrives [OF wf err, of i m] by (simp add: msg)
qed

lemma Receive_messages:
  assumes "list_all (sendable float_ok) msgs" "concat chunks = concat (map (\<lambda>msg. printed_line (message_response msg)) msgs)"
  shows "\<exists>d. Receive_times float_ok (length msgs) \<lparr>bd_buf = [], bd_reads = map Text chunks, bd_err = None\<rparr> =
    Some (map (\<lambda>msg. Ok (message_received msg)) msgs, d)"
proof -
  have lines: "\<exists>d. Receive_times float_ok (length msgs) bd = Some (map (\<lambda>msg. Ok (message_received msg)) msgs, d)"
    if "represents bd \<lparr>dec_input = map (\<lambda>msg. Text (printed_line (message_response msg))) msgs, dec_err = None\<rparr>"
      "list_all (sendable float_ok) msgs" for bd msgs
    using that
  proof (induction msgs arbitrary: bd)
    case (Cons msg msgs)
    obtain t where t: "Response_Marshal (message_response msg) = Ok t" "\<And>rest. Receive float_ok
        \<lparr>dec_input = Text (t @ [CHR 0x0A]) # rest, dec_err = None\<rparr> =
        Some (Ok (message_received msg), \<lparr>dec_input = rest, dec_err = None\<rparr>)"
      using Cons.prems(2) message_line [of float_ok msg] by auto
    then have l: "printed_line (message_response msg) = t @ [CHR 0x0A]" by (simp add: printed_line_def)
    let ?ls = "map (\<lambda>msg. Text (printed_line (message_response msg))) msgs"
    have "rel_option (\<lambda>(r, bd') (r', d'). r = r' \<and> represents bd' d') (Receive_bytes float_ok bd)
        (Some (Ok (message_received msg), \<lparr>dec_input = ?ls, dec_err = None\<rparr>))"
      using Receive_bytes_refines [OF Cons.prems(1), of float_ok] t(2) by (simp only: list.map l)
    then obtain bd' where r: "Receive_bytes float_ok bd = Some (Ok (message_received msg), bd')"
        "represents bd' \<lparr>dec_input = ?ls, dec_err = None\<rparr>"
      by (cases "Receive_bytes float_ok bd") auto
    obtain d where "Receive_times float_ok (length msgs) bd' = Some (map (\<lambda>msg. Ok (message_received msg)) msgs, d)"
      using Cons.IH [OF r(2)] Cons.prems(2) by auto
    then show ?case by (simp add: r(1))
  qed simp
  have "framed (Text (printed_line (message_response msg)))" if "sendable float_ok msg" for msg
    using message_line [OF that] by (auto simp: printed_line_def simp del: framed.simps)
  then have "list_all framed (map (\<lambda>msg. Text (printed_line (message_response msg))) msgs)"
    using assms(1) by (auto simp: list_all_iff simp del: framed.simps)
  moreover have "flat (map Text cs) = map Inr (concat cs)" for cs by (induction cs) simp_all
  moreover have "flat (map (\<lambda>msg. Text (f msg)) ms) = map Inr (concat (map f ms))" for f :: "message \<Rightarrow> string" and ms
    by (induction ms) simp_all
  ultimately have "represents \<lparr>bd_buf = [], bd_reads = map Text chunks, bd_err = None\<rparr>
      \<lparr>dec_input = map (\<lambda>msg. Text (printed_line (message_response msg))) msgs, dec_err = None\<rparr>"
    by (auto simp: represents_def unread_def assms(2) intro!: exI [of _ "[]"])
  then show ?thesis using lines assms(1) by blast
qed

text \<open>
  C14: messages cross the network whole and in order. The server's encoder writes each message on a line; whatever
  pieces the bytes of these lines arrive in (a piece may end within a message, within a string or an escape, or
  hold several messages), the calls of \<^verbatim>\<open>Receive\<close> return exactly these messages, one each, without waiting for
  a byte after the last.
\<close>

theorem Receive_stream:
  assumes "list_all (sendable float_ok) msgs" "concat chunks = concat (map (\<lambda>msg. printed_line (message_response msg)) msgs)"
  shows "\<exists>d. Receive_times float_ok (length msgs) \<lparr>bd_buf = [], bd_reads = map Text chunks, bd_err = None\<rparr> =
    Some (map (\<lambda>msg. Ok (message_received msg)) msgs, d)"
  using assms by (rule Receive_messages)

text \<open>A reply and a notification, cut within the reply's identifier and within the notification's method.\<close>

definition sample_messages :: "message list" where
  "sample_messages = [(Some ''12'', Some (JArr [JStr ''a b'']), None, [], None), (None, None, None, ''update'', Some JNull)]"

definition sample_bytes :: string where
  "sample_bytes = concat (map (\<lambda>msg. printed_line (message_response msg)) sample_messages)"

theorem Receive_stream_witness:
  "\<exists>d. Receive_times (\<lambda>_. True) (length sample_messages)
      \<lparr>bd_buf = [], bd_reads = map Text [take 8 sample_bytes, take 70 (drop 8 sample_bytes), drop 78 sample_bytes], bd_err = None\<rparr> =
    Some (map (\<lambda>msg. Ok (message_received msg)) sample_messages, d)"
proof -
  have c: "concat [take 8 sample_bytes, take 70 (drop 8 sample_bytes), drop 78 sample_bytes] = sample_bytes"
    using append_take_drop_id [of 70 "drop 8 sample_bytes"] by simp
  have "list_all (sendable (\<lambda>_. True)) sample_messages" by code_simp
  from Receive_stream [OF this c [unfolded sample_bytes_def], folded sample_bytes_def] show ?thesis .
qed

section \<open>A stream that ends within a message\<close>

text \<open>
  A scanner that would take a space for the end of the value is in or after a number or a word at the top. From
  there it does not get into a container.
\<close>

fun scalar :: "scanner \<Rightarrow> bool" where
  "scalar (s, stk) \<longleftrightarrow> s = stateEndTop \<or>
     stk = [] \<and> s \<notin> {stateBeginValue, stateBeginValueOrEmpty, stateBeginStringOrEmpty, stateBeginString}"

lemma end_value_End: "fst (end_value stk c) = scanEnd \<longleftrightarrow> stk = []"
  by (simp add: end_value_def split: list.split parse_state.split)

lemma ends_scalar: "fst (scan_step q CHR '' '') = scanEnd \<Longrightarrow> scalar q"
  by (cases q; cases "fst q")
    (auto simp: begin_val_def begin_string_def jspace_def end_value_End after_int_def exp_digit_def split: if_splits)

lemma scalar_step:
  assumes "scalar q" "scan_step q c = (v, q')" "v \<noteq> scanEnd" "v \<noteq> scanError"
  shows "scalar q' \<and> v \<notin> {scanEndObject, scanEndArray}"
  using assms
  by (cases q; cases "fst q") (auto simp: end_value_def after_int_def exp_digit_def split: if_splits)

lemma scalar_pass: "scalar q \<Longrightarrow> pass q n = Some q' \<Longrightarrow> scalar q'"
proof (induction n arbitrary: q)
  case (Cons c n)
  obtain v q1 where v: "scan_step q c = (v, q1)" by (cases "scan_step q c")
  then have "v \<noteq> scanEnd" "v \<noteq> scanError" "pass q1 n = Some q'" using Cons.prems(2) by (auto split: if_splits)
  then show ?case using Cons.IH scalar_step [OF Cons.prems(1) v] by blast
qed simp

lemma framed_inside:
  assumes "framed_text t s ws" "s = p @ rest" "rest \<noteq> []"
  shows "\<exists>q. pass (stateBeginValue, []) p = Some q \<and> fst (scan_step q CHR '' '') \<noteq> scanEnd"
proof -
  obtain n c q v where e: "s = n @ [c]" "pass (stateBeginValue, []) n = Some q"
      "scan_step q c = (v, stateEndTop, [])" "closes v (stateEndTop, [])"
    using framed_ends [OF assms(1)] by blast
  obtain m where m: "n = p @ m" using e(1) assms(2,3) by (metis append_butlast_last_id butlast_append butlast_snoc)
  then obtain q1 where q1: "pass (stateBeginValue, []) p = Some q1" "pass q1 m = Some q"
    using e(2) by (auto simp: pass_append bind_eq_Some_conv)
  have "v \<in> {scanEndObject, scanEndArray}" using e(4) by (auto simp: closes_def)
  then have "\<not> scalar q" using scalar_step [OF _ e(3)] by auto
  then have "\<not> scalar q1" using scalar_pass q1(2) by blast
  then show ?thesis using q1(1) ends_scalar by blast
qed

text \<open>The rounds of \<^verbatim>\<open>listen\<close> on the bytes of the connection.\<close>

fun listen_bytes :: "(error \<Rightarrow> string) \<Rightarrow> (string \<Rightarrow> bool) \<Rightarrow> nat \<Rightarrow> byte_decoder \<Rightarrow> action list" where
  "listen_bytes et float_ok 0 d = []"
| "listen_bytes et float_ok (Suc n) d =
     (case Receive_bytes float_ok d of
        None \<Rightarrow> []
      | Some (r, d') \<Rightarrow>
          let a = listen_action et r in
          if a = Stop \<or> a = Crash then [a] else a # listen_bytes et float_ok n d')"

lemma listen_bytes_rounds:
  "represents bd d \<Longrightarrow> listen_bytes et float_ok n bd = listen_rounds et float_ok n d"
proof (induction n arbitrary: bd d)
  case (Suc n)
  from Receive_bytes_refines [OF Suc.prems, of float_ok] Suc.IH show ?case
    by (cases rule: option.rel_cases) (auto simp: Let_def)
qed simp

text \<open>
  C35: a server that dies while it sends leaves the client spinning. If the connection ends within a message (after
  some of its characters other than white space and before its last), \<^verbatim>\<open>Receive\<close> does not return \<^verbatim>\<open>io.EOF\<close>: \<^verbatim>\<open>listen\<close>
  does not take the error for the end of the connection, and every further round gets the same error and is skipped.
  Wherever the message is cut, and in whatever pieces its bytes come, the loop never ends.
\<close>

theorem listen_truncated_spins:
  assumes "framed_text t s ws" "s = p @ rest" "rest \<noteq> []" "\<not> list_all jspace p" "concat chunks = p"
    "\<not> Contains (et (ErrDecode ErrUnexpectedEOF)) closed_text"
  shows "listen_bytes et float_ok n
      \<lparr>bd_buf = [], bd_reads = map Text chunks @ [ReadError ErrEOF], bd_err = None\<rparr> = replicate n Skip"
proof -
  have sticky: "listen_bytes et float_ok m \<lparr>bd_buf = b, bd_reads = rs, bd_err = Some ErrUnexpectedEOF\<rparr> = replicate m Skip" for b rs m
    using assms(6) by (induction m) (simp_all add: Receive_bytes_def Decode_bytes_def listen_action_def isClosedNetwork_def)
  obtain q where q: "pass (stateBeginValue, []) p = Some q" "fst (scan_step q CHR '' '') \<noteq> scanEnd"
    using framed_inside [OF assms(1-3)] by blast
  have "unread [] (map Text cs @ [ReadError e]) = map Inr (concat cs) @ [Inl e]" for cs e
    by (induction cs) (simp_all add: unread_def)
  then have "unread [] (map Text chunks @ [ReadError ErrEOF]) = map Inr p @ [Inl ErrEOF]" by (simp add: assms(5))
  from readValue_pass [OF q(1) this, of "[]"] obtain b rs where
    r: "readValue (stateBeginValue, []) [] [] (map Text chunks @ [ReadError ErrEOF]) = readValue q p b rs" "unread b rs = [Inl ErrEOF]"
    by auto
  have "\<exists>b' rs'. readValue q p b rs = Some (Inl ErrUnexpectedEOF, b', rs')"
    using r(2) q(2) assms(4) by (induction q p b rs rule: readValue.induct) auto
  then obtain b' rs' where "Receive_bytes float_ok \<lparr>bd_buf = [], bd_reads = map Text chunks @ [ReadError ErrEOF], bd_err = None\<rparr> =
      Some (Err (ErrDecode ErrUnexpectedEOF), \<lparr>bd_buf = b', bd_reads = rs', bd_err = Some ErrUnexpectedEOF\<rparr>)"
    using r(1) by (auto simp: Receive_bytes_def Decode_bytes_def)
  then show ?thesis
    using assms(6) sticky by (cases n) (simp_all add: listen_action_def isClosedNetwork_def)
qed

theorem listen_truncated_spins_witness:
  "listen_bytes (\<lambda>_. ''unexpected EOF'') (\<lambda>_. True) 100
     \<lparr>bd_buf = [], bd_reads = map Text [take 8 sample_bytes, take 9 (drop 8 sample_bytes)] @ [ReadError ErrEOF], bd_err = None\<rparr> =
   replicate 100 Skip"
proof -
  let ?s = "take 41 sample_bytes"
  let ?p = "take 8 sample_bytes @ take 9 (drop 8 sample_bytes)"
  have s: "?s = ?p @ drop 17 ?s" "drop 17 ?s \<noteq> []" "\<not> list_all jspace ?p" by code_simp+
  have "framed_text ?s ?s []"
    unfolding framed_text_def by (intro conjI exI [of _ "fst (the (json_parse ?s))"] exI [of _ "fst (snd (the (json_parse ?s)))"]
      exI [of _ "snd (snd (the (json_parse ?s)))"]) code_simp+
  from listen_truncated_spins [OF this s, of "[take 8 sample_bytes, take 9 (drop 8 sample_bytes)]" "\<lambda>_. ''unexpected EOF''"]
  show ?thesis by (simp add: Contains_def closed_text_def)
qed

end
