(* ===== verification/Close_Returns.thy ===== *)
theory Close_Returns imports Ovsdb_Close Conn_Stream Error_Texts begin

text \<open>
  \<^verbatim>\<open>Close\<close> of the OVSDB client in infinite runs. The client is refined here by the decoder of its connection, with the
  error it may have stopped at, and by the goroutine of \<^verbatim>\<open>EchoInterval\<close>; every move is a step of \<open>Ovsdb_Client\<close> or leaves
  the client as it is. \<open>Ovsdb_Close\<close> shows that there is a way to the end of \<^verbatim>\<open>Close\<close>; here the goroutines are only assumed to be
  scheduled fairly, and it is shown when they end.
\<close>

section \<open>The goroutines of a client\<close>

text \<open>
  The client together with the decoder of its connection, which only the listener uses, and the goroutine of
  \<^verbatim>\<open>EchoInterval\<close>, if there is one: waiting for its ticker, or offering an echo to the echo loop.
\<close>

datatype ticker = NoTicker | Ticking | TickOffer | TickStopped

record live_client =
  cl :: client
  conn :: byte_decoder
  tick_at :: ticker

datatype client_goroutine = Listener | EchoLoop | Ticker | Caller nat

text \<open>What \<^verbatim>\<open>listen\<close> does with the result of \<^verbatim>\<open>Receive\<close>; \<open>None\<close> if it cannot go on in \<^verbatim>\<open>doCallback\<close>.\<close>

definition handled :: "bool \<Rightarrow> action \<Rightarrow> client \<Rightarrow> client option" where
  "handled pick a c =
     (case a of
        Stop \<Rightarrow> Some (c\<lparr>listen_at := Stopped\<rparr>)
      | Skip \<Rightarrow> Some c
      | OfferEcho \<Rightarrow> Some (c\<lparr>listen_at := Offering\<rparr>)
      | Crash \<Rightarrow> Some (c\<lparr>listen_at := Crashed\<rparr>)
      | Callback i r \<Rightarrow>
          (case doCallback pick i r c of
             Some (Ok c') \<Rightarrow> Some (c'\<lparr>received := insert (i, r) (received c')\<rparr>)
           | _ \<Rightarrow> None))"

text \<open>The echo loop takes what is offered on its channel: it ends if the context is cancelled, else it calls \<^verbatim>\<open>Echo\<close>.\<close>

definition echo_taken :: "nat \<Rightarrow> client \<Rightarrow> client option" where
  "echo_taken k c =
     (if echo_at c \<noteq> Idle then None
      else if closing c then Some (c\<lparr>echo_at := Ended\<rparr>)
      else if phases c k = Unused \<and> \<not> cancelled c k then Some (c\<lparr>echo_at := InCall k\<rparr>)
      else None)"

text \<open>
  The moves of the goroutines, with those that take part in each. A call of \<^verbatim>\<open>rpc\<close> that the echo loop made runs in the
  echo loop.
\<close>

inductive moves :: "(error \<Rightarrow> string) \<Rightarrow> (string \<Rightarrow> bool) \<Rightarrow> client_goroutine set \<Rightarrow> live_client \<Rightarrow> live_client \<Rightarrow> bool"
  for et float_ok where
  call: "step (cl s) c \<Longrightarrow> phases c k \<noteq> phases (cl s) k \<Longrightarrow>
    moves et float_ok {if echo_at (cl s) = InCall k then EchoLoop else Caller k} s (s\<lparr>cl := c\<rparr>)"
| receive: "listen_at (cl s) = Reading \<Longrightarrow> Receive_bytes float_ok (conn s) = Some (r, d) \<Longrightarrow>
    handled pick (listen_action et r) (cl s) = Some c \<Longrightarrow> moves et float_ok {Listener} s (s\<lparr>cl := c, conn := d\<rparr>)"
| drop_offer: "listen_at (cl s) = Offering \<Longrightarrow> closing (cl s) \<Longrightarrow>
    moves et float_ok {Listener} s (s\<lparr>cl := (cl s)\<lparr>listen_at := Reading\<rparr>\<rparr>)"
| offer_taken: "listen_at (cl s) = Offering \<Longrightarrow> echo_taken k (cl s) = Some c \<Longrightarrow>
    moves et float_ok {Listener, EchoLoop} s (s\<lparr>cl := c\<lparr>listen_at := Reading\<rparr>\<rparr>)"
| tick: "tick_at s = Ticking \<Longrightarrow>
    moves et float_ok {Ticker} s (s\<lparr>tick_at := if closing (cl s) then TickStopped else TickOffer\<rparr>)"
| tick_taken: "tick_at s = TickOffer \<Longrightarrow> echo_taken k (cl s) = Some c \<Longrightarrow>
    moves et float_ok {Ticker, EchoLoop} s (s\<lparr>cl := c, tick_at := Ticking\<rparr>)"
| tick_done: "tick_at s = Ticking \<or> tick_at s = TickOffer \<Longrightarrow> closing (cl s) \<Longrightarrow>
    moves et float_ok {Ticker} s (s\<lparr>tick_at := TickStopped\<rparr>)"
| echo_done: "echo_at (cl s) = InCall k \<Longrightarrow> phases (cl s) k = Done i out \<Longrightarrow>
    moves et float_ok {EchoLoop} s (s\<lparr>cl := echo_counted et (echo_result out) (cl s)\<rparr>)"
| echo_ends: "echo_at (cl s) = Idle \<Longrightarrow> closing (cl s) \<Longrightarrow>
    moves et float_ok {EchoLoop} s (s\<lparr>cl := (cl s)\<lparr>echo_at := Ended\<rparr>\<rparr>)"

inductive_cases movesE: "moves et float_ok G s s'"

text \<open>
  \<^verbatim>\<open>Close\<close> closes the connection: of what the network has brought, only what a \<^verbatim>\<open>Receive\<close> under way has already read
  is still there, then comes the error of the closed connection.
\<close>

definition closed_conn :: "error \<Rightarrow> nat \<Rightarrow> byte_decoder \<Rightarrow> byte_decoder" where
  "closed_conn e n d = d\<lparr>bd_reads := take n (bd_reads d) @ [ReadError e]\<rparr>"

text \<open>\<^verbatim>\<open>wg.Wait\<close> returns when every goroutine of the client has ended. A panic in one ends the program.\<close>

definition wg_done :: "live_client \<Rightarrow> bool" where
  "wg_done s \<longleftrightarrow> listen_at (cl s) = Stopped \<and> echo_at (cl s) = Ended \<and> tick_at s \<in> {NoTicker, TickStopped}"

definition crashed :: "live_client \<Rightarrow> bool" where
  "crashed s \<longleftrightarrow> listen_at (cl s) = Crashed \<or> echo_at (cl s) = EchoCrashed"

text \<open>Every move is a step of the client, or leaves it as it is: what holds in every state of the client holds here.\<close>

lemma handled_step:
  assumes "listen_at c = Reading" "handled pick (listen_action et r) c = Some c'"
  shows "c' = c \<or> step c c'"
  using assms step.stop [of c et r] step.offer [of c et r] step.crash [of c et r] step.deliver [of c et r]
  by (auto simp: handled_def split: action.splits option.splits result.splits)

lemma echo_taken_Some:
  "echo_taken k c = Some c' \<longleftrightarrow> echo_at c = Idle \<and>
     (closing c \<and> c' = c\<lparr>echo_at := Ended\<rparr> \<or>
      \<not> closing c \<and> phases c k = Unused \<and> \<not> cancelled c k \<and> c' = c\<lparr>echo_at := InCall k\<rparr>)"
  by (auto simp: echo_taken_def)

lemma places_commute: "c\<lparr>echo_at := a, listen_at := b\<rparr> = (c\<lparr>listen_at := b, echo_at := a\<rparr> :: client)"
  by simp

lemma moves_step:
  assumes "moves et float_ok G s s'"
  shows "cl s' = cl s \<or> step (cl s) (cl s')"
  using assms
proof cases
  case (receive r d pick c)
  then show ?thesis using handled_step by simp
next
  case (offer_taken k c)
  then show ?thesis
    using step.hand_over [of "cl s" k] step.hand_over_late [of "cl s"]
    by (cases "closing (cl s)") (simp_all add: echo_taken_Some places_commute)
next
  case (tick_taken k c)
  then show ?thesis using step.tick [of "cl s" k] step.end_echo [of "cl s"]
    by (cases "closing (cl s)") (simp_all add: echo_taken_Some)
next
  case (drop_offer)
  then show ?thesis by (simp add: step.drop_offer)
next
  case (echo_done k i out)
  then show ?thesis using step.echo_done [of "cl s" k i out et] by simp
next
  case echo_ends
  then show ?thesis by (simp add: step.end_echo)
qed simp_all

section \<open>What the listener still reads\<close>

text \<open>
  Messages, the last of which may be cut anywhere, or after the last of which the server has closed the connection:
  not bytes that are no JSON, and not an end of the stream within a message.
\<close>

inductive clean :: "(error + char) list \<Rightarrow> bool" where
  empty: "clean []"
| ended: "clean (Inl ErrEOF # u)"
| cut: "framed_text t s ws \<Longrightarrow> s = p @ q \<Longrightarrow> clean (map Inr p)"
| message: "framed_text t s ws \<Longrightarrow> clean u \<Longrightarrow> clean (map Inr s @ u)"
| space: "jspace c \<Longrightarrow> clean u \<Longrightarrow> clean (Inr c # u)"

lemma clean_prefix:
  assumes "clean u" "u = v @ w"
  shows "clean v"
  using assms
proof (induction arbitrary: v w)
  case (ended u)
  then show ?case by (cases v) (auto intro: clean.intros)
next
  case (cut t s ws p q)
  then obtain p' where "v = map Inr p'" "\<exists>r. p = p' @ r" by (metis map_eq_append_conv)
  then show ?case using clean.cut [OF cut(1)] cut(2) by auto
next
  case (message t s ws u)
  from message.prems consider w' where "v = map Inr s @ w'" "u = w' @ w" | w' where "map Inr s = v @ w'"
    by (auto simp: append_eq_append_conv2)
  then show ?case
  proof cases
    case 1
    then show ?thesis using clean.message [OF message(1)] message.IH by blast
  next
    case 2
    then obtain p r where "s = p @ r" "v = map Inr p" by (metis map_eq_append_conv)
    then show ?thesis using clean.cut [OF message(1)] by blast
  qed
next
  case (space c u)
  then show ?case by (cases v) (auto intro: clean.intros)
qed (auto intro: clean.intros)

text \<open>A read of the next value on such bytes gets a value, and then the rest is such again, or an end of the connection.\<close>

definition read_ends :: "error \<Rightarrow> (error + char) list \<Rightarrow> (error + string) \<Rightarrow> (error + char) list \<Rightarrow> bool" where
  "read_ends e u r u' \<longleftrightarrow> r = Inl e \<or> r = Inl ErrEOF \<or>
     (\<exists>x v rest. r = Inr x \<and> clean v \<and> u' = v @ Inl e # rest \<and> length u' < length u)"

lemma begin_not_end: "fst (scan_step (stateBeginValue, []) CHR '' '') \<noteq> scanEnd"
  by (simp add: begin_val_def jspace_def)

lemma readValue_cut:
  assumes "unread b rs = Inl e # rest" "fst (scan_step q CHR '' '') \<noteq> scanEnd" "e \<noteq> ErrEOF"
  shows "\<exists>b' rs'. readValue q seen b rs = Some (Inl e, b', rs')"
  using assms by (induction q seen b rs rule: readValue.induct) auto

lemma readValue_message:
  assumes "framed_text t s ws" "unread b rs = map Inr s @ rest"
  shows "\<exists>x b' rs'. readValue (stateBeginValue, []) seen b rs = Some (Inr x, b', rs') \<and> unread b' rs' = rest"
proof -
  obtain n c q v where e: "s = n @ [c]" "pass (stateBeginValue, []) n = Some q"
      "scan_step q c = (v, stateEndTop, [])" "closes v (stateEndTop, [])"
    using framed_ends [OF assms(1)] by blast
  obtain b1 rs1 where "readValue (stateBeginValue, []) seen b rs = readValue q (seen @ n) b1 rs1"
      "unread b1 rs1 = Inr c # rest"
    using readValue_pass [OF e(2), of b rs "Inr c # rest" seen] assms(2) by (auto simp: e(1))
  then show ?thesis using readValue_close [OF e(3,4), of b1 rs1 rest "seen @ n"] by auto
qed

lemma readValue_clean:
  assumes "clean u" "unread b rs = u @ Inl e # rest" "e \<noteq> ErrEOF" "list_all jspace seen"
  shows "\<exists>r b' rs'. readValue (stateBeginValue, []) seen b rs = Some (r, b', rs') \<and>
    read_ends e (unread b rs) r (unread b' rs')"
  using assms
proof (induction arbitrary: b rs seen)
  case empty
  then have "\<exists>b' rs'. readValue (stateBeginValue, []) seen b rs = Some (Inl e, b', rs')"
    using readValue_error [OF _ begin_not_end] by simp
  then show ?case by (auto simp: read_ends_def)
next
  case (ended u)
  then have "\<exists>b' rs'. readValue (stateBeginValue, []) seen b rs = Some (Inl ErrEOF, b', rs')"
    using readValue_error [OF _ begin_not_end] by simp
  then show ?case by (auto simp: read_ends_def)
next
  case (cut t s ws p q)
  show ?case
  proof (cases "q = []")
    case True
    from readValue_message [OF cut(1), of b rs "Inl e # rest" seen] cut(2,3) True
    obtain x b' rs' where "readValue (stateBeginValue, []) seen b rs = Some (Inr x, b', rs')" "unread b' rs' = Inl e # rest" by auto
    moreover have "p \<noteq> []" using cut(1,2) True by (simp add: framed_text_def)
    ultimately show ?thesis using clean.empty cut(3) by (fastforce simp: read_ends_def)
  next
    case False
    obtain st where st: "pass (stateBeginValue, []) p = Some st" "fst (scan_step st CHR '' '') \<noteq> scanEnd"
      using framed_inside [OF cut(1,2) False] by blast
    obtain b1 rs1 where "readValue (stateBeginValue, []) seen b rs = readValue st (seen @ p) b1 rs1" "unread b1 rs1 = Inl e # rest"
      using readValue_pass [OF st(1) cut(3)] by blast
    then show ?thesis using readValue_cut [OF _ st(2) cut(4), of b1 rs1 rest "seen @ p"] by (auto simp: read_ends_def)
  qed
next
  case (message t s ws u)
  from readValue_message [OF message(1), of b rs "u @ Inl e # rest" seen] message(4)
  obtain x b' rs' where "readValue (stateBeginValue, []) seen b rs = Some (Inr x, b', rs')" "unread b' rs' = u @ Inl e # rest" by auto
  moreover have "s \<noteq> []" using message(1) by (simp add: framed_text_def)
  ultimately show ?case using message(2,4) by (auto simp: read_ends_def)
next
  case (space c u)
  have "pass (stateBeginValue, []) [c] = Some (stateBeginValue, [])" using pass_spaces [of "[c]"] space(1) by simp
  from readValue_pass [OF this, of b rs "u @ Inl e # rest" seen] space(4)
  obtain b1 rs1 where b1: "readValue (stateBeginValue, []) seen b rs = readValue (stateBeginValue, []) (seen @ [c]) b1 rs1"
      "unread b1 rs1 = u @ Inl e # rest" by auto
  with space.IH [OF b1(2) space(5), of "seen @ [c]"] space(1,6) obtain r b' rs' where
    "readValue (stateBeginValue, []) (seen @ [c]) b1 rs1 = Some (r, b', rs')" "read_ends e (unread b1 rs1) r (unread b' rs')"
    by auto
  then show ?case using b1 space(4) by (auto simp: read_ends_def)
qed

definition readable_conn :: "error \<Rightarrow> byte_decoder \<Rightarrow> bool" where
  "readable_conn e d \<longleftrightarrow> bd_err d = None \<and> (\<exists>u rest. clean u \<and> unread (bd_buf d) (bd_reads d) = u @ Inl e # rest)"

abbreviation left :: "byte_decoder \<Rightarrow> nat" where
  "left d \<equiv> length (unread (bd_buf d) (bd_reads d))"

lemma closed_text_decode:
  assumes "Contains (error_text p base e) closed_text"
  shows "isClosedNetwork (error_text p base) (Some (ErrDecode e))"
  using Contains_append [OF assms, of "''failed to decode JSON-RPC response: ''"] by (simp add: isClosedNetwork_def)

lemma receive_clean:
  assumes "readable_conn e d" "e \<noteq> ErrEOF" "Contains (error_text p base e) closed_text"
  shows "\<exists>r d'. Receive_bytes float_ok d = Some (r, d') \<and>
    (listen_action (error_text p base) r = Stop \<or> readable_conn e d' \<and> left d' < left d)"
proof -
  obtain u rest where u: "bd_err d = None" "clean u" "unread (bd_buf d) (bd_reads d) = u @ Inl e # rest"
    using assms(1) by (auto simp: readable_conn_def)
  from readValue_clean [OF u(2,3) assms(2), of "[]"] obtain r b rs where
    r: "readValue (stateBeginValue, []) [] (bd_buf d) (bd_reads d) = Some (r, b, rs)"
      "read_ends e (unread (bd_buf d) (bd_reads d)) r (unread b rs)" by auto
  from r(2) consider "r = Inl e" | "r = Inl ErrEOF" | x where "r = Inr x"
      "readable_conn e \<lparr>bd_buf = b, bd_reads = rs, bd_err = None\<rparr>" "length (unread b rs) < left d"
    unfolding read_ends_def readable_conn_def by auto
  then show ?thesis
  proof cases
    case 1
    then show ?thesis using r(1) u(1) assms(2) closed_text_decode [OF assms(3)]
      by (simp add: Receive_bytes_def Decode_bytes_def listen_action_def)
  next
    case 2
    then show ?thesis using r(1) u(1) by (simp add: Receive_bytes_def Decode_bytes_def listen_action_def)
  next
    case (3 x)
    then show ?thesis using r(1) u(1) by (simp add: Receive_bytes_def Decode_bytes_def)
  qed
qed

lemma flat_append [simp]: "flat (rs @ rs') = flat rs @ flat rs'"
  by (simp add: flat_def)

lemma closed_readable:
  assumes "bd_err d = None" "clean (unread (bd_buf d) (bd_reads d))"
  shows "readable_conn e (closed_conn e n d)"
proof -
  have "unread (bd_buf d) (bd_reads d) = unread (bd_buf d) (take n (bd_reads d)) @ flat (drop n (bd_reads d))"
    using flat_append [of "take n (bd_reads d)" "drop n (bd_reads d)"] by (simp add: unread_def)
  with clean_prefix [OF assms(2)] have "clean (unread (bd_buf d) (take n (bd_reads d)))" by blast
  then show ?thesis using assms(1) by (auto simp: readable_conn_def closed_conn_def unread_def intro!: exI [of _ "map Inr _ @ _"])
qed

section \<open>Fair runs\<close>

text \<open>
  An infinite run after \<^verbatim>\<open>Close\<close> has closed the connection: in every moment goroutines make a move, a caller gives up, or
  nothing happens. A goroutine is treated fairly if it cannot be able to move for ever without moving.
\<close>

definition acts :: "(error \<Rightarrow> string) \<Rightarrow> (string \<Rightarrow> bool) \<Rightarrow> client_goroutine \<Rightarrow> live_client \<Rightarrow> live_client \<Rightarrow> bool" where
  "acts et float_ok g s s' \<longleftrightarrow> (\<exists>G. g \<in> G \<and> moves et float_ok G s s')"

definition gives_up :: "live_client \<Rightarrow> live_client \<Rightarrow> bool" where
  "gives_up s s' \<longleftrightarrow> (\<exists>k. echo_at (cl s) \<noteq> InCall k \<and> s' = s\<lparr>cl := (cl s)\<lparr>cancelled := (cancelled (cl s))(k := True)\<rparr>\<rparr>)"

definition run :: "(error \<Rightarrow> string) \<Rightarrow> (string \<Rightarrow> bool) \<Rightarrow> (nat \<Rightarrow> live_client) \<Rightarrow> bool" where
  "run et float_ok \<sigma> \<longleftrightarrow>
     (\<forall>n. \<sigma> (Suc n) = \<sigma> n \<or> (\<exists>G. moves et float_ok G (\<sigma> n) (\<sigma> (Suc n))) \<or> gives_up (\<sigma> n) (\<sigma> (Suc n)))"

definition fair :: "(live_client \<Rightarrow> live_client \<Rightarrow> bool) \<Rightarrow> (nat \<Rightarrow> live_client) \<Rightarrow> bool" where
  "fair act \<sigma> \<longleftrightarrow> (\<forall>n. (\<forall>m\<ge>n. \<exists>s. act (\<sigma> m) s) \<longrightarrow> (\<exists>m\<ge>n. act (\<sigma> m) (\<sigma> (Suc m))))"

text \<open>A goroutine with a weight that never grows, shrinks when it moves, and lets it move while it is not 0, gets to 0 for good.\<close>

lemma fair_ends:
  assumes fair: "fair act \<sigma>"
    and enabled: "\<And>n. weight (\<sigma> n) \<noteq> 0 \<Longrightarrow> \<exists>s. act (\<sigma> n) s"
    and shrinks: "\<And>n. act (\<sigma> n) (\<sigma> (Suc n)) \<Longrightarrow> weight (\<sigma> (Suc n)) < (weight (\<sigma> n) :: nat)"
    and falls: "\<And>n. weight (\<sigma> (Suc n)) \<le> weight (\<sigma> n)"
  shows "\<exists>n. \<forall>m\<ge>n. weight (\<sigma> m) = 0"
proof -
  have mono: "weight (\<sigma> m) \<le> weight (\<sigma> n)" if "n \<le> m" for n m
    using that falls by (induction rule: dec_induct) (auto intro: order_trans)
  have "\<exists>m. weight (\<sigma> m) = 0" for n :: nat
  proof (induction "weight (\<sigma> n)" arbitrary: n rule: less_induct)
    case less
    show ?case
    proof (rule ccontr)
      assume no: "\<not> (\<exists>m. weight (\<sigma> m) = 0)"
      then have "\<forall>m. \<exists>s. act (\<sigma> m) s" using enabled by blast
      then obtain m where m: "m \<ge> n" "act (\<sigma> m) (\<sigma> (Suc m))" using fair unfolding fair_def by blast
      then have "weight (\<sigma> (Suc m)) < weight (\<sigma> n)" using shrinks mono [of n m] by (meson less_le_trans)
      with less.hyps no show False by blast
    qed
  qed
  then show ?thesis using mono by (metis le_zero_eq)
qed

fun phase_rank :: "phase \<Rightarrow> nat" where
  "phase_rank (Done _ _) = 0"
| "phase_rank (Returning _ _) = 1"
| "phase_rank (Waiting _) = 2"
| "phase_rank (Registered _) = 3"
| "phase_rank (HasID _) = 4"
| "phase_rank Unused = 5"

fun echo_rank :: "echoer \<Rightarrow> (nat \<Rightarrow> phase) \<Rightarrow> nat" where
  "echo_rank Idle ps = 1"
| "echo_rank (InCall k) ps = 2 + phase_rank (ps k)"
| "echo_rank _ ps = 0"

abbreviation echo_weight :: "live_client \<Rightarrow> nat" where
  "echo_weight s \<equiv> echo_rank (echo_at (cl s)) (phases (cl s))"

fun listen_rank :: "listener \<Rightarrow> nat \<Rightarrow> nat" where
  "listen_rank Offering n = 2 + 2 * n"
| "listen_rank Reading n = 1 + 2 * n"
| "listen_rank _ n = 0"

abbreviation listen_weight :: "live_client \<Rightarrow> nat" where
  "listen_weight s \<equiv> listen_rank (listen_at (cl s)) (left (conn s))"

fun tick_rank :: "ticker \<Rightarrow> nat" where
  "tick_rank TickOffer = 2"
| "tick_rank Ticking = 1"
| "tick_rank _ = 0"

lemma rank_0:
  "echo_rank e ps = 0 \<longleftrightarrow> e = Ended \<or> e = EchoCrashed"
  "listen_rank l n = 0 \<longleftrightarrow> l = Stopped \<or> l = Crashed"
  "tick_rank t = 0 \<longleftrightarrow> t = NoTicker \<or> t = TickStopped"
proof -
  show "echo_rank e ps = 0 \<longleftrightarrow> e = Ended \<or> e = EchoCrashed" by (cases e) simp_all
  show "listen_rank l n = 0 \<longleftrightarrow> l = Stopped \<or> l = Crashed" by (cases l) simp_all
  show "tick_rank t = 0 \<longleftrightarrow> t = NoTicker \<or> t = TickStopped" by (cases t) simp_all
qed

subsection \<open>The echo loop\<close>

lemma closing_step: "step c c' \<Longrightarrow> closing c' = closing c"
  by (erule stepE) (auto simp: requestID_def addCallback_def deleteCallback_def doCallback_kept split: if_splits)

lemma closing_moves: "moves et float_ok G s s' \<Longrightarrow> closing (cl s') = closing (cl s)"
  using moves_step closing_step by metis

lemma phases_step:
  assumes "step c c'"
  shows "phases c' k = phases c k \<or> phase_rank (phases c' k) < phase_rank (phases c k)"
  using assms
  by (cases rule: step.cases)
    (auto simp: requestID_def addCallback_def deleteCallback_def doCallback_kept echo_counted_def split: if_splits result.splits)

text \<open>A step of a call leaves the goroutines of the client alone.\<close>

lemma call_step_kept:
  assumes "step c c'" "phases c' k \<noteq> phases c k"
  shows "echo_at c' = echo_at c" "listen_at c' = listen_at c"
proof -
  show "echo_at c' = echo_at c"
    using assms by (auto elim!: stepE simp: requestID_def addCallback_def deleteCallback_def doCallback_kept split: if_splits)
  show "listen_at c' = listen_at c"
    using assms by (auto elim!: stepE simp: requestID_def addCallback_def deleteCallback_def doCallback_kept split: if_splits)
qed

lemma call_echo_rank:
  assumes "step c c'" "phases c' k \<noteq> phases c k"
  shows "echo_rank e (phases c') \<le> echo_rank e (phases c)" "e = InCall k \<Longrightarrow> echo_rank e (phases c') < echo_rank e (phases c)"
proof -
  show "echo_rank e (phases c') \<le> echo_rank e (phases c)"
    using phases_step [OF assms(1)] by (cases e) (auto simp: le_less, metis)
  show "e = InCall k \<Longrightarrow> echo_rank e (phases c') < echo_rank e (phases c)"
    using phases_step [OF assms(1), of k] assms(2) by simp
qed

lemma handled_kept:
  assumes "handled pick a c = Some c'"
  shows "echo_at c' = echo_at c" "phases c' = phases c" "closing c' = closing c"
    "a = Skip \<or> (\<exists>i r. a = Callback i r) \<Longrightarrow> listen_at c' = listen_at c"
    "a = OfferEcho \<Longrightarrow> listen_at c' = Offering" "a = Stop \<Longrightarrow> listen_at c' = Stopped" "a = Crash \<Longrightarrow> listen_at c' = Crashed"
  using assms by (auto simp: handled_def doCallback_kept split: action.splits option.splits result.splits)

lemma echo_moves:
  assumes "moves et float_ok G s s'" "closing (cl s)"
  shows "if EchoLoop \<in> G then echo_weight s' < echo_weight s else echo_weight s' \<le> echo_weight s"
  using assms(1)
proof cases
  case (call c k)
  then show ?thesis using call_echo_rank [OF call(3,4)] call_step_kept [OF call(3,4)] by simp
next
  case (receive r d pick c)
  then show ?thesis using handled_kept [OF receive(5)] by simp
next
  case (echo_done k i out)
  then show ?thesis using echo_counted_at [of et "echo_result out" "cl s"] by (auto simp del: echo_counted_kept)
qed (use assms(2) in \<open>auto simp: echo_taken_Some\<close>)

lemma echo_enabled:
  assumes "client_inv (cl s)" "echo_cancelled (cl s)" "closing (cl s)" "echo_weight s \<noteq> 0"
  shows "\<exists>s'. acts et float_ok EchoLoop s s'"
proof (cases "echo_at (cl s)")
  case Idle
  then show ?thesis using moves.echo_ends [OF Idle assms(3)] unfolding acts_def by blast
next
  case (InCall k)
  have c: "cancelled (cl s) k" using assms(2,3) InCall by (simp add: echo_cancelled_def)
  have moves: ?thesis if "step (cl s) c" "phases c k \<noteq> phases (cl s) k" for c
    using moves.call [OF that, of et float_ok] InCall unfolding acts_def by auto
  show ?thesis
  proof (cases "phases (cl s) k")
    case Unused
    then show ?thesis using moves [OF step.refused [OF Unused c]] by simp
  next
    case (HasID i)
    then have "addCallback i k (cl s) = Ok ((cl s)\<lparr>callbacks := (callbacks (cl s))(i \<mapsto> k)\<rparr>)"
      using free_identifier [OF assms(1)] by (simp add: addCallback_def)
    from moves [OF step.register [OF HasID this]] show ?thesis using HasID by simp
  next
    case (Registered i)
    then show ?thesis using moves [OF step.sent] by simp
  next
    case (Waiting i)
    then show ?thesis using moves [OF step.give_up [OF _ c]] by simp
  next
    case (Returning i out)
    then show ?thesis using moves [OF step.return [OF Returning]] by simp
  next
    case (Done j out)
    from moves.echo_done [OF InCall Done, of et float_ok] show ?thesis unfolding acts_def by blast
  qed
qed (use assms(4) in simp_all)

subsection \<open>The ticker\<close>

lemma tick_moves:
  assumes "moves et float_ok G s s'" "closing (cl s)"
  shows "if Ticker \<in> G then tick_rank (tick_at s') < tick_rank (tick_at s) else tick_at s' = tick_at s"
  using assms by cases auto

lemma tick_enabled:
  assumes "closing (cl s)" "tick_rank (tick_at s) \<noteq> 0"
  shows "\<exists>s'. acts et float_ok Ticker s s'"
proof -
  have "tick_at s = Ticking \<or> tick_at s = TickOffer" using assms(2) by (cases "tick_at s") auto
  from moves.tick_done [OF this assms(1)] show ?thesis unfolding acts_def by blast
qed

subsection \<open>The listener\<close>

definition listens :: "error \<Rightarrow> live_client \<Rightarrow> bool" where
  "listens e s \<longleftrightarrow> listen_at (cl s) = Stopped \<or> listen_at (cl s) = Crashed \<or> readable_conn e (conn s)"

lemma handled_rank:
  assumes "handled pick a c = Some c'" "listen_at c = Reading" "a = Stop \<or> m < n"
  shows "listen_rank (listen_at c') m < listen_rank Reading n" "a = Stop \<Longrightarrow> listen_at c' = Stopped"
  using handled_kept [OF assms(1)] assms(2,3) by (cases a; simp)+

lemma listen_moves:
  assumes "moves (error_text p base) float_ok G s s'" "listens e s" "e \<noteq> ErrEOF" "Contains (error_text p base e) closed_text"
  shows "listens e s' \<and> (if Listener \<in> G then listen_weight s' < listen_weight s else listen_weight s' = listen_weight s)"
  using assms(1)
proof cases
  case (call c k)
  then show ?thesis using assms(2) call_step_kept [OF call(3,4)] by (simp add: listens_def)
next
  case (receive r d pick c)
  then obtain "readable_conn e (conn s)" using assms(2) by (auto simp: listens_def)
  from receive_clean [OF this assms(3,4), of float_ok] receive(4)
  have d: "listen_action (error_text p base) r = Stop \<or> readable_conn e d \<and> left d < left (conn s)" by auto
  from handled_rank [OF receive(5,3), of "left d" "left (conn s)"] d show ?thesis
    using receive by (auto simp: listens_def)
next
  case (echo_done k i out)
  then show ?thesis using assms(2) by (simp add: listens_def)
qed (use assms(2) in \<open>auto simp: listens_def echo_taken_Some\<close>)

lemma listen_enabled:
  assumes "client_inv (cl s)" "closing (cl s)" "listens e s" "e \<noteq> ErrEOF" "Contains (error_text p base e) closed_text"
    "listen_weight s \<noteq> 0"
  shows "\<exists>s'. acts (error_text p base) float_ok Listener s s'"
proof (cases "listen_at (cl s)")
  case Reading
  then obtain r d where r: "Receive_bytes float_ok (conn s) = Some (r, d)"
    using assms(3) receive_clean [OF _ assms(4,5), of "conn s" float_ok] by (auto simp: listens_def)
  have "doCallback False i x (cl s) \<noteq> None \<and> doCallback False i x (cl s) \<noteq> Some Panic \<and>
      (\<forall>y. doCallback False i x (cl s) \<noteq> Some (Err y))" for i x
    using assms(1) doCallback_empty [of "cl s" i _ False x] doCallback_None [of "cl s" i False x]
    by (cases "callbacks (cl s) i") (auto simp: client_inv_def inv_callbacks_def)
  then have "doCallback False i x (cl s) \<in> Some ` range Ok" for i x
    by (cases "doCallback False i x (cl s)" rule: option.exhaust; cases "the (doCallback False i x (cl s))") auto
  then have "\<exists>c. handled False (listen_action (error_text p base) r) (cl s) = Some c"
    by (cases "listen_action (error_text p base) r") (fastforce simp: handled_def image_iff split: option.split)+
  then show ?thesis using moves.receive [OF Reading r] unfolding acts_def by blast
next
  case Offering
  from moves.drop_offer [OF this assms(2)] show ?thesis unfolding acts_def by blast
qed (use assms(6) in simp_all)

subsection \<open>Runs\<close>

lemma run_cases:
  assumes "run et float_ok \<sigma>"
  obtains "\<sigma> (Suc n) = \<sigma> n" | G where "moves et float_ok G (\<sigma> n) (\<sigma> (Suc n))" | "gives_up (\<sigma> n) (\<sigma> (Suc n))"
  using assms unfolding run_def by blast

lemma gives_up_kept:
  assumes "gives_up s s'"
  shows "cancel (cl s) (cl s')" "echo_at (cl s') = echo_at (cl s)" "listen_at (cl s') = listen_at (cl s)"
    "phases (cl s') = phases (cl s)" "closing (cl s') = closing (cl s)" "conn s' = conn s" "tick_at s' = tick_at s"
  using assms cancel.caller [of "cl s"] by (auto simp: gives_up_def)

lemma run_reachable:
  assumes "run et float_ok \<sigma>" "reachable (cl (\<sigma> 0))"
  shows "reachable (cl (\<sigma> n))"
proof (induction n)
  case (Suc n)
  from assms(1) show ?case
  proof (cases rule: run_cases [of _ _ _ n])
    case (2 G)
    then show ?thesis using Suc moves_step by (metis reachable.step)
  next
    case 3
    then show ?thesis using Suc gives_up_kept(1) by (metis reachable.cancel)
  qed (use Suc in simp)
qed (rule assms(2))

lemma run_invariant:
  assumes "run et float_ok \<sigma>" "P (\<sigma> 0)" "\<And>G s s'. moves et float_ok G s s' \<Longrightarrow> P s \<Longrightarrow> P s'"
    "\<And>s s'. gives_up s s' \<Longrightarrow> P s \<Longrightarrow> P s'"
  shows "P (\<sigma> n)"
proof (induction n)
  case (Suc n)
  from assms(1) show ?case by (cases rule: run_cases [of _ _ _ n]) (use Suc assms(3,4) in auto)
qed (rule assms(2))

lemma run_ends:
  assumes "run et float_ok \<sigma>" "fair (acts et float_ok g) \<sigma>"
    and "\<And>n. P (\<sigma> n)" "\<And>s. P s \<Longrightarrow> weight s \<noteq> 0 \<Longrightarrow> \<exists>s'. acts et float_ok g s s'"
    and "\<And>G s s'. moves et float_ok G s s' \<Longrightarrow> P s \<Longrightarrow> if g \<in> G then weight s' < (weight s :: nat) else weight s' \<le> weight s"
    and "\<And>s s'. gives_up s s' \<Longrightarrow> weight s' = weight s"
  shows "\<exists>n. \<forall>m\<ge>n. weight (\<sigma> m) = 0"
proof (rule fair_ends [OF assms(2)])
  show "\<exists>s. acts et float_ok g (\<sigma> n) s" if "weight (\<sigma> n) \<noteq> 0" for n using assms(3,4) that by blast
  show "weight (\<sigma> (Suc n)) < weight (\<sigma> n)" if "acts et float_ok g (\<sigma> n) (\<sigma> (Suc n))" for n
    using that assms(5) [OF _ assms(3)] by (auto simp: acts_def)
  show "weight (\<sigma> (Suc n)) \<le> weight (\<sigma> n)" for n
    using assms(1)
  proof (cases rule: run_cases [of _ _ _ n])
    case (2 G)
    from assms(5) [OF this assms(3)] show ?thesis by (simp split: if_splits)
  qed (simp_all add: assms(6))
qed

lemma listener_loop_ends:
  assumes "run (error_text p base) float_ok \<sigma>" "fair (acts (error_text p base) float_ok Listener) \<sigma>"
    "\<And>n. client_inv (cl (\<sigma> n))" "\<And>n. closing (cl (\<sigma> n))" "\<And>n. listens e (\<sigma> n)"
    "e \<noteq> ErrEOF" "Contains (error_text p base e) closed_text"
  shows "\<exists>n. \<forall>m\<ge>n. listen_weight (\<sigma> m) = 0"
proof (rule run_ends [OF assms(1,2), where P = "\<lambda>s. client_inv (cl s) \<and> closing (cl s) \<and> listens e s"])
  show "\<exists>s'. acts (error_text p base) float_ok Listener s s'"
    if "client_inv (cl s) \<and> closing (cl s) \<and> listens e s" "listen_weight s \<noteq> 0" for s
    using that listen_enabled [OF _ _ _ assms(6,7)] by blast
  show "if Listener \<in> G then listen_weight s' < listen_weight s else listen_weight s' \<le> listen_weight s"
    if "moves (error_text p base) float_ok G s s'" "client_inv (cl s) \<and> closing (cl s) \<and> listens e s" for G s s'
    using listen_moves [OF that(1) _ assms(6,7)] that(2) by (simp split: if_splits)
qed (use assms(3-5) gives_up_kept in auto)

lemma echo_loop_ends:
  assumes "run et float_ok \<sigma>" "fair (acts et float_ok EchoLoop) \<sigma>"
    "\<And>n. client_inv (cl (\<sigma> n))" "\<And>n. echo_cancelled (cl (\<sigma> n))" "\<And>n. closing (cl (\<sigma> n))"
  shows "\<exists>n. \<forall>m\<ge>n. echo_weight (\<sigma> m) = 0"
proof (rule run_ends [OF assms(1,2), where P = "\<lambda>s. client_inv (cl s) \<and> echo_cancelled (cl s) \<and> closing (cl s)"])
  show "\<exists>s'. acts et float_ok EchoLoop s s'"
    if "client_inv (cl s) \<and> echo_cancelled (cl s) \<and> closing (cl s)" "echo_weight s \<noteq> 0" for s
    using that echo_enabled by blast
  show "if EchoLoop \<in> G then echo_weight s' < echo_weight s else echo_weight s' \<le> echo_weight s"
    if "moves et float_ok G s s'" "client_inv (cl s) \<and> echo_cancelled (cl s) \<and> closing (cl s)" for G s s'
    using echo_moves that by blast
qed (use assms(3-5) gives_up_kept in auto)

lemma ticker_ends:
  assumes "run et float_ok \<sigma>" "fair (acts et float_ok Ticker) \<sigma>" "\<And>n. closing (cl (\<sigma> n))"
  shows "\<exists>n. \<forall>m\<ge>n. tick_rank (tick_at (\<sigma> m)) = 0"
proof (rule run_ends [OF assms(1,2), where P = "\<lambda>s. closing (cl s)"])
  show "if Ticker \<in> G then tick_rank (tick_at s') < tick_rank (tick_at s) else tick_rank (tick_at s') \<le> tick_rank (tick_at s)"
    if "moves et float_ok G s s'" "closing (cl s)" for G s s'
    using tick_moves [OF that] by (simp split: if_splits)
qed (use assms(3) tick_enabled gives_up_kept in auto)

text \<open>A decoder that has stopped at another error never lets the listener end.\<close>

definition spins :: "(error \<Rightarrow> string) \<Rightarrow> live_client \<Rightarrow> bool" where
  "spins et s \<longleftrightarrow> (listen_at (cl s) = Reading \<or> listen_at (cl s) = Offering) \<and>
     (\<exists>x. bd_err (conn s) = Some x \<and> x \<noteq> ErrEOF \<and> \<not> isClosedNetwork et (Some (ErrDecode x)))"

lemma spins_moves:
  assumes "moves et float_ok G s s'" "spins et s"
  shows "spins et s'"
  using assms(1)
proof cases
  case (call c k)
  then show ?thesis using assms(2) call_step_kept [OF call(3,4)] by (simp add: spins_def)
next
  case (receive r d pick c)
  then have "d = conn s" "listen_action et r = Skip"
    using assms(2) by (auto simp: spins_def Receive_bytes_def Decode_bytes_def listen_action_def)
  then have "s' = s" using receive by (simp add: handled_def)
  then show ?thesis using assms(2) by simp
next
  case (echo_done k i out)
  then show ?thesis using assms(2) by (simp add: spins_def)
qed (use assms(2) in \<open>auto simp: spins_def echo_taken_Some\<close>)

text \<open>
  C16: \<^verbatim>\<open>Close\<close> and the three goroutines it waits for. \<^verbatim>\<open>Close\<close> has cancelled the context and closed the connection,
  so that a read of it now fails with the error of a closed connection (after the bytes that a \<^verbatim>\<open>Receive\<close> under way
  may have read), in any state the client can be in then: with calls and echoes under way, even with the listener
  and the echo loop waiting for each other. From then on goroutines, calls and callers that give up are
  interleaved in any way in which no goroutine of the client that could move for ever is never scheduled. Then:
  if the listener has stopped before, or its decoder has not met an error and the bytes it has are those of messages (the
  last cut anywhere, or followed by the server's end of the connection), then from some moment on the listener, the echo loop and the ticker
  have ended, and \<^verbatim>\<open>wg.Wait\<close> returns, or one of them has panicked. But if the decoder has stopped at an error that is
  neither the end of the stream nor taken for a closed connection (as after bytes that are no JSON), the listener never
  ends and \<^verbatim>\<open>Close\<close> never returns.
\<close>

theorem Close_returns:
  assumes "reachable (cl s)" "closing (cl s)" "\<And>n. started (cl (\<sigma> n)) < 2 ^ 64"
    "e \<noteq> ErrEOF" "Contains (error_text p base e) closed_text" "\<sigma> 0 = s\<lparr>conn := closed_conn e kept (conn s)\<rparr>"
    "run (error_text p base) float_ok \<sigma>"
    "\<And>g. g \<in> {Listener, EchoLoop, Ticker} \<Longrightarrow> fair (acts (error_text p base) float_ok g) \<sigma>"
  shows "(listen_at (cl s) = Stopped \<or> bd_err (conn s) = None \<and> clean (unread (bd_buf (conn s)) (bd_reads (conn s))) \<longrightarrow>
      (\<exists>n. \<forall>m\<ge>n. wg_done (\<sigma> m) \<or> crashed (\<sigma> m))) \<and>
    (spins (error_text p base) s \<longrightarrow> (\<forall>m. \<not> wg_done (\<sigma> m)))"
proof (intro conjI impI allI)
  let ?et = "error_text p base"
  have r: "reachable (cl (\<sigma> n))" for n using run_reachable [OF assms(7)] assms(1,6) by simp
  have c: "closing (cl (\<sigma> n))" for n
    using run_invariant [OF assms(7), of "\<lambda>s. closing (cl s)"] assms(2,6) closing_moves gives_up_kept(5) by simp
  note inv = reachable_client_inv [OF r assms(3)] reachable_echo_cancelled [OF r]
  {
    assume "listen_at (cl s) = Stopped \<or> bd_err (conn s) = None \<and> clean (unread (bd_buf (conn s)) (bd_reads (conn s)))"
    then have "listens e (\<sigma> 0)" using closed_readable by (auto simp: assms(6) listens_def)
    then have l: "listens e (\<sigma> n)" for n
      using run_invariant [OF assms(7), of "listens e"] listen_moves [OF _ _ assms(4,5)] gives_up_kept(3,6) by (simp add: listens_def)
    obtain n1 where n1: "\<forall>m\<ge>n1. listen_weight (\<sigma> m) = 0"
      using listener_loop_ends [OF assms(7,8) inv(1) c l assms(4,5)] by blast
    obtain n2 where n2: "\<forall>m\<ge>n2. echo_weight (\<sigma> m) = 0" using echo_loop_ends [OF assms(7,8) inv c] by blast
    obtain n3 where n3: "\<forall>m\<ge>n3. tick_rank (tick_at (\<sigma> m)) = 0" using ticker_ends [OF assms(7,8) c] by blast
    have "\<forall>m \<ge> max n1 (max n2 n3). wg_done (\<sigma> m) \<or> crashed (\<sigma> m)"
      using n1 n2 n3 by (auto simp: rank_0 wg_done_def crashed_def)
    then show "\<exists>n. \<forall>m\<ge>n. wg_done (\<sigma> m) \<or> crashed (\<sigma> m)" by blast
  }
  fix m
  assume "spins ?et s"
  then have "spins ?et (\<sigma> 0)" by (simp add: assms(6) spins_def closed_conn_def)
  then have "spins ?et (\<sigma> m)"
    using run_invariant [OF assms(7), of "spins ?et"] spins_moves gives_up_kept(3,6) by (simp add: spins_def)
  then show "\<not> wg_done (\<sigma> m)" by (auto simp: spins_def wg_done_def)
qed

text \<open>
  A run from the deadlock of an echo, with a message cut short in the decoder: the call of the echo loop is
  cancelled and returns, the listener drops its offer and gets the error of the closed connection, and all three end.
\<close>

definition closing_client :: client where
  "closing_client = stuck_client\<lparr>closing := True, cancelled := (\<lambda>k. k = 0)\<rparr>"

definition closed_error :: error where "closed_error = ErrExternal ''closed''"

definition closing_base :: "error \<Rightarrow> string" where
  "closing_base e = (if e = closed_error then closed_text else [])"

abbreviation closing_text :: "error \<Rightarrow> string" where
  "closing_text \<equiv> error_text (\<lambda>_. False) closing_base"

definition half_read :: byte_decoder where
  "half_read = \<lparr>bd_buf = ''{'', bd_reads = [Text ''}''], bd_err = None\<rparr>"

definition before_close :: live_client where
  "before_close = \<lparr>cl = closing_client, conn = half_read, tick_at = TickOffer\<rparr>"

definition closing_states :: "live_client list" where
  "closing_states =
     (let s0 = before_close\<lparr>conn := closed_conn closed_error 0 half_read\<rparr>;
          c1 = set_phase 0 (Returning ''1'' (Failed ErrCanceled)) closing_client;
          c2 = set_phase 0 (Done (Some ''1'') (Failed ErrCanceled)) (deleteCallback ''1'' c1);
          c3 = echo_counted closing_text (echo_result (Failed ErrCanceled)) c2;
          c4 = c3\<lparr>listen_at := Reading\<rparr>; c5 = c4\<lparr>echo_at := Ended\<rparr>;
          s6 = s0\<lparr>cl := c5\<lparr>listen_at := Stopped\<rparr>, conn := \<lparr>bd_buf = ''{'', bd_reads = [], bd_err = Some closed_error\<rparr>\<rparr>
      in [s0, s0\<lparr>cl := c1\<rparr>, s0\<lparr>cl := c2\<rparr>, s0\<lparr>cl := c3\<rparr>, s0\<lparr>cl := c4\<rparr>, s0\<lparr>cl := c5\<rparr>, s6, s6\<lparr>tick_at := TickStopped\<rparr>])"

definition closing_run :: "nat \<Rightarrow> live_client" where
  "closing_run n = closing_states ! min n 7"

lemma closing_reachable: "reachable closing_client"
  using reachable.cancel [OF stuck_reachable cancel.close]
  by (simp add: closing_client_def stuck_client_def waiting_client_def new_client_def eq_commute)

lemmas closing_defs = closing_states_def before_close_def half_read_def closing_client_def stuck_client_def waiting_client_def
  new_client_def Let_def deleteCallback_def

lemma echo_fails:
  "echo_counted closing_text (echo_result (Failed ErrCanceled)) c = c\<lparr>echoFail := echoFail c + 1, echo_at := Idle\<rparr>"
proof -
  have "echo_result (Failed ErrCanceled) = Err ErrCanceled" by (simp add: echo_result_def Echo_def call_result_def)
  moreover have "\<not> isClosedNetwork closing_text (Some ErrCanceled)" by code_simp
  ultimately show ?thesis by (simp add: echo_counted_def)
qed

lemma closing_receive:
  "Receive_bytes (\<lambda>_. True) (closed_conn closed_error 0 half_read) =
     Some (Err (ErrDecode closed_error), \<lparr>bd_buf = ''{'', bd_reads = [], bd_err = Some closed_error\<rparr>)"
  "listen_action closing_text (Err (ErrDecode closed_error)) = Stop"
  by code_simp+

lemma closing_run_step: "n < 7 \<Longrightarrow> \<exists>G. moves closing_text (\<lambda>_. True) G (closing_run n) (closing_run (Suc n))"
proof -
  let ?s = "(!) closing_states"
  have m: "\<exists>G. moves closing_text (\<lambda>_. True) G (?s i) (?s j)" if "moves closing_text (\<lambda>_. True) G (?s i) s" "s = ?s j" for i j G s
    using that by blast
  have "\<exists>G. moves closing_text (\<lambda>_. True) G (?s 0) (?s 1)"
    by (rule m [OF moves.call [where k = 0, OF step.give_up [of _ 0 "''1''"]]]) (simp_all add: closing_defs)
  moreover have "\<exists>G. moves closing_text (\<lambda>_. True) G (?s 1) (?s 2)"
    by (rule m [OF moves.call [where k = 0, OF step.return [of _ 0 "''1''" "Failed ErrCanceled"]]]) (simp_all add: closing_defs)
  moreover have "\<exists>G. moves closing_text (\<lambda>_. True) G (?s 2) (?s 3)"
    by (rule m [OF moves.echo_done [of _ 0 "Some ''1''" "Failed ErrCanceled"]]) (simp_all add: closing_defs)
  moreover have "\<exists>G. moves closing_text (\<lambda>_. True) G (?s 3) (?s 4)"
    by (rule m [OF moves.drop_offer]) (simp_all add: closing_defs echo_fails)
  moreover have "\<exists>G. moves closing_text (\<lambda>_. True) G (?s 4) (?s 5)"
    by (rule m [OF moves.echo_ends]) (simp_all add: closing_defs echo_fails)
  moreover have "\<exists>G. moves closing_text (\<lambda>_. True) G (?s 5) (?s 6)"
    by (rule m [OF moves.receive [where pick = False and r = "Err (ErrDecode closed_error)"]])
      (simp_all add: closing_states_def before_close_def Let_def closing_receive handled_def)
  moreover have "\<exists>G. moves closing_text (\<lambda>_. True) G (?s 6) (?s 7)"
    by (rule m [OF moves.tick_done]) (simp_all add: closing_defs echo_fails)
  ultimately show "n < 7 \<Longrightarrow> \<exists>G. moves closing_text (\<lambda>_. True) G (closing_run n) (closing_run (Suc n))"
    by (auto simp: closing_run_def less_Suc_eq numeral_eq_Suc)
qed

lemma ended_no_act:
  assumes "wg_done s" "closing (cl s)"
  shows "g \<in> {Listener, EchoLoop, Ticker} \<Longrightarrow> \<not> acts et float_ok g s s'"
proof -
  have "\<not> acts et float_ok Listener s s'" using assms(1) by (auto simp: acts_def wg_done_def elim!: movesE split: if_splits)
  moreover have "\<not> acts et float_ok EchoLoop s s'"
    using assms(1) echo_moves [OF _ assms(2)] by (fastforce simp: acts_def wg_done_def)
  moreover have "\<not> acts et float_ok Ticker s s'"
    using assms(1) by (auto simp: acts_def wg_done_def elim!: movesE split: if_splits)
  ultimately show "g \<in> {Listener, EchoLoop, Ticker} \<Longrightarrow> \<not> acts et float_ok g s s'" by blast
qed

lemma half_read_clean: "clean (unread (bd_buf half_read) (bd_reads half_read))"
proof -
  have "json_parse ''{}'' = Some (''{}'', JObj [], [])" by code_simp
  then have "framed_text ''{}'' ''{}'' []" by (simp add: framed_text_def jspace_def container_def)
  from clean.message [OF this clean.empty] show ?thesis by (simp add: half_read_def)
qed

theorem Close_returns_witness:
  "\<exists>n. \<forall>m\<ge>n. wg_done (closing_run m) \<or> crashed (closing_run m)"
proof -
  have later: "closing_run n = closing_states ! 7" if "n \<ge> 7" for n using that by (simp add: closing_run_def min_def)
  have "run closing_text (\<lambda>_. True) closing_run"
    using closing_run_step later unfolding run_def by (metis Suc_leD le_SucI not_le_imp_less)
  moreover have "\<forall>n \<le> 7. started (cl (closing_run n)) = 1"
    by (auto simp: closing_run_def closing_defs echo_fails le_Suc_eq numeral_eq_Suc)
  then have "started (cl (closing_run n)) = 1" for n using later [of n] later [of 7] by (cases "n \<le> 7") auto
  then have "started (cl (closing_run n)) < 2 ^ 64" for n by simp
  moreover have "wg_done (closing_states ! 7)" "closing (cl (closing_states ! 7))"
    by (simp_all add: closing_defs echo_fails wg_done_def)
  then have "fair (acts closing_text (\<lambda>_. True) g) closing_run" if "g \<in> {Listener, EchoLoop, Ticker}" for g
    using ended_no_act [OF _ _ that] later unfolding fair_def by (metis max.cobounded1 max.cobounded2)
  moreover have "closed_error \<noteq> ErrEOF" "Contains (closing_text closed_error) closed_text" by code_simp+
  moreover have "closing_run 0 = before_close\<lparr>conn := closed_conn closed_error 0 (conn before_close)\<rparr>"
    by (simp add: closing_run_def closing_states_def before_close_def Let_def)
  moreover have "reachable (cl before_close)" "closing (cl before_close)" "bd_err (conn before_close) = None"
      "clean (unread (bd_buf (conn before_close)) (bd_reads (conn before_close)))"
    using closing_reachable half_read_clean
    by (simp_all add: before_close_def closing_client_def half_read_def)
  ultimately show ?thesis using Close_returns [of before_close closing_run closed_error] by blast
qed

end
