(* ===== verification/Ovsdb_Setup.thy ===== *)
theory Ovsdb_Setup imports Ovsdb_Client begin

text \<open>
  How an OVSDB client is made: the options, \<^verbatim>\<open>New\<close> and \<^verbatim>\<open>Dial\<close> of \<^verbatim>\<open>ovsdb/client.go\<close>, and the connection with
  optional logging of \<^verbatim>\<open>internal/jsonrpc/conn.go\<close>. Shown: logging does not change what the connection does.
\<close>

section \<open>Connections\<close>

text \<open>
  An \<^verbatim>\<open>io.ReadWriteCloser\<close>: a read returns bytes and an error, possibly both, a write the number of bytes written. The
  connection's state \<open>'w\<close> is beside the lines of the logger.
\<close>

record 'w rwc =
  rwc_Read :: "nat \<Rightarrow> 'w \<Rightarrow> (string \<times> error option) \<times> 'w"
  rwc_Write :: "string \<Rightarrow> 'w \<Rightarrow> (nat \<times> error option) \<times> 'w"
  rwc_Close :: "'w \<Rightarrow> error option \<times> 'w"

definition debug_Read :: "'w rwc \<Rightarrow> nat \<Rightarrow> 'w \<times> string list \<Rightarrow> (string \<times> error option) \<times> 'w \<times> string list" where
  "debug_Read r n = (\<lambda>(w, log).
     case rwc_Read r n w of
       ((b, Some e), w') \<Rightarrow> ((b, Some e), w', log)
     | ((b, None), w') \<Rightarrow> ((b, None), w', log @ ['' read: '' @ b]))"

definition debug_Write :: "'w rwc \<Rightarrow> string \<Rightarrow> 'w \<times> string list \<Rightarrow> (nat \<times> error option) \<times> 'w \<times> string list" where
  "debug_Write r b = (\<lambda>(w, log).
     case rwc_Write r b w of
       ((n, Some e), w') \<Rightarrow> ((n, Some e), w', log)
     | ((n, None), w') \<Rightarrow> ((n, None), w', log @ [''write: '' @ take n b]))"

definition debug_Close :: "(error option \<Rightarrow> string) \<Rightarrow> 'w rwc \<Rightarrow> 'w \<times> string list \<Rightarrow> error option \<times> 'w \<times> string list" where
  "debug_Close show_err r = (\<lambda>(w, log). case rwc_Close r w of (e, w') \<Rightarrow> (e, w', log @ [''close: '' @ show_err e]))"

definition debugReadWriteCloser :: "(error option \<Rightarrow> string) \<Rightarrow> 'w rwc \<Rightarrow> ('w \<times> string list) rwc" where
  "debugReadWriteCloser show_err r = \<lparr>rwc_Read = debug_Read r, rwc_Write = debug_Write r, rwc_Close = debug_Close show_err r\<rparr>"

text \<open>The connection without a logger.\<close>

definition silent :: "'w rwc \<Rightarrow> ('w \<times> string list) rwc" where
  "silent r =
     \<lparr>rwc_Read = (\<lambda>n (w, log). case rwc_Read r n w of (x, w') \<Rightarrow> (x, w', log)),
      rwc_Write = (\<lambda>b (w, log). case rwc_Write r b w of (x, w') \<Rightarrow> (x, w', log)),
      rwc_Close = (\<lambda>(w, log). case rwc_Close r w of (x, w') \<Rightarrow> (x, w', log))\<rparr>"

definition NewConn :: "(error option \<Rightarrow> string) \<Rightarrow> 'w rwc \<Rightarrow> bool \<Rightarrow> ('w \<times> string list) rwc" where
  "NewConn show_err r ll = (if ll then debugReadWriteCloser show_err r else silent r)"

section \<open>What the users of a connection see\<close>

datatype rwc_call = CallRead nat | CallWrite string | CallClose

datatype rwc_result = WasRead string "error option" | WasWritten nat "error option" | WasClosed "error option"

fun rwc_do :: "'w rwc \<Rightarrow> rwc_call \<Rightarrow> 'w \<Rightarrow> rwc_result \<times> 'w" where
  "rwc_do r (CallRead n) w = (case rwc_Read r n w of ((b, e), w') \<Rightarrow> (WasRead b e, w'))"
| "rwc_do r (CallWrite b) w = (case rwc_Write r b w of ((n, e), w') \<Rightarrow> (WasWritten n e, w'))"
| "rwc_do r CallClose w = (case rwc_Close r w of (e, w') \<Rightarrow> (WasClosed e, w'))"

text \<open>A user whose next call depends on the results so far, for a number of calls.\<close>

fun rwc_use :: "'w rwc \<Rightarrow> (rwc_result list \<Rightarrow> rwc_call) \<Rightarrow> nat \<Rightarrow> rwc_result list \<Rightarrow> 'w \<Rightarrow> rwc_result list \<times> 'w" where
  "rwc_use r user 0 seen w = (seen, w)"
| "rwc_use r user (Suc n) seen w = (case rwc_do r (user seen) w of (x, w') \<Rightarrow> rwc_use r user n (seen @ [x]) w')"

text \<open>
  A wrapper of a connection: each method returns what the connection returns, and does to its state what the
  connection does.
\<close>

locale transparent =
  fixes inner :: "'w rwc" and outer :: "'v rwc" and state :: "'v \<Rightarrow> 'w"
  assumes same_Read: "rwc_Read outer n v = (x, v') \<Longrightarrow> rwc_Read inner n (state v) = (x, state v')"
    and same_Write: "rwc_Write outer b v = (y, v') \<Longrightarrow> rwc_Write inner b (state v) = (y, state v')"
    and same_Close: "rwc_Close outer v = (z, v') \<Longrightarrow> rwc_Close inner (state v) = (z, state v')"
begin

lemma same_do: "rwc_do outer c v = (x, v') \<Longrightarrow> rwc_do inner c (state v) = (x, state v')"
  by (cases c) (auto dest: same_Read same_Write same_Close split: prod.splits)

lemma same_use: "rwc_use inner user n seen (state v) = map_prod id state (rwc_use outer user n seen v)"
proof (induction n arbitrary: seen v)
  case (Suc n)
  obtain x v' where "rwc_do outer (user seen) v = (x, v')" by force
  then show ?case using Suc.IH same_do by simp
qed simp

end

interpretation silent: transparent r "silent r" fst for r :: "'w rwc"
  by unfold_locales (auto simp: silent_def split: prod.splits)

interpretation logging: transparent r "debugReadWriteCloser show_err r" fst for r :: "'w rwc" and show_err
  by unfold_locales
    (auto simp: debugReadWriteCloser_def debug_Read_def debug_Write_def debug_Close_def split: prod.splits option.splits)

text \<open>
  C36: logging changes nothing. Whatever the users of a connection do, each call depending on the results before it, a
  connection that \<^verbatim>\<open>NewConn\<close> made with a logger returns the same results as one without, and leaves the same state.
\<close>

theorem NewConn_logging_transparent:
  "map_prod id fst (rwc_use (NewConn show_err r True) user n seen (w, log)) =
   map_prod id fst (rwc_use (NewConn show_err r False) user n seen (w, log'))"
  using logging.same_use [where r = r and v = "(w, log)"] silent.same_use [where r = r and v = "(w, log')"]
  by (simp add: NewConn_def)

section \<open>Options\<close>

record config =
  cfg_ll :: bool
  cfg_echoInterval :: int

type_synonym ovsdb_option = "config \<Rightarrow> config result"

definition ovsdb_Debug :: "bool \<Rightarrow> ovsdb_option" where
  "ovsdb_Debug ll c = Ok (c\<lparr>cfg_ll := ll\<rparr>)"

definition EchoInterval :: "int \<Rightarrow> ovsdb_option" where
  "EchoInterval d c = Ok (c\<lparr>cfg_echoInterval := d\<rparr>)"

fun apply_options :: "ovsdb_option list \<Rightarrow> config \<Rightarrow> config result" where
  "apply_options [] c = Ok c"
| "apply_options (opt # opts) c = and_then (opt c) (apply_options opts)"

section \<open>New and Dial\<close>

datatype goroutine = EchoTicker int | EchoLoop | Listen

record ('w) running =
  run_conn :: "('w \<times> string list) rwc"
  run_client :: client
  run_wg :: nat  \<comment> \<open>the counter of the wait group\<close>
  run_goroutines :: "goroutine list"

definition ovsdb_New :: "(error option \<Rightarrow> string) \<Rightarrow> 'w rwc \<Rightarrow> ovsdb_option list \<Rightarrow> 'w running result" where
  "ovsdb_New show_err conn opts =
     and_then (apply_options opts \<lparr>cfg_ll = False, cfg_echoInterval = 0\<rparr>) (\<lambda>cfg.
       let d = cfg_echoInterval cfg in
       Ok \<lparr>run_conn = NewConn show_err conn (cfg_ll cfg), run_client = new_client,
          run_wg = 2 + (if d \<noteq> 0 then 1 else 0),
          run_goroutines = (if d \<noteq> 0 then [EchoTicker d] else []) @ [EchoLoop, Listen]\<rparr>)"

text \<open>\<open>dial\<close> is \<^verbatim>\<open>net.Dial\<close>, given the network and the address.\<close>

definition Dial :: "(error option \<Rightarrow> string) \<Rightarrow> (string \<Rightarrow> string \<Rightarrow> 'n \<Rightarrow> 'w rwc result \<times> 'n) \<Rightarrow> string \<Rightarrow> string \<Rightarrow> ovsdb_option list \<Rightarrow>
    'n \<Rightarrow> 'w running result \<times> 'n" where
  "Dial show_err dial network addr opts w =
     (case dial network addr w of
        (Ok conn, w') \<Rightarrow> (ovsdb_New show_err conn opts, w')
      | (Err e, w') \<Rightarrow> (Err e, w')
      | (Panic, w') \<Rightarrow> (Panic, w'))"

lemma New_wait_group: "ovsdb_New show_err conn opts = Ok c \<Longrightarrow> run_wg c = length (run_goroutines c)"
  by (auto simp: ovsdb_New_def Let_def)

text \<open>
  An option that fails after the connection was opened: \<^verbatim>\<open>Dial\<close> returns its error, and the network is left as \<^verbatim>\<open>net.Dial\<close>
  left it, the connection open and no one holding it.
\<close>

lemma Dial_option_error_leaks:
  assumes "dial network addr w = (Ok conn, w')" "apply_options opts \<lparr>cfg_ll = False, cfg_echoInterval = 0\<rparr> = Err e"
  shows "Dial show_err dial network addr opts w = (Err e, w')"
  using assms by (simp add: Dial_def ovsdb_New_def)

end
