(* ===== verification/Client_Debug.thy ===== *)
theory Client_Debug
  imports Ovs_Client Go_Quote
begin

text \<open>
  The debug output of \<^verbatim>\<open>ovs/client.go\<close>. \<open>Ovs_Client\<close> models what \<^verbatim>\<open>exec\<close> and \<^verbatim>\<open>pipe\<close> run and return; here they also
  write to the log, which is a list of messages beside the state of the world (the time and the line break that
  package \<^verbatim>\<open>log\<close> adds to a message are left out). Shown: debugging changes nothing else.
\<close>

definition debugf :: "'w Client \<Rightarrow> string \<Rightarrow> string list \<Rightarrow> string list" where
  "debugf c msg log = (if \<not> debug c then log else log @ [''ovs: '' @ msg])"

text \<open>The verb \<^verbatim>\<open>%v\<close> for a slice of strings.\<close>

definition show_strings :: "string list \<Rightarrow> string" where
  "show_strings ss = ''['' @ Join ss '' '' @ '']''"

definition exec_debug ::
  "(nat \<Rightarrow> bool) \<Rightarrow> 'w Client \<Rightarrow> string \<Rightarrow> string list \<Rightarrow> 'w \<times> string list \<Rightarrow> string result \<times> 'w \<times> string list" where
  "exec_debug is_print c cmd args = (\<lambda>(w, log).
     let (cmd', fl) = command_line c cmd args;
         log1 = debugf c (''exec: '' @ cmd' @ '' '' @ show_strings fl) log;
         ((out, err), w') = execFunc c cmd' fl w;
         out' = map_option TrimSpace out;
         log2 = (case out' of None \<Rightarrow> log1 | Some b \<Rightarrow> debugf c (''exec: '' @ Quote is_print b) log1)
     in case err of
          Some e \<Rightarrow> (Err (ExecError out' e), w', log2)
        | None \<Rightarrow> (Ok (case out' of None \<Rightarrow> [] | Some b \<Rightarrow> b), w', log2))"

text \<open>
  The input of \<^verbatim>\<open>pipe\<close> is read through a \<^verbatim>\<open>TeeReader\<close>, which logs each piece that the function reads; \<open>pieces\<close> are the
  pieces it reads of an input. \<open>err_text\<close> is the text of an error.
\<close>

definition pipe_debug ::
  "(nat \<Rightarrow> bool) \<Rightarrow> (error \<Rightarrow> string) \<Rightarrow> (string \<Rightarrow> string list) \<Rightarrow> 'w Client \<Rightarrow> string \<Rightarrow> string \<Rightarrow> string list \<Rightarrow>
   'w \<times> string list \<Rightarrow> unit result \<times> 'w \<times> string list" where
  "pipe_debug is_print err_text pieces c stdin cmd args = (\<lambda>(w, log).
     let (cmd', fl) = command_line c cmd args;
         log1 = debugf c (''pipe: '' @ cmd' @ '' '' @ show_strings fl) log;
         log2 = debugf c ''bundle:'' log1;
         ((out, err), w') = pipeFunc c stdin cmd' fl w;
         log3 = fold (debugf c) (pieces stdin) log2
     in case err of
          Some e \<Rightarrow>
            (Err (PipeError out e), w',
             debugf c (''pipe error: '' @ err_text e @ '': '' @ Quote is_print (case out of None \<Rightarrow> [] | Some b \<Rightarrow> b)) log3)
        | None \<Rightarrow> (Ok (), w', log3))"

lemma debugf_all: "fold (debugf c) ms log = (if debug c then log @ map ((@) ''ovs: '') ms else log)"
  by (induction ms arbitrary: log) (simp_all add: debugf_def)

text \<open>The messages of one command, for a client that debugs.\<close>

definition exec_messages :: "(nat \<Rightarrow> bool) \<Rightarrow> 'w Client \<Rightarrow> string \<Rightarrow> string list \<Rightarrow> 'w \<Rightarrow> string list" where
  "exec_messages is_print c cmd args w =
     [''ovs: exec: '' @ fst (command_line c cmd args) @ '' '' @ show_strings (snd (command_line c cmd args))] @
     (case fst (fst (exec_program c cmd args w)) of
        None \<Rightarrow> [] | Some b \<Rightarrow> [''ovs: exec: '' @ Quote is_print (TrimSpace b)])"

definition pipe_messages ::
  "(nat \<Rightarrow> bool) \<Rightarrow> (error \<Rightarrow> string) \<Rightarrow> (string \<Rightarrow> string list) \<Rightarrow> 'w Client \<Rightarrow> string \<Rightarrow> string \<Rightarrow> string list \<Rightarrow> 'w \<Rightarrow> string list" where
  "pipe_messages is_print err_text pieces c stdin cmd args w =
     [''ovs: pipe: '' @ fst (command_line c cmd args) @ '' '' @ show_strings (snd (command_line c cmd args)), ''ovs: bundle:''] @
     map ((@) ''ovs: '') (pieces stdin) @
     (case fst (pipe_program c stdin cmd args w) of
        (out, Some e) \<Rightarrow> [''ovs: pipe error: '' @ err_text e @ '': '' @ Quote is_print (case out of None \<Rightarrow> [] | Some b \<Rightarrow> b)]
      | _ \<Rightarrow> [])"

text \<open>
  Debugging is transparent: it changes neither the result of a command nor what the command does to the world, and
  adds nothing to the log when it is off. When it is on, the log tells the command line that was run, flags and \<^verbatim>\<open>sudo\<close>
  included, then the output that was returned, or everything that was read of the input and the error.
\<close>

theorem debug_transparent:
  "exec_debug is_print c cmd args (w, log) =
     (case Client_exec c cmd args w of (r, w') \<Rightarrow> (r, w', log @ (if debug c then exec_messages is_print c cmd args w else []))) \<and>
   pipe_debug is_print err_text pieces c stdin cmd args (w, log) =
     (case Client_pipe c stdin cmd args w of (r, w') \<Rightarrow>
        (r, w', log @ (if debug c then pipe_messages is_print err_text pieces c stdin cmd args w else [])))"
proof
  show "exec_debug is_print c cmd args (w, log) =
     (case Client_exec c cmd args w of (r, w') \<Rightarrow> (r, w', log @ (if debug c then exec_messages is_print c cmd args w else [])))"
    by (simp add: exec_debug_def Client_exec_def exec_messages_def exec_program_def debugf_def Let_def split: prod.split option.split)
  show "pipe_debug is_print err_text pieces c stdin cmd args (w, log) =
     (case Client_pipe c stdin cmd args w of (r, w') \<Rightarrow>
        (r, w', log @ (if debug c then pipe_messages is_print err_text pieces c stdin cmd args w else [])))"
    by (simp add: pipe_debug_def Client_pipe_def pipe_messages_def pipe_program_def debugf_def debugf_all Let_def
        split: prod.split option.split)
qed

end
