(* ===== verification/Spec2Isabelle.thy ===== *)
theory Spec2Isabelle
  imports Prelude Go_Strings Go_Numbers Go_Net Port_Range Ovs_Match Match_Parser Ovs_Action
    Action_Parser Ovs_Flow Ovs_Stats Ovs_Client Open_Flow V_Switch Go_Json Go_Quote Go_Syntax
    Ovs_Netlink Ntlk_Main Ovsdb_Rpc Ovsdb_Client Error_Texts Parsed_Values Ovs_Constants Shell_Pipe
    Flag_Slices Go_Compact Test_Conn Ovsdb_Session Ovsdb_Close Close_Returns Ovsdb_Setup Client_Debug
    Go_Scanner Conn_Stream Ovsh
begin

text \<open>
  A verification of the Go code under \<^verbatim>\<open>src/ntlink/go\<close>, with which the network coding switch
  configures Open vSwitch and reads its state. File names below are relative to
  \<^verbatim>\<open>src/ntlink/go/go-openvswitch\<close>, but for \<^verbatim>\<open>ntlk.go\<close>, which lies beside it.

  \<^bold>\<open>The program.\<close> It has three packages that share no state.

  \<^verbatim>\<open>ovs\<close> drives the control programs. It describes OpenFlow flows as Go values (\<^verbatim>\<open>flow.go\<close>, with
  matches in \<^verbatim>\<open>match.go\<close> and actions in \<^verbatim>\<open>action.go\<close>), prints them in the syntax of \<^verbatim>\<open>ovs-ofctl\<close> and parses
  that syntax again (\<^verbatim>\<open>matchparser.go\<close>, \<^verbatim>\<open>actionparser.go\<close>), splits port ranges in value/mask pairs
  (\<^verbatim>\<open>portrange.go\<close>), runs the programs (\<^verbatim>\<open>client.go\<close>) and reads their statistics
  (\<^verbatim>\<open>portstats.go\<close>, \<^verbatim>\<open>table.go\<close>, \<^verbatim>\<open>flowstats.go\<close>). \<^verbatim>\<open>openflow.go\<close> ties them together: a flow given to
  the service is marshaled and put on a command line or in a transaction, and the output of a
  dump is cut in records that the parsers read; \<^verbatim>\<open>vswitch.go\<close> does the same for \<^verbatim>\<open>ovs-vsctl\<close>.

  \<^verbatim>\<open>ovsdb\<close> is a client of the database server. Callers, a listener and an echo loop run concurrently on
  one connection (\<^verbatim>\<open>client.go\<close>); requests and responses are JSON-RPC messages
  (\<^verbatim>\<open>internal/jsonrpc/conn.go\<close>, \<^verbatim>\<open>result.go\<close>, \<^verbatim>\<open>transact.go\<close>, \<^verbatim>\<open>rpc.go\<close>). \<^verbatim>\<open>internal/jsonrpc/testconn.go\<close> is a
  server for tests, on the other side of such a connection.

  \<^verbatim>\<open>ovsnl\<close> reads the datapaths of the kernel over generic netlink (\<^verbatim>\<open>client.go\<close>, \<^verbatim>\<open>datapath.go\<close>); \<^verbatim>\<open>ntlk.go\<close> is
  a program that prints them.

  \<^bold>\<open>Theories.\<close>
  \<^item> \<open>Prelude\<close>: the outcome of a Go function (\<open>Ok\<close>, \<open>Err\<close> with an error value, \<open>Panic\<close>), its
    sequencing, and the interfaces \<open>text_codec\<close>, \<open>separated_codec\<close> and \<open>text_marshaler\<close>.
  \<^item> \<open>Go_Strings\<close>, \<open>Go_Numbers\<close>, \<open>Go_Net\<close>, \<open>Go_Json\<close>, \<open>Go_Scanner\<close>, \<open>Go_Compact\<close>, \<open>Go_Quote\<close>: what the code uses of the Go library
    (\<^verbatim>\<open>strings\<close>, \<^verbatim>\<open>unicode/utf8\<close>, \<^verbatim>\<open>strconv\<close>, \<^verbatim>\<open>fmt\<close>, \<^verbatim>\<open>net\<close>, \<^verbatim>\<open>encoding/json\<close>). Strings are lists of bytes.
    Shown: numbers, addresses, JSON values and quoted strings are read back from what is printed, and the
    scanner that looks for the end of a JSON value in a stream finds it where the parser does.
  \<^item> \<open>Port_Range\<close> (\<^verbatim>\<open>portrange.go\<close>): \<^verbatim>\<open>BitwiseMatch\<close> on 16-bit words. Shown: the pairs cover the range
    exactly and do not overlap.
  \<^item> \<open>Ovs_Match\<close>, \<open>Match_Parser\<close> (\<^verbatim>\<open>match.go\<close>, \<^verbatim>\<open>matchparser.go\<close>): one constructor of \<open>Match\<close> per
    struct, one definition per method and per parser. Shown: the round trip, that parsing never
    panics, and which numbers out of range are rejected and which wrap.
  \<^item> \<open>Ovs_Action\<close>, \<open>Action_Parser\<close> (\<^verbatim>\<open>action.go\<close>, \<^verbatim>\<open>actionparser.go\<close>): likewise for actions, with the
    tokenizer, the regular expressions and the \<^verbatim>\<open>Sscanf\<close> formats written out. Shown: which lists of
    actions are read back, parsing returns on balanced input, and what happens on other input.
  \<^item> \<open>Go_Syntax\<close> (\<^verbatim>\<open>codegen.go\<close>, the \<^verbatim>\<open>GoString\<close> methods): the Go expressions for matches and actions, and
    a reader of such expressions. Shown: the expression builds the value it was printed for, but for actions that lack an
    address.
  \<^item> \<open>Ovs_Flow\<close> (\<^verbatim>\<open>flow.go\<close>, \<^verbatim>\<open>matchflow.go\<close>), \<open>Ovs_Stats\<close> (\<^verbatim>\<open>flowstats.go\<close>, \<^verbatim>\<open>portstats.go\<close>,
    \<^verbatim>\<open>table.go\<close>): the records and their text form. Shown: flows are read back, when marshaling
    fails, and that statistics land in their fields.
  \<^item> \<open>Parsed_Values\<close>: what the parsers of matches, actions and flows can return. Shown: only values that the exported
    constructors build, with numbers that fit their types.
  \<^item> \<open>Ovs_Constants\<close> (the constants of \<^verbatim>\<open>match.go\<close>, \<^verbatim>\<open>ovs.go\<close>, \<^verbatim>\<open>client.go\<close>): one datatype per string type with declared
    values. Shown: matches on declared states and flags are read back exactly.
  \<^item> \<open>Ovs_Client\<close> (\<^verbatim>\<open>client.go\<close>, \<^verbatim>\<open>ovs.go\<close>): the client, its options and its two ways to run a program
    (the interface \<open>command_runner\<close>).
  \<^item> \<open>Client_Debug\<close> (\<^verbatim>\<open>debugf\<close> and its uses in \<^verbatim>\<open>client.go\<close>): the same two functions with their log. Shown: debugging
    changes nothing else, and what the log says.
  \<^item> \<open>Shell_Pipe\<close> (\<^verbatim>\<open>shellPipe\<close> of \<^verbatim>\<open>client.go\<close>): the caller and the program it started as two processes over bounded pipes.
    Shown: when every schedule ends with the program's output, and that a program that complains too much hangs the caller.
  \<^item> \<open>Flag_Slices\<close> (the appends of \<^verbatim>\<open>dumpPorts\<close>, \<^verbatim>\<open>dumpAggregate\<close> and \<^verbatim>\<open>exec\<close>): slices with their arrays, and interleaved calls
    that append to the two slices of flags they share. Shown: when the calls run the commands that the model with
    lists has for them, and runs in which they do not.
  \<^item> \<open>Open_Flow\<close> (\<^verbatim>\<open>openflow.go\<close>), \<open>V_Switch\<close> (\<^verbatim>\<open>vswitch.go\<close>): transactions as a state machine, commands,
    dumps. Shown: bundles are all or nothing, one command runs or none, output is read as printed.
  \<^item> \<open>Ovsh\<close> (\<^verbatim>\<open>ovsnl/internal/ovsh\<close>): one datatype with its numbers per enumeration of the kernel's interface, the other
    constants, the structures. The interface \<open>numbering\<close> is what readers of messages rely on; it is interpreted
    for each enumeration. Shown: the numbers are those from 0 to the declared maximum, each once.
  \<^item> \<open>Ovs_Netlink\<close> (\<^verbatim>\<open>ovsnl/client.go\<close>, \<^verbatim>\<open>ovsnl/datapath.go\<close>), \<open>Ntlk_Main\<close> (\<^verbatim>\<open>ntlk.go\<close>): families, messages, parsers, the
    program. Shown: when a client is made, or why not, that datapaths are read as the kernel encodes them, in whatever order
    it sends their attributes, what the program prints and that connections are closed.
  \<^item> \<open>Ovsdb_Rpc\<close> (\<^verbatim>\<open>conn.go\<close>, \<^verbatim>\<open>result.go\<close>, \<^verbatim>\<open>transact.go\<close>, \<^verbatim>\<open>rpc.go\<close>): messages. Shown: requests and transactions are
    encoded faithfully, and what a result means.
  \<^item> \<open>Ovsdb_Client\<close> (\<^verbatim>\<open>ovsdb/client.go\<close>): the relation \<open>step\<close> has one rule per critical section or channel
    operation of the calls, the listener, which reads any message at any time, and the echo loop; \<open>cancel\<close> is the environment's (contexts and
    \<^verbatim>\<open>Close\<close>); \<open>reachable\<close> combines them. Shown by rule induction: callbacks never block or panic, each call
    gets its own answer, callbacks do not leak, an answered call returns; also the deadlock of two echoes.
  \<^item> \<open>Error_Texts\<close>: the \<^verbatim>\<open>Error\<close> methods and the declared errors, and that the listener stops when the connection is
    closed.
  \<^item> \<open>Ovsdb_Close\<close> (\<^verbatim>\<open>Close\<close> of \<^verbatim>\<open>ovsdb/client.go\<close>): that a closing client can always finish, also from the deadlock of two echoes.
  \<^item> \<open>Close_Returns\<close>: the client with the decoder of its connection, the error that decoder may have stopped at, and the
    goroutine of \<^verbatim>\<open>EchoInterval\<close>; every move of \<open>moves\<close> is a \<open>step\<close> or leaves the client as it is. Infinite runs are functions from
    the natural numbers, with weak fairness for each of the three goroutines. Shown, with weights that their moves
    lower: a client that has closed its connection finishes unless the bytes it has read are no messages, and then it never does.
  \<^item> \<open>Ovsdb_Setup\<close> (the options, \<^verbatim>\<open>New\<close>, \<^verbatim>\<open>Dial\<close>; \<^verbatim>\<open>NewConn\<close> and the logging connection of \<^verbatim>\<open>conn.go\<close>): Shown, through the
    interface \<open>transparent\<close>: logging changes nothing that users of a connection can see.
  \<^item> \<open>Test_Conn\<close> (\<^verbatim>\<open>testconn.go\<close>): the two goroutines of the test server as a step relation, the test's own actions as another.
    Shown: answers are written once and in order, and the server stops after the clean-up.
  \<^item> \<open>Ovsdb_Session\<close>: the client and the test server on one connection. Shown: each request gets the answer to it, and
    \<^verbatim>\<open>Transact\<close>, \<^verbatim>\<open>ListDatabases\<close> and \<^verbatim>\<open>Echo\<close> return what the server's function answers.
  \<^item> \<open>Conn_Stream\<close> (\<^verbatim>\<open>Receive\<close> of \<^verbatim>\<open>conn.go\<close> and \<^verbatim>\<open>listen\<close> on the bytes of the connection): the decoder with its buffer and the
    reads of the connection. Shown: it refines the decoder of the other theories, whose input is a list of texts, however
    the bytes are cut; and that a stream which ends within a message makes \<^verbatim>\<open>listen\<close> spin.
  \<^item> This theory: the test server, the bytes and \<^verbatim>\<open>Receive\<close> together.

  \<^bold>\<open>Conventions.\<close> A Go \<^verbatim>\<open>int\<close> is an \<open>int\<close> with the predicate \<open>int64\<close> where its width matters; \<^verbatim>\<open>uintN\<close>
  is an \<open>N word\<close>; the library is that of Go 1.10 on a 64-bit machine. A pointer to a struct is the
  record. Every \<^verbatim>\<open>return err\<close> is an \<open>Err\<close> and every run-time panic a \<open>Panic\<close>. Loops are structural
  recursions or functions with a termination proof; only \<open>listen_rounds\<close> and \<open>listen_bytes\<close>, the endless loop of the listener, count
  rounds, and their theorems hold for every number of them. \<open>program_run\<close> says what a started program does by itself
  in at most a number of steps; the theorem on \<^verbatim>\<open>shellPipe\<close> holds for every number in which it ends. Functions that start a process or use the network act
  on a state of the world given as a parameter. The identifiers of calls are 64-bit words: theorems on the client
  assume that fewer than \<open>2 ^ 64\<close> calls were made.

  \<^bold>\<open>Parameters.\<close> The netlink library (\<open>netlink_lib\<close>, \<open>execute\<close>), starting processes (fields of \<open>Client\<close>) and the
  started program (\<open>nxt\<close>), the function of a test, the connection's \<^verbatim>\<open>Write\<close>, the table of printable runes, the conversion of JSON numbers to floats, and the texts of
  library errors.

  \<^bold>\<open>Not modelled.\<close> \<^verbatim>\<open>shellExec\<close>, which is one call of \<^verbatim>\<open>os/exec\<close>; failures to listen or dial in a test; timers (an echo
  tick may happen at any time); the time stamps of log lines. Texts that the JSON scanner lets through are taken to be
  read by the parser as well, of which only the other direction is shown. Of the remaining lines of the Go files, all are
  comments, imports, or type declarations whose fields are arguments of constructors here. The rest of the repository is not Go: scripts
  for the emulated network and patches in C.
\<close>

text \<open>
  C13: from the server's goroutines to the caller of \<^verbatim>\<open>Receive\<close>. Take any run of the test server on a connection that works,
  with any requests and notifications in any interleaving. Whenever it waits for a request, the bytes it has written,
  however they are cut on their way, are received as the answers to all requests so far and the notifications pushed so
  far: each once, none lost or mixed with another, the answers in the order of their requests and the notifications in theirs.
\<close>

theorem server_reaches_client:
  assumes "test_run et float_ok (\<lambda>q. message_response (answer q)) good_write (new_server input []) s"
    "\<not> panicked s" "loop_at s = Serving" "pushed s = map message_response notes"
    "list_all (\<lambda>q. sendable float_ok (answer q)) (asked s)" "list_all (sendable float_ok) notes"
    "concat chunks = concat (net s)"
  shows "\<exists>msgs d. msgs \<in> shuffles (map answer (asked s)) notes \<and>
    Receive_times float_ok (length msgs) \<lparr>bd_buf = [], bd_reads = map Text chunks, bd_err = None\<rparr> =
      Some (map (\<lambda>msg. Ok (message_received msg)) msgs, d)"
proof -
  let ?line = "\<lambda>msg. printed_line (message_response msg)"
  have "net s \<in> shuffles (map ?line (map answer (asked s))) (map ?line notes)"
    using served_shuffle [OF assms(1-3)] by (simp add: assms(4) comp_def)
  then obtain msgs where msgs: "msgs \<in> shuffles (map answer (asked s)) notes" "net s = map ?line msgs"
    using shuffles_map by blast
  have "list_all (sendable float_ok) msgs"
    using assms(5,6) set_shuffles [OF msgs(1)] by (auto simp: list_all_iff)
  from Receive_messages [OF this] assms(7) msgs show ?thesis by metis
qed

definition sample_answer :: "Request \<Rightarrow> message" where
  "sample_answer q = (Some (req_ID q), Some (JArr []), None, [], None)"

theorem server_reaches_client_witness:
  "\<exists>msgs d. msgs \<in> shuffles [sample_answer sample_request] [] \<and>
     Receive_times (\<lambda>_. True) (length msgs)
       \<lparr>bd_buf = [], bd_reads = map Text [take 9 (concat (net sample_served)), drop 9 (concat (net sample_served))], bd_err = None\<rparr> =
     Some (map (\<lambda>msg. Ok (message_received msg)) msgs, d)"
proof -
  have f: "(\<lambda>q. message_response (sample_answer q)) = empty_answer" by (simp add: fun_eq_iff sample_answer_def empty_answer_def)
  have "\<exists>msgs d. msgs \<in> shuffles (map sample_answer (asked sample_served)) [] \<and>
     Receive_times (\<lambda>_. True) (length msgs)
       \<lparr>bd_buf = [], bd_reads = map Text [take 9 (concat (net sample_served)), drop 9 (concat (net sample_served))], bd_err = None\<rparr> =
     Some (map (\<lambda>msg. Ok (message_received msg)) msgs, d)"
  proof (rule server_reaches_client)
    show "test_run (\<lambda>_. []) (\<lambda>_. True) (\<lambda>q. message_response (sample_answer q)) good_write (new_server [Text sample_text] []) sample_served"
      unfolding f by (rule sample_run)
    show "list_all (\<lambda>q. sendable (\<lambda>_. True) (sample_answer q)) (asked sample_served)"
      by (simp add: sample_served_def sample_answer_def List.map_filter_def)
  qed (simp_all add: sample_served_def new_server_def)
  then show ?thesis by (simp add: sample_served_def)
qed

end
